(* ===== verification/Prelude.thy ===== *)
theory Prelude
  imports Main "HOL-Library.AList" "HOL-Library.Multiset"
begin

text \<open>
  What every component of the development shares: Go's error values and results (a call
  returns a value, returns an error, or panics), Go maps as association lists, the idiom
  by which the program deletes a slice element without preserving the order, and the
  theorem collections that the component proofs use.
\<close>

named_theorems map_simps \<open>looking up a key in an updated Go map\<close>

section \<open>Errors and results\<close>

text \<open>
  \<open>Errorf f args\<close> is an error made by the program itself with format string \<open>f\<close>;
  \<open>Wrap m e\<close> is \<open>errors.Wrap(e, m)\<close> (or an error formatted with an inner one); \<open>Ext m\<close> is
  an error handed over by code outside the repository (the operating system, a parser);
  \<open>ErrorfErrs f es\<close> is made with format string \<open>f\<close> from other errors, nil ones included.
  \<open>Fatal m\<close> is no error value: it stands for the end of the process by \<open>log.Fatalf(m)\<close>, with the exit
  code 1. Whoever is on the stack then neither returns nor runs what it has deferred, which is
  written out at each place that \<open>Fatal\<close> can reach.
\<close>

datatype gerror =
    Errorf string "string list"
  | Wrap string gerror
  | Ext string
  | ErrorfErrs string "gerror option list"
  | Fatal string

datatype 'a result =
    Ok 'a
  | Err gerror
  | Panic

fun rbind :: "'a result \<Rightarrow> ('a \<Rightarrow> 'b result) \<Rightarrow> 'b result" where
  "rbind (Ok x) f = f x"
| "rbind (Err e) f = Err e"
| "rbind Panic f = Panic"

fun is_ok :: "'a result \<Rightarrow> bool" where
  "is_ok (Ok _) = True"
| "is_ok (Err _) = False"
| "is_ok Panic = False"

fun map_err :: "(gerror \<Rightarrow> gerror) \<Rightarrow> 'a result \<Rightarrow> 'a result" where
  "map_err f (Ok x) = Ok x"
| "map_err f (Err e) = Err (f e)"
| "map_err f Panic = Panic"

text \<open>What a caller makes of an error; once the process has ended there is no caller.\<close>

fun is_fatal :: "gerror \<Rightarrow> bool" where
  "is_fatal (Fatal _) = True"
| "is_fatal _ = False"

fun has_exited :: "'a result \<Rightarrow> bool" where
  "has_exited (Err e) = is_fatal e"
| "has_exited _ = False"

definition on_error :: "(gerror \<Rightarrow> gerror) \<Rightarrow> 'a result \<Rightarrow> 'a result" where
  "on_error f r = (if has_exited r then r else map_err f r)"

lemma on_error_Ok [simp]: "on_error f r = Ok x \<longleftrightarrow> r = Ok x"
  by (cases r) (auto simp: on_error_def)

lemma on_error_Panic [simp]: "on_error f r = Panic \<longleftrightarrow> r = Panic"
  by (cases r) (auto simp: on_error_def)

lemma has_exited_iff: "has_exited r \<longleftrightarrow> (\<exists>m. r = Err (Fatal m))"
  by (cases r rule: has_exited.cases) (auto elim: is_fatal.elims)

text \<open>An error that external code may hand over, \<open>None\<close> for success.\<close>

definition check :: "gerror option \<Rightarrow> 'a \<Rightarrow> 'a result" where
  "check e x = (case e of None \<Rightarrow> Ok x | Some er \<Rightarrow> Err er)"

lemma rbind_Ok_conv [simp]: "rbind r f = Ok y \<longleftrightarrow> (\<exists>x. r = Ok x \<and> f x = Ok y)"
  by (cases r) auto

lemma rbind_Err_conv: "rbind r f = Err e \<longleftrightarrow> r = Err e \<or> (\<exists>x. r = Ok x \<and> f x = Err e)"
  by (cases r) auto

lemma rbind_Panic_conv: "rbind r f = Panic \<longleftrightarrow> r = Panic \<or> (\<exists>x. r = Ok x \<and> f x = Panic)"
  by (cases r) auto

lemma rbind_assoc: "rbind (rbind r f) g = rbind r (\<lambda>x. rbind (f x) g)"
  by (cases r) auto

lemma rbind_cong [fundef_cong]:
  "r = r' \<Longrightarrow> (\<And>x. r' = Ok x \<Longrightarrow> f x = g x) \<Longrightarrow> rbind r f = rbind r' g"
  by (cases r') auto

lemma check_Ok [simp]: "check e x = Ok y \<longleftrightarrow> e = None \<and> x = y"
  by (auto simp: check_def split: option.splits)

lemma check_not_Panic [simp]: "check e x \<noteq> Panic"
  by (auto simp: check_def split: option.splits)

lemma map_err_Ok [simp]: "map_err f r = Ok x \<longleftrightarrow> r = Ok x"
  by (cases r) auto

lemma map_err_Panic [simp]: "map_err f r = Panic \<longleftrightarrow> r = Panic"
  by (cases r) auto

lemma map_err_Err: "map_err f r = Err e \<longleftrightarrow> (\<exists>e'. r = Err e' \<and> e = f e')"
  by (cases r) auto

lemma is_ok_iff: "is_ok r \<longleftrightarrow> (\<exists>x. r = Ok x)"
  by (cases r) auto

text \<open>A loop over a slice that stops at the first error.\<close>

fun each :: "('a \<Rightarrow> 's \<Rightarrow> 's result) \<Rightarrow> 'a list \<Rightarrow> 's \<Rightarrow> 's result" where
  "each f [] s = Ok s"
| "each f (x # xs) s = rbind (f x s) (each f xs)"

lemma each_append: "each f (xs @ ys) s = rbind (each f xs s) (each f ys)"
proof (induction xs arbitrary: s)
  case Nil
  then show ?case by simp
next
  case (Cons x xs)
  then show ?case by (simp add: rbind_assoc cong: rbind_cong)
qed

lemma each_inv:
  assumes "each f xs s = Ok t" and "P s"
    and "\<And>x s t. x \<in> set xs \<Longrightarrow> P s \<Longrightarrow> f x s = Ok t \<Longrightarrow> P t"
  shows "P t"
  using assms by (induction xs arbitrary: s) auto

lemma each_not_Panic:
  assumes "P s"
    and "\<And>x s. x \<in> set xs \<Longrightarrow> P s \<Longrightarrow> f x s \<noteq> Panic"
    and "\<And>x s t. x \<in> set xs \<Longrightarrow> P s \<Longrightarrow> f x s = Ok t \<Longrightarrow> P t"
  shows "each f xs s \<noteq> Panic"
  using assms
proof (induction xs arbitrary: s)
  case Nil
  then show ?case by simp
next
  case (Cons x xs)
  have "f x s \<noteq> Panic" using Cons.prems by simp
  moreover have "each f xs t \<noteq> Panic" if "f x s = Ok t" for t
  proof (rule Cons.IH)
    show "P t" using that Cons.prems(1,3) by (meson list.set_intros(1))
  qed (meson Cons.prems(2,3) list.set_intros(2))+
  ultimately show ?case by (auto simp: rbind_Panic_conv)
qed

lemma each_total:
  assumes "\<And>x s. x \<in> set xs \<Longrightarrow> f x s = Ok (g x s)"
  shows "each f xs s = Ok (fold g xs s)"
  using assms by (induction xs arbitrary: s) auto

text \<open>A loop that converts the elements of a slice one by one.\<close>

fun rmap :: "('a \<Rightarrow> 'b result) \<Rightarrow> 'a list \<Rightarrow> 'b list result" where
  "rmap f [] = Ok []"
| "rmap f (x # xs) = rbind (f x) (\<lambda>y. rbind (rmap f xs) (\<lambda>ys. Ok (y # ys)))"

lemma rmap_Ok: "rmap f xs = Ok ys \<longleftrightarrow> list_all2 (\<lambda>x y. f x = Ok y) xs ys"
  by (induction xs arbitrary: ys) (auto simp: list_all2_Cons1)

lemma rmap_total: "(\<And>x. x \<in> set xs \<Longrightarrow> f x = Ok (g x)) \<Longrightarrow> rmap f xs = Ok (map g xs)"
  by (induction xs) auto

lemma rmap_cong [fundef_cong]:
  "xs = ys \<Longrightarrow> (\<And>x. x \<in> set ys \<Longrightarrow> f x = g x) \<Longrightarrow> rmap f xs = rmap g ys"
  by (induction ys arbitrary: xs) auto

lemma all_splits_snoc:
  "(\<forall>ds c es. cs @ [d] = ds @ c # es \<longrightarrow> P ds c) \<longleftrightarrow>
     (\<forall>ds c es. cs = ds @ c # es \<longrightarrow> P ds c) \<and> P cs d"
proof (intro iffI conjI allI impI)
  fix ds c es
  assume "\<forall>ds c es. cs @ [d] = ds @ c # es \<longrightarrow> P ds c" and "cs = ds @ c # es"
  then show "P ds c" by (metis append_Cons append_assoc)
next
  assume "\<forall>ds c es. cs @ [d] = ds @ c # es \<longrightarrow> P ds c"
  then show "P cs d" by blast
next
  fix ds c es
  assume h: "(\<forall>ds c es. cs = ds @ c # es \<longrightarrow> P ds c) \<and> P cs d" and eq: "cs @ [d] = ds @ c # es"
  show "P ds c"
  proof (cases es rule: rev_cases)
    case Nil
    with h eq show ?thesis by simp
  next
    case (snoc es' x)
    with eq have "cs = ds @ c # es'" by simp
    with h show ?thesis by blast
  qed
qed

section \<open>Go maps\<close>

text \<open>
  A Go map is an association list with distinct keys. The list's order is the order in
  which one particular \<open>for range\<close> loop visits the map; Go leaves that order open, so a
  property that holds for every list holds for every visiting order.
\<close>

type_synonym ('k, 'v) gmap = "('k \<times> 'v) list"

definition mget :: "('k, 'v) gmap \<Rightarrow> 'k \<Rightarrow> 'v option" where
  "mget m k = map_of m k"

definition mput :: "'k \<Rightarrow> 'v \<Rightarrow> ('k, 'v) gmap \<Rightarrow> ('k, 'v) gmap" where
  "mput k v m = AList.update k v m"

definition mdel :: "'k \<Rightarrow> ('k, 'v) gmap \<Rightarrow> ('k, 'v) gmap" where
  "mdel k m = filter (\<lambda>p. fst p \<noteq> k) m"

definition mkeys :: "('k, 'v) gmap \<Rightarrow> 'k list" where
  "mkeys m = map fst m"

definition mwf :: "('k, 'v) gmap \<Rightarrow> bool" where
  "mwf m \<longleftrightarrow> distinct (mkeys m)"

text \<open>
  The contract of a map: what a read returns after a write or a delete, and that the
  writes keep the keys distinct. The clients are proved against it.
\<close>

locale keyed_table =
  fixes get :: "'m \<Rightarrow> 'k \<Rightarrow> 'v option"
    and put :: "'k \<Rightarrow> 'v \<Rightarrow> 'm \<Rightarrow> 'm"
    and del :: "'k \<Rightarrow> 'm \<Rightarrow> 'm"
    and keys :: "'m \<Rightarrow> 'k list"
    and wf :: "'m \<Rightarrow> bool"
  assumes get_put: "get (put k v m) k' = (if k' = k then Some v else get m k')"
    and get_del: "get (del k m) k' = (if k' = k then None else get m k')"
    and get_keys: "k \<in> set (keys m) \<longleftrightarrow> get m k \<noteq> None"
    and wf_put: "wf m \<Longrightarrow> wf (put k v m)"
    and wf_del: "wf m \<Longrightarrow> wf (del k m)"
begin

lemma get_put_same [simp]: "get (put k v m) k = Some v"
  by (simp add: get_put)

lemma get_put_other: "k' \<noteq> k \<Longrightarrow> get (put k v m) k' = get m k'"
  by (simp add: get_put)

lemma get_fold_put:
  "get (fold (\<lambda>k. put k v) ks m) k = (if k \<in> set ks then Some v else get m k)"
  by (induction ks arbitrary: m) (auto simp: get_put)

lemma wf_fold_put: "wf m \<Longrightarrow> wf (fold (\<lambda>k. put k v) ks m)"
  by (induction ks arbitrary: m) (auto intro: wf_put)

lemma keys_put: "set (keys (put k v m)) = insert k (set (keys m))"
  by (auto simp: get_keys get_put split: if_splits)

lemma keys_del: "set (keys (del k m)) = set (keys m) - {k}"
  by (auto simp: get_keys get_del split: if_splits)

lemma keys_fold_put: "set (keys (fold (\<lambda>k. put k v) ks m)) = set ks \<union> set (keys m)"
  by (induction ks arbitrary: m) (auto simp: keys_put)

lemma get_put_all:
  "get (fold (\<lambda>(k, v). put k v) kvs m) k
     = (case map_of (rev kvs) k of None \<Rightarrow> get m k | Some v \<Rightarrow> Some v)"
proof (induction kvs arbitrary: m)
  case Nil
  then show ?case by simp
next
  case (Cons kv kvs)
  then show ?case
    by (cases kv) (auto simp: get_put map_add_def split: option.splits)
qed

end

lemma mget_mput [map_simps]: "mget (mput k v m) k' = (if k' = k then Some v else mget m k')"
  by (simp add: mget_def mput_def update_conv)

lemma mget_mdel [map_simps]: "mget (mdel k m) k' = (if k' = k then None else mget m k')"
  unfolding mget_def mdel_def by (induction m) auto

lemma mkeys_iff: "k \<in> set (mkeys m) \<longleftrightarrow> mget m k \<noteq> None"
  by (auto simp: mkeys_def mget_def map_of_eq_None_iff)

lemma mwf_mput: "mwf m \<Longrightarrow> mwf (mput k v m)"
  unfolding mwf_def mkeys_def mput_def by (rule distinct_update)

lemma mwf_mdel: "mwf m \<Longrightarrow> mwf (mdel k m)"
  by (auto simp: mwf_def mkeys_def mdel_def distinct_map_filter)

interpretation mp: keyed_table mget mput mdel mkeys mwf
  by unfold_locales (auto simp: mget_mput mget_mdel mkeys_iff mwf_mput mwf_mdel)

lemma mget_Nil [simp]: "mget [] k = None"
  by (simp add: mget_def)

lemma mget_Cons [simp]: "mget ((k, v) # m) k' = (if k' = k then Some v else mget m k')"
  by (simp add: mget_def)

lemma mwf_Nil [simp]: "mwf []"
  by (simp add: mwf_def mkeys_def)

lemma mget_in: "mwf m \<Longrightarrow> (k, v) \<in> set m \<longleftrightarrow> mget m k = Some v"
  by (simp add: mwf_def mkeys_def mget_def)

lemma mget_SomeD: "mget m k = Some v \<Longrightarrow> (k, v) \<in> set m"
  unfolding mget_def by (rule map_of_SomeD)

lemma length_mput: "length (mput k v m) = (if mget m k = None then Suc (length m) else length m)"
  unfolding mget_def mput_def by (induction m) auto

lemma mdel_absent: "mget m k = None \<Longrightarrow> mdel k m = m"
  unfolding mdel_def mget_def map_of_eq_None_iff by (induction m) auto

lemma length_mdel: "mwf m \<Longrightarrow> mget m k \<noteq> None \<Longrightarrow> Suc (length (mdel k m)) = length m"
proof (induction m)
  case Nil
  then show ?case by simp
next
  case (Cons p m)
  obtain k' v where p: "p = (k', v)" by (cases p)
  show ?case
  proof (cases "k' = k")
    case True
    with Cons.prems p have "mget m k = None"
      by (auto simp: mwf_def mkeys_def mget_def map_of_eq_None_iff)
    then have "mdel k m = m" by (rule mdel_absent)
    with True p show ?thesis by (simp add: mdel_def)
  next
    case False
    with Cons p show ?thesis by (auto simp: mwf_def mkeys_def mdel_def mget_def)
  qed
qed

section \<open>Deleting from a slice without preserving the order\<close>

text \<open>
  \<^verbatim>\<open>xs[i] = xs[len(xs)-1]; xs = xs[:len(xs)-1]\<close>
\<close>

definition swap_remove :: "nat \<Rightarrow> 'a list \<Rightarrow> 'a list" where
  "swap_remove i xs = butlast (xs[i := last xs])"

lemma length_swap_remove [simp]: "length (swap_remove i xs) = length xs - 1"
  by (simp add: swap_remove_def)

lemma take_swap_remove: "i < length xs \<Longrightarrow> take i (swap_remove i xs) = take i xs"
  by (auto simp: swap_remove_def butlast_conv_take min_def)

lemma drop_swap_remove:
  assumes "i < length xs"
  shows "mset (drop i (swap_remove i xs)) = mset (drop (Suc i) xs)"
proof (cases "Suc i = length xs")
  case True
  then show ?thesis by (simp add: swap_remove_def)
next
  case False
  with assms have i: "Suc i < length xs" by simp
  then have ne: "drop (Suc i) xs \<noteq> []" by simp
  have "swap_remove i xs = take i xs @ last xs # butlast (drop (Suc i) xs)"
    using assms ne by (simp add: swap_remove_def upd_conv_take_nth_drop butlast_append)
  with assms have "drop i (swap_remove i xs) = last xs # butlast (drop (Suc i) xs)"
    by simp
  moreover have "last xs = last (drop (Suc i) xs)" using i by simp
  moreover have "mset (ys @ [y]) = add_mset y (mset ys)" for ys and y :: 'a by simp
  ultimately show ?thesis using ne
    by (metis append_butlast_last_id mset.simps(2))
qed

lemma mset_swap_remove:
  assumes "i < length xs"
  shows "add_mset (xs ! i) (mset (swap_remove i xs)) = mset xs"
proof -
  have "mset (swap_remove i xs)
      = mset (take i (swap_remove i xs)) + mset (drop i (swap_remove i xs))"
    by (metis append_take_drop_id mset_append)
  also have "\<dots> = mset (take i xs) + mset (drop (Suc i) xs)"
    using assms by (simp add: take_swap_remove drop_swap_remove)
  finally show ?thesis
    using assms by (metis id_take_nth_drop mset.simps(2) mset_append
        union_mset_add_mset_right)
qed

lemma set_swap_remove_subset: "i < length xs \<Longrightarrow> set (swap_remove i xs) \<subseteq> set xs"
  by (metis mset_swap_remove set_mset_mset subset_insertI set_mset_add_mset_insert)

end
