(* ===== verification/Go_Strings.thy ===== *)
theory Go_Strings
  imports Prelude "HOL-Library.Char_ord" "HOL-Library.List_Lexorder"
begin

text \<open>
  The functions of Go's packages \<open>strings\<close>, \<open>strconv\<close> and \<open>sort\<close> that the program calls,
  on byte strings. A \<open>string\<close> is a list of bytes, as a Go string is, and strings compare
  bytewise, as \<open>sort.Strings\<close> does.
\<close>

definition has_prefix :: "string \<Rightarrow> string \<Rightarrow> bool" where
  "has_prefix s p \<longleftrightarrow> take (length p) s = p"

definition has_suffix :: "string \<Rightarrow> string \<Rightarrow> bool" where
  "has_suffix s p \<longleftrightarrow> length p \<le> length s \<and> drop (length s - length p) s = p"

definition trim_prefix :: "string \<Rightarrow> string \<Rightarrow> string" where
  "trim_prefix s p = (if has_prefix s p then drop (length p) s else s)"

definition trim_left :: "string \<Rightarrow> string \<Rightarrow> string" where
  "trim_left s cutset = dropWhile (\<lambda>c. c \<in> set cutset) s"

definition trim :: "string \<Rightarrow> string \<Rightarrow> string" where
  "trim s cutset = rev (trim_left (rev (trim_left s cutset)) cutset)"

text \<open>\<open>strings.Split\<close> with a separator of one byte.\<close>

fun split_on :: "char \<Rightarrow> string \<Rightarrow> string list" where
  "split_on c [] = [[]]"
| "split_on c (x # xs) =
     (if x = c then [] # split_on c xs
      else (case split_on c xs of [] \<Rightarrow> [[x]] | y # ys \<Rightarrow> (x # y) # ys))"

text \<open>\<open>strings.SplitN(s, c, 2)[0]\<close>: what comes before the first separator.\<close>

definition before :: "char \<Rightarrow> string \<Rightarrow> string" where
  "before c s = takeWhile (\<lambda>x. x \<noteq> c) s"

fun join :: "string \<Rightarrow> string list \<Rightarrow> string" where
  "join sep [] = []"
| "join sep [x] = x"
| "join sep (x # y # ys) = x @ sep @ join sep (y # ys)"

definition sort_strings :: "string list \<Rightarrow> string list" where
  "sort_strings xs = sort xs"

text \<open>\<open>strings.LastIndex(s, "c") == 0\<close> for one byte \<open>c\<close>: the only \<open>c\<close> is the first byte.\<close>

fun last_index_0 :: "char \<Rightarrow> string \<Rightarrow> bool" where
  "last_index_0 c [] = False"
| "last_index_0 c (x # xs) = (x = c \<and> c \<notin> set xs)"

section \<open>Runes\<close>

text \<open>
  The number of bytes of the first rune of a nonempty string, as \<open>utf8.DecodeRune\<close> finds it: an
  invalid byte counts as one rune.
\<close>

definition byte_in :: "nat \<Rightarrow> nat \<Rightarrow> string \<Rightarrow> nat \<Rightarrow> bool" where
  "byte_in lo hi s i \<longleftrightarrow> i < length s \<and> lo \<le> of_char (s ! i) \<and> of_char (s ! i) \<le> hi"

definition rune_width :: "string \<Rightarrow> nat" where
  "rune_width s =
     (if byte_in 0xC2 0xDF s 0 \<and> byte_in 0x80 0xBF s 1 then 2
      else if (byte_in 0xE0 0xE0 s 0 \<and> byte_in 0xA0 0xBF s 1 \<or>
               byte_in 0xE1 0xEC s 0 \<and> byte_in 0x80 0xBF s 1 \<or>
               byte_in 0xED 0xED s 0 \<and> byte_in 0x80 0x9F s 1 \<or>
               byte_in 0xEE 0xEF s 0 \<and> byte_in 0x80 0xBF s 1) \<and> byte_in 0x80 0xBF s 2 then 3
      else if (byte_in 0xF0 0xF0 s 0 \<and> byte_in 0x90 0xBF s 1 \<or>
               byte_in 0xF1 0xF3 s 0 \<and> byte_in 0x80 0xBF s 1 \<or>
               byte_in 0xF4 0xF4 s 0 \<and> byte_in 0x80 0x8F s 1) \<and>
              byte_in 0x80 0xBF s 2 \<and> byte_in 0x80 0xBF s 3 then 4
      else 1)"

lemma rune_width_pos [simp]: "0 < rune_width s"
  by (simp add: rune_width_def)

lemma rune_width_ascii: "(of_char c :: nat) < 128 \<Longrightarrow> rune_width (c # s) = 1"
  by (simp add: rune_width_def byte_in_def)

section \<open>Numbers\<close>

definition digit :: "nat \<Rightarrow> char" where
  "digit d = char_of (48 + d)"

fun itoa :: "nat \<Rightarrow> string" where
  "itoa n = (if n < 10 then [digit n] else itoa (n div 10) @ [digit (n mod 10)])"

declare itoa.simps [simp del]

definition itoa_int :: "int \<Rightarrow> string" where
  "itoa_int i = (if i < 0 then ''-'' @ itoa (nat (- i)) else itoa (nat i))"

text \<open>\<open>fmt.Sprintf("%04d", n)\<close>\<close>

definition pad4 :: "nat \<Rightarrow> string" where
  "pad4 n = (let s = itoa n in replicate (4 - length s) (CHR ''0'') @ s)"

fun atoi :: "string \<Rightarrow> nat" where
  "atoi [] = 0"
| "atoi (c # cs) = (of_char c - 48) * 10 ^ length cs + atoi cs"

lemma atoi_append: "atoi (xs @ ys) = atoi xs * 10 ^ length ys + atoi ys"
  by (induction xs) (auto simp: power_add algebra_simps)

lemma of_char_digit [simp]: "d < 10 \<Longrightarrow> (of_char (digit d) :: nat) = 48 + d"
  by (simp add: digit_def take_bit_eq_mod)

lemma atoi_itoa [simp]: "atoi (itoa n) = n"
proof (induction n rule: itoa.induct)
  case (1 n)
  then show ?case by (subst itoa.simps) (simp add: atoi_append)
qed

lemma itoa_inject [simp]: "itoa m = itoa n \<longleftrightarrow> m = n"
  by (metis atoi_itoa)

lemma itoa_nonempty [simp]: "itoa n \<noteq> []"
  by (subst itoa.simps) simp

definition is_digit :: "char \<Rightarrow> bool" where
  "is_digit c \<longleftrightarrow> (48::nat) \<le> of_char c \<and> (of_char c :: nat) \<le> 57"

lemma is_digit_digit: "d < 10 \<Longrightarrow> is_digit (digit d)"
  by (simp add: is_digit_def)

lemma itoa_digits: "\<forall>c \<in> set (itoa n). is_digit c"
proof (induction n rule: itoa.induct)
  case (1 n)
  then show ?case by (subst itoa.simps) (auto intro: is_digit_digit)
qed

section \<open>Facts about splitting, trimming and joining\<close>

lemma has_prefix_append [simp]: "has_prefix (p @ s) p"
  by (simp add: has_prefix_def)

lemma has_prefix_iff: "has_prefix s p \<longleftrightarrow> (\<exists>t. s = p @ t)"
  by (metis append_eq_conv_conj append_take_drop_id has_prefix_def)

lemma has_suffix_iff: "has_suffix s p \<longleftrightarrow> (\<exists>t. s = t @ p)"
proof
  assume "has_suffix s p"
  then have "s = take (length s - length p) s @ p"
    unfolding has_suffix_def by (metis append_take_drop_id)
  then show "\<exists>t. s = t @ p" ..
qed (auto simp: has_suffix_def)

lemma trim_prefix_append [simp]: "trim_prefix (p @ s) p = s"
  by (simp add: trim_prefix_def)

lemma split_on_nonempty [simp]: "split_on c s \<noteq> []"
  by (induction s) (auto split: list.splits)

lemma join_split_on: "join [c] (split_on c s) = s"
proof (induction s)
  case Nil
  then show ?case by simp
next
  case (Cons x xs)
  obtain y ys where "split_on c xs = y # ys"
    by (meson neq_Nil_conv split_on_nonempty)
  with Cons show ?case by (cases ys) auto
qed

lemma split_on_absent: "c \<notin> set x \<Longrightarrow> split_on c x = [x]"
  by (induction x) auto

lemma split_on_append:
  "c \<notin> set x \<Longrightarrow> split_on c (x @ c # s) = x # split_on c s"
  by (induction x) auto

lemma split_on_join:
  assumes "xs \<noteq> []" and "\<forall>x \<in> set xs. c \<notin> set x"
  shows "split_on c (join [c] xs) = xs"
  using assms
  by (induction "[c]" xs rule: join.induct) (auto simp: split_on_absent split_on_append)

lemma before_split: "before c s = hd (split_on c s)"
  unfolding before_def by (induction s) (auto split: list.splits)

lemma trim_left_stop: "s = [] \<or> hd s \<notin> set cutset \<Longrightarrow> trim_left s cutset = s"
  by (cases s) (auto simp: trim_left_def)

lemma trim_left_skip: "set p \<subseteq> set cutset \<Longrightarrow> trim_left (p @ s) cutset = trim_left s cutset"
  unfolding trim_left_def by (induction p) auto

lemma trim_none:
  assumes "s = [] \<or> hd s \<notin> set cutset \<and> last s \<notin> set cutset"
  shows "trim s cutset = s"
proof -
  have "trim_left (rev s) cutset = rev s"
    using assms by (intro trim_left_stop) (auto simp: hd_rev)
  with assms show ?thesis by (auto simp: trim_def trim_left_stop)
qed

lemma trim_surround:
  assumes "set p \<subseteq> set cutset" and "set q \<subseteq> set cutset"
    and "s = [] \<or> hd s \<notin> set cutset \<and> last s \<notin> set cutset"
  shows "trim (p @ s @ q) cutset = s"
proof (cases "s = []")
  case True
  have "\<forall>c \<in> set (p @ q). c \<in> set cutset" using assms(1,2) by auto
  then have "trim_left (p @ q) cutset = []"
    unfolding trim_left_def by (simp only: dropWhile_eq_Nil_conv)
  then show ?thesis using True by (simp add: trim_def trim_left_stop)
next
  case False
  have "trim_left (p @ s @ q) cutset = s @ q"
    using assms False by (simp add: trim_left_skip trim_left_stop)
  moreover have "trim_left (rev q @ rev s) cutset = rev s"
    using assms False by (simp add: trim_left_skip trim_left_stop hd_rev)
  ultimately show ?thesis by (simp add: trim_def)
qed

lemma sort_strings_perm: "mset xs = mset ys \<Longrightarrow> sort_strings xs = sort_strings ys"
  unfolding sort_strings_def
  by (metis mset_sort properties_for_sort sorted_sort)

lemma mset_sort_strings [simp]: "mset (sort_strings xs) = mset xs"
  by (simp add: sort_strings_def)

lemma set_sort_strings [simp]: "set (sort_strings xs) = set xs"
  by (simp add: sort_strings_def)

lemma sorted_sort_strings [simp]: "sorted (sort_strings xs)"
  by (simp add: sort_strings_def)

end
