(* ===== verification/Field_Values.thy ===== *)
theory Field_Values
  imports Go_Strings
begin

text \<open>
  The values a Logstash event or field set is made of: what decoding JSON or YAML into an
  \<open>interface{}\<close> yields (\<open>internal/logstash/result.go\<close>, type \<open>Event\<close>, and
  \<open>internal/logstash/fieldset.go\<close>, type \<open>FieldSet\<close>). A map is a Go map of the prelude. Nested
  maps are reached through a path of keys.
\<close>

text \<open>
  Of a floating-point number the program observes its renderings under the verbs
  \<^verbatim>\<open>%v\<close> and \<^verbatim>\<open>%f\<close>.
\<close>

datatype gofloat = GoFloat (float_v: string) (float_f: string)

datatype gvalue =
    VNil
  | VBool bool
  | VInt int
  | VFloat gofloat
  | VString string
  | VList "gvalue list"
  | VMap "(string \<times> gvalue) list"
  | VOther string

type_synonym fields = "(string, gvalue) gmap"

fun is_vmap :: "gvalue \<Rightarrow> bool" where
  "is_vmap (VMap _) = True"
| "is_vmap _ = False"

lemma is_vmap_iff: "is_vmap v \<longleftrightarrow> (\<exists>m. v = VMap m)"
  by (cases v) auto

section \<open>Paths\<close>

fun vget :: "gvalue \<Rightarrow> string list \<Rightarrow> gvalue option" where
  "vget v [] = Some v"
| "vget (VMap m) (k # ks) = (case mget m k of None \<Rightarrow> None | Some v \<Rightarrow> vget v ks)"
| "vget _ (k # ks) = None"

abbreviation fget :: "fields \<Rightarrow> string list \<Rightarrow> gvalue option" where
  "fget m ks \<equiv> vget (VMap m) ks"

lemma vget_not_map: "\<not> is_vmap v \<Longrightarrow> ks \<noteq> [] \<Longrightarrow> vget v ks = None"
  by (cases v; cases ks) auto

lemma vget_append: "vget v (ks @ ls) = Option.bind (vget v ks) (\<lambda>w. vget w ls)"
  by (induction v ks rule: vget.induct) (auto split: option.splits)

lemma vget_ConsD:
  "vget v (k # ks) = Some w \<Longrightarrow> \<exists>m u. v = VMap m \<and> mget m k = Some u \<and> vget u ks = Some w"
  by (cases v) (auto split: option.splits)

text \<open>Two paths that do not lie on one branch.\<close>

definition diverge :: "string list \<Rightarrow> string list \<Rightarrow> bool" where
  "diverge ks ls \<longleftrightarrow> \<not> (\<exists>r. ls = ks @ r) \<and> \<not> (\<exists>r. ks = ls @ r)"

lemma diverge_sym: "diverge ks ls \<longleftrightarrow> diverge ls ks"
  by (auto simp: diverge_def)

lemma diverge_Cons [simp]: "diverge (k # ks) (l # ls) \<longleftrightarrow> k \<noteq> l \<or> diverge ks ls"
  by (auto simp: diverge_def)

lemma diverge_Nil [simp]: "\<not> diverge [] ls" "\<not> diverge ks []"
  by (auto simp: diverge_def)

section \<open>Values up to the order of their maps\<close>

text \<open>
  Two values that are the same Go value: their maps may be visited in different orders, at
  every level.
\<close>

inductive same_value :: "gvalue \<Rightarrow> gvalue \<Rightarrow> bool" where
  leaf: "\<not> is_vmap v \<Longrightarrow> (\<forall>vs. v \<noteq> VList vs) \<Longrightarrow> same_value v v"
| list: "list_all2 same_value vs ws \<Longrightarrow> same_value (VList vs) (VList ws)"
| map: "list_all2 (\<lambda>p q. fst p = fst q \<and> same_value (snd p) (snd q)) m m' \<Longrightarrow>
     mset m' = mset m'' \<Longrightarrow> same_value (VMap m) (VMap m'')"

definition same_fields :: "fields \<Rightarrow> fields \<Rightarrow> bool" where
  "same_fields m m' \<longleftrightarrow> same_value (VMap m) (VMap m')"

lemma same_value_refl: "same_value v v"
proof (induction v)
  case (VList vs)
  then show ?case by (intro same_value.list) (simp add: list_all2_same)
next
  case (VMap m)
  then have "list_all2 (\<lambda>p q. fst p = fst q \<and> same_value (snd p) (snd q)) m m"
    by (force simp: list_all2_same snds.simps)
  then show ?case by (rule same_value.map) simp
qed (auto intro: same_value.leaf)

lemma same_fields_perm: "mset m = mset m' \<Longrightarrow> same_fields m m'"
  unfolding same_fields_def
  by (rule same_value.map [of m m]) (auto simp: list_all2_same same_value_refl)

inductive_cases same_value_listE: "same_value (VList vs) w"
inductive_cases same_value_mapE: "same_value (VMap m) w"

lemma same_value_is_vmap: "same_value v w \<Longrightarrow> is_vmap v = is_vmap w"
  by (induction rule: same_value.induct) auto

end
