(* ===== verification/Field_Set.thy ===== *)
theory Field_Set
  imports Field_Values
begin

text \<open>
  \<open>internal/logstash/fieldset.go\<close>: converting a field set into a Logstash hash literal, with
  the validation that \<open>IsValid\<close> performs through it.
\<close>

section \<open>Quoting\<close>

definition hex_digit :: "nat \<Rightarrow> char" where
  "hex_digit d = (if d < 10 then char_of (48 + d) else char_of (87 + d))"

text \<open>
  \<open>fmt.Sprintf("%q", s)\<close>. Bytes from 128 on are kept, as they are in a string of printable
  UTF-8 runes.
\<close>

definition quote_char :: "char \<Rightarrow> string" where
  "quote_char c =
     (let n = (of_char c :: nat)
      in if c = CHR ''\"'' then [CHR 0x5C, CHR ''\"'']
         else if n = 92 then [CHR 0x5C, CHR 0x5C]
         else if n = 7 then CHR 0x5C # ''a''
         else if n = 8 then CHR 0x5C # ''b''
         else if n = 12 then CHR 0x5C # ''f''
         else if n = 10 then CHR 0x5C # ''n''
         else if n = 13 then CHR 0x5C # ''r''
         else if n = 9 then CHR 0x5C # ''t''
         else if n = 11 then CHR 0x5C # ''v''
         else if n < 32 \<or> n = 127 then CHR 0x5C # CHR ''x'' # [hex_digit (n div 16), hex_digit (n mod 16)]
         else [c])"

definition quote :: "string \<Rightarrow> string" where
  "quote s = CHR ''\"'' # concat (map quote_char s) @ [CHR ''\"'']"

section \<open>Serialisation\<close>

text \<open>
  \<open>serializeAsLogstashLiteral\<close>. The result is the list of field references with the list of
  literals; both are returned only without an error. \<open>result[i] = s[0]\<close> panics on an empty
  list of literals.
\<close>

definition unsupported :: "gvalue \<Rightarrow> gerror" where
  "unsupported v = Errorf ''Unsupported type %T: %#v'' []"

definition field_ref :: "string \<Rightarrow> string" where
  "field_ref k = ''['' @ k @ '']''"

function serializeAsLogstashLiteral :: "string \<Rightarrow> gvalue \<Rightarrow> (string list \<times> string list) result"
  and serialize_elements :: "string \<Rightarrow> gvalue list \<Rightarrow> string list result"
  and serialize_entries :: "string \<Rightarrow> (string \<times> gvalue) list \<Rightarrow> (string list \<times> string list) result"
where
  "serializeAsLogstashLiteral k (VBool b) =
     Ok ([field_ref k], [if b then ''true'' else ''false''])"
| "serializeAsLogstashLiteral k (VFloat f) =
     Ok ([field_ref k], [if CHR ''e'' \<notin> set (float_v f) then float_v f else float_f f])"
| "serializeAsLogstashLiteral k (VInt i) = Ok ([field_ref k], [itoa_int i])"
| "serializeAsLogstashLiteral k (VString s) = Ok ([field_ref k], [quote s])"
| "serializeAsLogstashLiteral k (VList vs) =
     rbind (serialize_elements (field_ref k) vs)
       (\<lambda>result. Ok ([field_ref k], [''['' @ join '', '' result @ '']'']))"
| "serializeAsLogstashLiteral k (VMap m) = serialize_entries (field_ref k) m"
| "serializeAsLogstashLiteral k VNil = Err (unsupported VNil)"
| "serializeAsLogstashLiteral k (VOther t) = Err (unsupported (VOther t))"
| "serialize_elements k [] = Ok []"
| "serialize_elements k (v # vs) =
     (if is_vmap v then Err (Errorf ''Unsupported type %T in %T: %#v'' [])
      else rbind (serializeAsLogstashLiteral k v) (\<lambda>(ks, s).
        case s of
          [] \<Rightarrow> Panic
        | lit # _ \<Rightarrow> rbind (serialize_elements k vs) (\<lambda>rest. Ok (lit # rest))))"
| "serialize_entries k [] = Ok ([], [])"
| "serialize_entries k ((ik, iv) # m) =
     rbind (serializeAsLogstashLiteral ik iv) (\<lambda>(ks, s).
       rbind (serialize_entries k m) (\<lambda>(keys, result).
         Ok (map (\<lambda>x. k @ x) ks @ keys, s @ result)))"
  by pat_completeness auto
termination
  by (relation "measure (\<lambda>x. case x of
        Inl (k, v) \<Rightarrow> 2 * size v
      | Inr (Inl (k, vs)) \<Rightarrow> 2 * size_list size vs + 1
      | Inr (Inr (k, m)) \<Rightarrow> 2 * size_list (size_prod (\<lambda>x. 0) size) m + 1)") auto


section \<open>The hash and its validation\<close>

definition hash_entry :: "string \<times> string \<Rightarrow> string" where
  "hash_entry = (\<lambda>(k, lit).
     quote (if last_index_0 (CHR ''['') k then trim k ''[]'' else k) @ '' => '' @ lit)"

fun hash_lines :: "fields \<Rightarrow> string list result" where
  "hash_lines [] = Ok []"
| "hash_lines ((k, v) # fs) =
     (case serializeAsLogstashLiteral k v of
        Panic \<Rightarrow> Panic
      | Err e \<Rightarrow> Err (Wrap (''Problem converting field '' @ quote k @ '' to Logstash format'') e)
      | Ok (ks, s) \<Rightarrow>
          if length ks \<noteq> length s
          then Err (Errorf ''Problem converting field %q to Logstash format: %s'' [k])
          else rbind (hash_lines fs) (\<lambda>rest. Ok (map hash_entry (zip ks s) @ rest)))"

definition LogstashHash :: "fields \<Rightarrow> string result" where
  "LogstashHash fs =
     rbind (hash_lines fs) (\<lambda>result.
       Ok (''{ '' @ join '' '' (sort_strings result) @ '' }''))"

text \<open>A nil field set is \<open>None\<close>.\<close>

definition IsValid :: "fields option \<Rightarrow> unit result" where
  "IsValid fs = (case fs of
     None \<Rightarrow> Err (Errorf ''Fields must not be \"null\".'' [])
   | Some m \<Rightarrow> rbind (LogstashHash m) (\<lambda>_. Ok ()))"

section \<open>What is serialisable\<close>

fun serialisable :: "gvalue \<Rightarrow> bool" where
  "serialisable VNil = False"
| "serialisable (VOther _) = False"
| "serialisable (VList vs) = (\<forall>v \<in> set vs. \<not> is_vmap v \<and> serialisable v)"
| "serialisable (VMap m) = (\<forall>p \<in> set m. serialisable (snd p))"
| "serialisable _ = True"

lemma serialize_shape:
  "serializeAsLogstashLiteral k v = Ok (ks, s) \<Longrightarrow>
     length ks = length s \<and> (\<not> is_vmap v \<longrightarrow> ks = [field_ref k] \<and> length s = 1)"
  "serialize_elements k vs = Ok ls \<Longrightarrow> length ls = length vs"
  "serialize_entries k m = Ok (ks', s') \<Longrightarrow> length ks' = length s'"
proof (induction k v and k vs and k m arbitrary: ks s and ls and ks' s'
    rule: serializeAsLogstashLiteral_serialize_elements_serialize_entries.induct)
  case (10 k v vs)
  from "10.prems" obtain ks s where s: "serializeAsLogstashLiteral k v = Ok (ks, s)"
    by (auto split: if_splits)
  with "10" show ?case by (cases s) (auto split: if_splits)
qed (auto split: prod.splits)

lemma serialize_cases:
  obtains ks s where "serializeAsLogstashLiteral k v = Ok (ks, s)" "length ks = length s"
      "\<not> is_vmap v \<longrightarrow> (\<exists>lit. s = [lit])"
  | e where "serializeAsLogstashLiteral k v = Err e"
  | "serializeAsLogstashLiteral k v = Panic"
proof (cases "serializeAsLogstashLiteral k v")
  case (Ok r)
  then obtain ks s where "serializeAsLogstashLiteral k v = Ok (ks, s)" by (cases r) auto
  with serialize_shape(1) [OF this] that(1) show ?thesis by (simp add: length_Suc_conv)
qed (use that in auto)

lemma serialize_ok:
  "is_ok (serializeAsLogstashLiteral k v) = serialisable v"
  "is_ok (serialize_elements k vs) = (\<forall>v \<in> set vs. \<not> is_vmap v \<and> serialisable v)"
  "is_ok (serialize_entries k m) = (\<forall>p \<in> set m. serialisable (snd p))"
proof (induction k v and k vs and k m
    rule: serializeAsLogstashLiteral_serialize_elements_serialize_entries.induct)
  case (10 k v vs)
  show ?case
  proof (cases rule: serialize_cases [of k v])
    case (1 ks s)
    with "10" show ?thesis by (auto simp: is_ok_iff)
  qed (use "10.IH"(1) in \<open>auto simp: is_ok_iff\<close>)
next
  case (12 k ik iv m)
  show ?case
  proof (cases rule: serialize_cases [of ik iv])
    case (1 ks s)
    with "12" show ?thesis by (auto simp: is_ok_iff)
  qed (use "12.IH"(1) in \<open>auto simp: is_ok_iff\<close>)
qed (auto simp: is_ok_iff)

lemma serialize_no_panic:
  "serializeAsLogstashLiteral k v \<noteq> Panic"
  "serialize_elements k vs \<noteq> Panic"
  "serialize_entries k m \<noteq> Panic"
proof (induction k v and k vs and k m
    rule: serializeAsLogstashLiteral_serialize_elements_serialize_entries.induct)
  case (10 k v vs)
  then show ?case
    by (cases rule: serialize_cases [of k v]) (auto simp: rbind_Panic_conv)
next
  case (12 k ik iv m)
  then show ?case
    by (cases rule: serialize_cases [of ik iv]) (auto simp: rbind_Panic_conv)
qed (auto simp: rbind_Panic_conv)

lemma hash_lines_ok: "is_ok (hash_lines fs) = (\<forall>p \<in> set fs. serialisable (snd p))"
proof (induction fs)
  case Nil
  then show ?case by simp
next
  case (Cons p fs)
  obtain k v where p: "p = (k, v)" by (cases p)
  have "is_ok (hash_lines (p # fs)) = (serialisable v \<and> is_ok (hash_lines fs))"
    using serialize_ok(1) [of k v] p
    by (cases rule: serialize_cases [of k v]) (auto simp: is_ok_iff)
  with Cons p show ?case by simp
qed

lemma hash_lines_no_panic: "hash_lines fs \<noteq> Panic"
proof (induction fs)
  case (Cons p fs)
  obtain k v where p: "p = (k, v)" by (cases p)
  from Cons p serialize_no_panic(1) [of k v] show ?case
    by (cases rule: serialize_cases [of k v]) (auto simp: rbind_Panic_conv)
qed simp

lemma hash_lines_not_fatal: "hash_lines fs \<noteq> Err (Fatal m)"
proof (induction fs)
  case (Cons p fs)
  obtain k v where p: "p = (k, v)" by (cases p)
  from Cons p show ?case
    by (cases rule: serialize_cases [of k v]) (auto simp: rbind_Err_conv)
qed simp

lemma LogstashHash_not_fatal: "LogstashHash fs \<noteq> Err (Fatal m)"
  by (auto simp: LogstashHash_def rbind_Err_conv hash_lines_not_fatal)

section \<open>Independence of the visiting order\<close>

text \<open>The pairs of reference and literal that one entry contributes.\<close>

definition pairs :: "string \<Rightarrow> gvalue \<Rightarrow> (string \<times> string) list" where
  "pairs k v = (case serializeAsLogstashLiteral k v of Ok (ks, s) \<Rightarrow> zip ks s | _ \<Rightarrow> [])"

definition entry_pairs :: "string \<times> gvalue \<Rightarrow> (string \<times> string) list" where
  "entry_pairs p = pairs (fst p) (snd p)"

lemma zip_map1: "zip (map f xs) ys = map (\<lambda>(x, y). (f x, y)) (zip xs ys)"
  by (simp add: zip_map1)

lemma serialize_entries_pairs:
  "serialize_entries k m = Ok (ks, s) \<Longrightarrow>
     zip ks s = map (\<lambda>(x, y). (k @ x, y)) (concat (map entry_pairs m))"
proof (induction m arbitrary: ks s)
  case (Cons p m)
  obtain ik iv where p: "p = (ik, iv)" by (cases p)
  from Cons.prems p obtain ks1 s1 ks2 s2 where
    1: "serializeAsLogstashLiteral ik iv = Ok (ks1, s1)" and
    2: "serialize_entries k m = Ok (ks2, s2)" and
    "ks = map (\<lambda>x. k @ x) ks1 @ ks2" "s = s1 @ s2"
    by (auto split: prod.splits)
  moreover have "length ks1 = length s1" using 1 serialize_shape(1) by blast
  ultimately show ?case using Cons.IH [OF 2] p
    by (simp add: pairs_def entry_pairs_def zip_map1)
qed simp

lemma hash_lines_pairs:
  "hash_lines fs = Ok ls \<Longrightarrow> ls = map hash_entry (concat (map entry_pairs fs))"
proof (induction fs arbitrary: ls)
  case (Cons p fs)
  obtain k v where p: "p = (k, v)" by (cases p)
  show ?case
  proof (cases rule: serialize_cases [of k v])
    case (1 ks s)
    with Cons.prems p obtain rest where rest: "hash_lines fs = Ok rest"
      and ls: "ls = map hash_entry (zip ks s) @ rest" by auto
    with Cons.IH [OF rest] 1 p show ?thesis by (simp add: pairs_def entry_pairs_def)
  qed (use Cons.prems p in auto)
qed simp

lemma mset_concat_map_perm:
  "mset xs = mset ys \<Longrightarrow> mset (concat (map f xs)) = mset (concat (map f ys))"
  by (metis mset_concat mset_map sum_mset_sum_list)

lemma mset_concat_map_rel:
  "list_all2 (\<lambda>x y. mset (f x) = mset (g y)) xs ys \<Longrightarrow>
     mset (concat (map f xs)) = mset (concat (map g ys))"
  by (induction rule: list_all2_induct) auto

lemma list_all2_Ball:
  "list_all2 (\<lambda>x y. P x = Q y) xs ys \<Longrightarrow> (\<forall>x \<in> set xs. P x) = (\<forall>y \<in> set ys. Q y)"
  by (induction rule: list_all2_induct) auto

lemma serialisable_same: "same_value v w \<Longrightarrow> serialisable v = serialisable w"
proof (induction rule: same_value.induct)
  case (list vs ws)
  then have "list_all2 (\<lambda>v w. (\<not> is_vmap v \<and> serialisable v) = (\<not> is_vmap w \<and> serialisable w)) vs ws"
    by (rule list.rel_mono_strong) (use same_value_is_vmap in blast)
  then show ?case by (simp only: serialisable.simps list_all2_Ball)
next
  case (map m m' m'')
  have "set m' = set m''" using map.hyps by (metis set_mset_mset)
  moreover have "list_all2 (\<lambda>p q. serialisable (snd p) = serialisable (snd q)) m m'"
    using map.IH by (rule list_all2_mono) simp
  ultimately show ?case by (simp add: list_all2_Ball)
qed simp


text \<open>
  The literals of a value that is not a map do not depend on the order of the maps inside it,
  and those of a map only by their order.
\<close>

lemma pairs_same:
  "same_value v w \<Longrightarrow> serialisable v \<Longrightarrow>
     mset (pairs k v) = mset (pairs k w) \<and>
     (\<not> is_vmap v \<longrightarrow> serializeAsLogstashLiteral k v = serializeAsLogstashLiteral k w)"
proof (induction arbitrary: k rule: same_value.induct)
  case (leaf v)
  then show ?case by simp
next
  case (list vs ws)
  have "serialize_elements c vs = serialize_elements c ws" for c
    using list.IH list.prems
    by (induction rule: list_all2_induct) (auto dest: same_value_is_vmap)
  then show ?case by (simp add: pairs_def)
next
  case (map m m' m'')
  have ok: "\<forall>p \<in> set m. serialisable (snd p)" using map.prems by simp
  have "same_value (VMap m) (VMap m'')"
    using map.IH map.hyps by (intro same_value.map [of m m']) (auto elim: list_all2_mono)
  then have ok'': "\<forall>p \<in> set m''. serialisable (snd p)"
    using serialisable_same map.prems by fastforce
  have rel: "list_all2 (\<lambda>p q. mset (entry_pairs p) = mset (entry_pairs q)) m m'"
    using map.IH by (rule list.rel_mono_strong) (use ok in \<open>auto simp: entry_pairs_def\<close>)
  have "mset (concat (map entry_pairs m)) = mset (concat (map entry_pairs m''))"
    using mset_concat_map_rel [OF rel] mset_concat_map_perm [OF map.hyps] by simp
  then have eq: "mset (map f (concat (map entry_pairs m)))
      = mset (map f (concat (map entry_pairs m'')))" for f :: "string \<times> string \<Rightarrow> string \<times> string"
    by (simp only: mset_map)
  obtain ks s where 1: "serialize_entries (field_ref k) m = Ok (ks, s)"
    using ok serialize_ok(3) [of "field_ref k" m] by (auto simp: is_ok_iff)
  obtain ks'' s'' where 2: "serialize_entries (field_ref k) m'' = Ok (ks'', s'')"
    using ok'' serialize_ok(3) [of "field_ref k" m''] by (auto simp: is_ok_iff)
  show ?case
    using eq serialize_entries_pairs [OF 1] serialize_entries_pairs [OF 2] 1 2
    by (simp add: pairs_def)
qed

lemma LogstashHash_same:
  assumes same: "same_fields m m'" and ok: "LogstashHash m = Ok h"
  shows "LogstashHash m' = Ok h"
proof -
  from same obtain n where rel: "list_all2 (\<lambda>p q. fst p = fst q \<and> same_value (snd p) (snd q)) m n"
    and perm: "mset n = mset m'"
    by (auto simp: same_fields_def elim: same_value_mapE)
  from ok obtain ls where ls: "hash_lines m = Ok ls"
    and h: "h = ''{ '' @ join '' '' (sort_strings ls) @ '' }''"
    by (auto simp: LogstashHash_def)
  have ser: "\<forall>p \<in> set m. serialisable (snd p)"
    using hash_lines_ok [of m] ls by (simp add: is_ok_iff)
  with same have "\<forall>p \<in> set m'. serialisable (snd p)"
    using serialisable_same by (fastforce simp: same_fields_def)
  then obtain ls' where ls': "hash_lines m' = Ok ls'"
    using hash_lines_ok [of m'] by (auto simp: is_ok_iff)
  have "list_all2 (\<lambda>p q. mset (entry_pairs p) = mset (entry_pairs q)) m n"
    using rel
    by (rule list.rel_mono_strong) (use ser pairs_same in \<open>auto simp: entry_pairs_def\<close>)
  then have "mset (concat (map entry_pairs m)) = mset (concat (map entry_pairs m'))"
    using mset_concat_map_rel mset_concat_map_perm [OF perm] by metis
  then have "mset ls = mset ls'"
    using hash_lines_pairs [OF ls] hash_lines_pairs [OF ls'] by (simp only: mset_map)
  then have "sort_strings ls = sort_strings ls'" by (rule sort_strings_perm)
  with ls' h show ?thesis by (simp add: LogstashHash_def)
qed


section \<open>Properties\<close>

text \<open>
  C23: the hash of a field set does not depend on the order in which Go visits the set or any
  map inside it: two visiting orders of one set give the same text, or both give an error.
\<close>

theorem LogstashHash_order:
  assumes "same_fields m m'"
  shows "(\<forall>h. LogstashHash m = Ok h \<longrightarrow> LogstashHash m' = Ok h) \<and>
    is_ok (LogstashHash m) = is_ok (LogstashHash m') \<and> LogstashHash m \<noteq> Panic"
proof (intro conjI allI impI)
  fix h
  assume "LogstashHash m = Ok h"
  with assms show "LogstashHash m' = Ok h" by (rule LogstashHash_same)
next
  have "serialisable (VMap m) = serialisable (VMap m')"
    using assms serialisable_same unfolding same_fields_def by blast
  then have "is_ok (hash_lines m) = is_ok (hash_lines m')" by (simp add: hash_lines_ok)
  then show "is_ok (LogstashHash m) = is_ok (LogstashHash m')" by (auto simp: LogstashHash_def is_ok_iff)
next
  show "LogstashHash m \<noteq> Panic" by (simp add: LogstashHash_def rbind_Panic_conv hash_lines_no_panic)
qed

theorem LogstashHash_order_witness:
  "LogstashHash [(''b'', VInt 2), (''a'', VBool True)] = LogstashHash [(''a'', VBool True), (''b'', VInt 2)]"
proof -
  have same: "same_fields [(''b'', VInt 2), (''a'', VBool True)] [(''a'', VBool True), (''b'', VInt 2)]"
    by (rule same_fields_perm) simp
  have "is_ok (LogstashHash [(''b'', VInt 2), (''a'', VBool True)])"
    by (simp add: LogstashHash_def is_ok_iff)
  with LogstashHash_order [OF same] show ?thesis by (auto simp: is_ok_iff)
qed

text \<open>
  A field set is valid exactly if it is not nil and contains no null or foreign value and
  no map inside an array, at any depth; on any other set \<open>IsValid\<close> returns an error. It never
  panics: the literal list of an array element is never empty where the code indexes it.
\<close>

theorem IsValid_iff:
  "(IsValid fs = Ok () \<longleftrightarrow> (\<exists>m. fs = Some m \<and> (\<forall>p \<in> set m. serialisable (snd p)))) \<and>
   IsValid fs \<noteq> Panic"
proof (cases fs)
  case None
  then show ?thesis by (simp add: IsValid_def)
next
  case (Some m)
  have "IsValid fs = Ok () \<longleftrightarrow> is_ok (hash_lines m)"
    using Some by (auto simp: IsValid_def LogstashHash_def is_ok_iff)
  moreover have "IsValid fs \<noteq> Panic"
    using Some by (simp add: IsValid_def LogstashHash_def rbind_Panic_conv hash_lines_no_panic)
  ultimately show ?thesis using Some by (simp add: hash_lines_ok)
qed

theorem IsValid_iff_witness:
  "IsValid (Some [(''type'', VString ''apache''), (''tags'', VList [VString ''x'', VInt 1])]) = Ok () \<and>
   IsValid (Some [(''bad'', VList [VMap []])]) \<noteq> Ok () \<and> IsValid None \<noteq> Ok ()"
  using IsValid_iff [of "Some [(''type'', VString ''apache''), (''tags'', VList [VString ''x'', VInt 1])]"]
    IsValid_iff [of "Some [(''bad'', VList [VMap []])]"] IsValid_iff [of None]
  by simp

end
