(* ===== verification/Bracket_Fields.thy ===== *)
theory Bracket_Fields
  imports Field_Values
begin

text \<open>
  \<open>internal/testcase/helper.go\<close>: keys in bracket notation (\<^verbatim>\<open>[log][file][path]\<close>), expanding them
  into nested maps, and removing an ignored field from an event. The maps that the code
  mutates in place are returned updated; a failing type assertion and an index out of range
  are \<open>Panic\<close>.
\<close>

section \<open>Splitting a key\<close>

definition field_char :: "char \<Rightarrow> bool" where
  "field_char c \<longleftrightarrow> c \<noteq> CHR ''['' \<and> c \<noteq> CHR '']'' \<and> c \<noteq> CHR '',''"

text \<open>
  One bracketed name at the start of a string, as the expression \<^verbatim>\<open>\[([^\[\],]+)\]\<close> matches it:
  the name and what follows.
\<close>

definition bracketed :: "string \<Rightarrow> (string \<times> string) option" where
  "bracketed s =
     (case s of
        [] \<Rightarrow> None
      | c # t \<Rightarrow>
          (let name = takeWhile field_char t; rest = dropWhile field_char t
           in if c = CHR ''['' \<and> name \<noteq> [] \<and> rest \<noteq> [] \<and> hd rest = CHR '']''
              then Some (name, tl rest) else None))"

lemma bracketed_shorter: "bracketed s = Some (n, r) \<Longrightarrow> length r < length s"
proof -
  assume "bracketed s = Some (n, r)"
  then obtain c t where "s = c # t" and r: "r = tl (dropWhile field_char t)"
    by (auto simp: bracketed_def Let_def split: list.splits if_splits)
  moreover have "length (tl (dropWhile field_char t)) \<le> length t"
    using length_dropWhile_le [of field_char t] by simp
  ultimately show ?thesis by simp
qed

text \<open>\<open>rValidator\<close>: the whole key is a non-empty sequence of bracketed names.\<close>

function matches_rest :: "string \<Rightarrow> bool" where
  "matches_rest s =
     (s = [] \<or> (case bracketed s of None \<Rightarrow> False | Some (n, r) \<Rightarrow> matches_rest r))"
  by pat_completeness auto
termination
  by (relation "measure length") (auto dest: bracketed_shorter)

definition rValidator :: "string \<Rightarrow> bool" where
  "rValidator key \<longleftrightarrow> key \<noteq> [] \<and> matches_rest key"

text \<open>\<open>rExtractField.FindAllStringSubmatch\<close>: the names of all matches, from left to right.\<close>

function rExtractField :: "string \<Rightarrow> string list" where
  "rExtractField s =
     (case bracketed s of
        Some (n, r) \<Rightarrow> n # rExtractField r
      | None \<Rightarrow> (case s of [] \<Rightarrow> [] | c # t \<Rightarrow> rExtractField t))"
  by pat_completeness auto
termination
  by (relation "measure length") (auto dest: bracketed_shorter)

declare matches_rest.simps [simp del] rExtractField.simps [simp del]

definition extractBracketFields :: "string \<Rightarrow> string list" where
  "extractBracketFields key = (if rValidator key then rExtractField key else [key])"

section \<open>Expanding and removing\<close>

fun parseBracketProperty :: "string list \<Rightarrow> gvalue \<Rightarrow> fields \<Rightarrow> fields result" where
  "parseBracketProperty [] value result = Panic"
| "parseBracketProperty [k] value result = Ok (mput k value result)"
| "parseBracketProperty (k # k2 # ks) value result =
     (let result1 = (if mget result k = None then mput k (VMap []) result else result)
      in case mget result1 k of
           Some (VMap m) \<Rightarrow>
             rbind (parseBracketProperty (k2 # ks) value m) (\<lambda>m'. Ok (mput k (VMap m') result1))
         | _ \<Rightarrow> Panic)"

text \<open>
  The loop of \<open>parseAllBracketProperties\<close> over the entries of \<open>data\<close> in visiting order, with
  the map built so far.
\<close>

function parse_entries :: "fields \<Rightarrow> fields \<Rightarrow> fields result" where
  "parse_entries [] result = Ok result"
| "parse_entries ((k, v) # data) result =
     (let listKeys = extractBracketFields k
      in rbind (case v of VMap m \<Rightarrow> rbind (parse_entries m []) (\<lambda>m'. Ok (VMap m')) | _ \<Rightarrow> Ok v)
           (\<lambda>v'. rbind (parseBracketProperty listKeys v' result) (parse_entries data)))"
  by pat_completeness auto
termination
  by (relation "measure (\<lambda>(data, _). size_list (size_prod (\<lambda>x. 0) size) data)") auto

definition parseAllBracketProperties :: "fields \<Rightarrow> fields result" where
  "parseAllBracketProperties data = parse_entries data []"

fun removeField :: "string list \<Rightarrow> fields \<Rightarrow> fields result" where
  "removeField [] data = Panic"
| "removeField [k] data = Ok (mdel k data)"
| "removeField (k # k2 # ks) data =
     (case mget data k of
        None \<Rightarrow> Ok data
      | Some (VMap m) \<Rightarrow>
          rbind (removeField (k2 # ks) m) (\<lambda>m'.
            if length m' > 0 then Ok (mput k (VMap m') data) else Ok (mdel k data))
      | Some _ \<Rightarrow> Ok data)"

definition removeFields :: "string \<Rightarrow> fields \<Rightarrow> fields result" where
  "removeFields key data = removeField (extractBracketFields key) data"

text \<open>
  \<open>parseAllBracketPropertiesInJSON\<close>, with the JSON decoder and encoder of the standard
  library as parameters.
\<close>

definition parseAllBracketPropertiesInJSON ::
    "(string \<Rightarrow> fields result) \<Rightarrow> (fields \<Rightarrow> string result) \<Rightarrow> string \<Rightarrow> string result" where
  "parseAllBracketPropertiesInJSON unmarshal marshal jsonString =
     rbind (unmarshal jsonString) (\<lambda>jsonObj.
       rbind (parseAllBracketProperties jsonObj) marshal)"

section \<open>The keys\<close>

definition field_name :: "string \<Rightarrow> bool" where
  "field_name k \<longleftrightarrow> k \<noteq> [] \<and> (\<forall>c \<in> set k. field_char c)"

definition bracket_key :: "string list \<Rightarrow> string" where
  "bracket_key ks = concat (map (\<lambda>k. ''['' @ k @ '']'') ks)"

lemma bracketed_name:
  "field_name k \<Longrightarrow> bracketed (CHR ''['' # k @ CHR '']'' # s) = Some (k, s)"
proof -
  assume k: "field_name k"
  have no: "\<not> field_char (CHR '']'')" by (simp add: field_char_def)
  have "takeWhile field_char (k @ CHR '']'' # s) = k"
    using k no by (subst takeWhile_append2) (auto simp: field_name_def)
  moreover have "dropWhile field_char (k @ CHR '']'' # s) = CHR '']'' # s"
    using k no by (subst dropWhile_append2) (auto simp: field_name_def)
  ultimately show ?thesis using k no by (simp add: bracketed_def field_name_def)
qed

lemma bracketed_Some:
  assumes "bracketed s = Some (n, r)"
  shows "field_name n \<and> s = CHR ''['' # n @ CHR '']'' # r"
proof -
  obtain c t where ct: "s = c # t" using assms by (cases s) (auto simp: bracketed_def)
  define name where "name = takeWhile field_char t"
  define rest where "rest = dropWhile field_char t"
  have b: "bracketed s = (if c = CHR ''['' \<and> name \<noteq> [] \<and> rest \<noteq> [] \<and> hd rest = CHR '']''
      then Some (name, tl rest) else None)"
    by (simp only: ct bracketed_def list.case Let_def name_def rest_def)
  with assms have h: "c = CHR ''['' \<and> name \<noteq> [] \<and> rest \<noteq> [] \<and> hd rest = CHR '']''"
    by (metis option.distinct(1))
  with b assms have eq: "n = name" "r = tl rest" by simp_all
  have "t = name @ rest" by (simp add: name_def rest_def)
  moreover have "rest = CHR '']'' # r" using h eq(2) by (cases rest) simp_all
  moreover have "\<forall>c \<in> set name. field_char c" by (auto simp: name_def dest: set_takeWhileD)
  ultimately show ?thesis using h eq(1) ct by (simp add: field_name_def)
qed

lemma matches_rest_iff:
  "matches_rest s \<longleftrightarrow> (\<exists>ks. (\<forall>k \<in> set ks. field_name k) \<and> s = bracket_key ks)"
proof (induction s rule: matches_rest.induct)
  case (1 s)
  show ?case
  proof
    assume "matches_rest s"
    then consider "s = []" | n r where "bracketed s = Some (n, r)" "matches_rest r"
      by (subst (asm) matches_rest.simps) (auto split: option.splits)
    then show "\<exists>ks. (\<forall>k \<in> set ks. field_name k) \<and> s = bracket_key ks"
    proof cases
      case 1
      then show ?thesis by (intro exI [of _ "[]"]) (simp add: bracket_key_def)
    next
      case (2 n r)
      with "1.IH" obtain ks where "\<forall>k \<in> set ks. field_name k" "r = bracket_key ks" by blast
      with 2 bracketed_Some show ?thesis
        by (intro exI [of _ "n # ks"]) (auto simp: bracket_key_def)
    qed
  next
    assume "\<exists>ks. (\<forall>k \<in> set ks. field_name k) \<and> s = bracket_key ks"
    then obtain ks where ks: "\<forall>k \<in> set ks. field_name k" "s = bracket_key ks" by blast
    show "matches_rest s"
    proof (cases ks)
      case Nil
      then show ?thesis using ks by (subst matches_rest.simps) (simp add: bracket_key_def)
    next
      case (Cons k ks')
      then have "bracketed s = Some (k, bracket_key ks')"
        using ks bracketed_name by (simp add: bracket_key_def)
      moreover have "matches_rest (bracket_key ks')"
        using "1.IH" calculation ks Cons by auto
      ultimately show ?thesis by (subst matches_rest.simps) simp
    qed
  qed
qed

lemma rExtractField_bracket_key:
  "\<forall>k \<in> set ks. field_name k \<Longrightarrow> rExtractField (bracket_key ks) = ks"
proof (induction ks)
  case Nil
  then show ?case by (subst rExtractField.simps) (simp add: bracket_key_def bracketed_def)
next
  case (Cons k ks)
  then have "bracketed (bracket_key (k # ks)) = Some (k, bracket_key ks)"
    using bracketed_name by (simp add: bracket_key_def)
  with Cons show ?case by (subst rExtractField.simps) simp
qed

lemma bracket_key_Nil_iff: "bracket_key ks = [] \<longleftrightarrow> ks = []"
  by (cases ks) (auto simp: bracket_key_def)

lemma extract_cases:
  obtains (brackets) ks where "key = bracket_key ks" "ks \<noteq> []" "\<forall>k \<in> set ks. field_name k"
      "extractBracketFields key = ks"
  | (plain) "\<not> rValidator key" "extractBracketFields key = [key]"
proof (cases "rValidator key")
  case True
  then obtain ks where "\<forall>k \<in> set ks. field_name k" "key = bracket_key ks" "key \<noteq> []"
    by (auto simp: rValidator_def matches_rest_iff)
  then show ?thesis
    using True rExtractField_bracket_key bracket_key_Nil_iff brackets
    by (simp add: extractBracketFields_def)
qed (simp add: extractBracketFields_def plain)

lemma extract_nonempty [simp]: "extractBracketFields key \<noteq> []" "[] \<noteq> extractBracketFields key"
  by (cases rule: extract_cases [of key]; auto)+


section \<open>Expanding one key\<close>

lemma fget_mput:
  "fget (mput k v m) (l # ls) = (if l = k then vget v ls else fget m (l # ls))"
  by (simp add: map_simps)

lemma parseBracketProperty_get:
  "parseBracketProperty ks v r = Ok r' \<Longrightarrow> fget r' ks = Some v"
proof (induction ks v r arbitrary: r' rule: parseBracketProperty.induct)
  case (3 k k2 ks val result)
  then show ?case
    by (auto simp: Let_def map_simps split: option.splits gvalue.splits if_splits)
qed (auto simp: map_simps)

lemma parseBracketProperty_frame:
  "parseBracketProperty ks v r = Ok r' \<Longrightarrow> diverge ks ls \<Longrightarrow> fget r' ls = fget r ls"
proof (induction ks v r arbitrary: r' ls rule: parseBracketProperty.induct)
  case (2 k v r)
  then show ?case by (cases ls) (auto simp: map_simps diverge_def)
next
  case (3 k k2 ks val result)
  define result1 where "result1 = (if mget result k = None then mput k (VMap []) result else result)"
  from "3.prems"(1) obtain m m' where m: "mget result1 k = Some (VMap m)"
    and rec: "parseBracketProperty (k2 # ks) val m = Ok m'" and r': "r' = mput k (VMap m') result1"
    by (auto simp: result1_def [symmetric] Let_def split: option.splits gvalue.splits)
  obtain l ls' where ls: "ls = l # ls'" using "3.prems"(2) by (cases ls) auto
  show ?case
  proof (cases "l = k")
    case False
    then show ?thesis using ls r' by (auto simp: map_simps result1_def)
  next
    case True
    with "3.prems"(2) ls have div: "diverge (k2 # ks) ls'" by simp
    then have "ls' \<noteq> []" by auto
    have "fget m' ls' = fget m ls'"
      by (rule "3.IH" [OF result1_def m refl rec div])
    moreover have "fget result (k # ls') = fget m ls'"
      using m \<open>ls' \<noteq> []\<close> by (cases ls') (auto simp: result1_def map_simps split: if_splits)
    ultimately show ?thesis using True ls r' by (simp add: map_simps)
  qed
qed simp

text \<open>The expansion panics exactly where a proper prefix of the path holds a value that is not a map.\<close>

definition blocked :: "string list \<Rightarrow> fields \<Rightarrow> bool" where
  "blocked ks r \<longleftrightarrow> (\<exists>p q w. ks = p @ q \<and> p \<noteq> [] \<and> q \<noteq> [] \<and> fget r p = Some w \<and> \<not> is_vmap w)"

lemma blocked_Cons:
  assumes "ks \<noteq> []"
  shows "blocked (k # ks) r \<longleftrightarrow>
    (case mget r k of None \<Rightarrow> False | Some (VMap m) \<Rightarrow> blocked ks m | Some _ \<Rightarrow> True)"
proof (cases "mget r k")
  case None
  then show ?thesis by (auto simp: blocked_def Cons_eq_append_conv)
next
  case (Some w)
  show ?thesis
  proof (cases "is_vmap w")
    case False
    with Some assms have "blocked (k # ks) r"
      unfolding blocked_def by (intro exI [of _ "[k]"] exI [of _ ks]) auto
    with Some False show ?thesis by (cases w) auto
  next
    case True
    then obtain m where w: "w = VMap m" by (auto simp: is_vmap_iff)
    show ?thesis
    proof
      assume "blocked (k # ks) r"
      then obtain p q v where "k # ks = p @ q" "p \<noteq> []" "q \<noteq> []" "fget r p = Some v" "\<not> is_vmap v"
        unfolding blocked_def by blast
      with Some w obtain p' where "ks = p' @ q" "fget m p' = Some v"
        by (cases p) (auto split: if_splits)
      moreover have "p' \<noteq> []" using calculation \<open>\<not> is_vmap v\<close> by auto
      ultimately show "case mget r k of None \<Rightarrow> False
          | Some (VMap m) \<Rightarrow> blocked ks m | Some _ \<Rightarrow> True"
        using \<open>q \<noteq> []\<close> \<open>\<not> is_vmap v\<close> Some w
        by (auto simp: blocked_def)
    next
      assume "case mget r k of None \<Rightarrow> False | Some (VMap m) \<Rightarrow> blocked ks m | Some _ \<Rightarrow> True"
      with Some w obtain p q v where "ks = p @ q" "p \<noteq> []" "q \<noteq> []" "fget m p = Some v" "\<not> is_vmap v"
        unfolding blocked_def by auto
      with Some w show "blocked (k # ks) r"
        unfolding blocked_def by (intro exI [of _ "k # p"] exI [of _ q] exI [of _ v]) auto
    qed
  qed
qed

lemma parseBracketProperty_panic:
  "ks \<noteq> [] \<Longrightarrow> parseBracketProperty ks v r = Panic \<longleftrightarrow> blocked ks r"
proof (induction ks v r rule: parseBracketProperty.induct)
  case (2 k v r)
  then show ?case by (auto simp: blocked_def Cons_eq_append_conv)
next
  case (3 k k2 ks v r)
  have empty: "\<not> blocked ls []" for ls
    by (auto simp: blocked_def neq_Nil_conv)
  show ?case
  proof (cases "mget r k")
    case None
    have "parseBracketProperty (k2 # ks) v [] \<noteq> Panic"
      using "3.IH" [OF refl, of "VMap []" "[]"] None empty by (simp add: map_simps)
    with None show ?thesis by (simp add: blocked_Cons map_simps rbind_Panic_conv)
  next
    case (Some w)
    then show ?thesis
      using "3.IH" [OF refl, of w] by (cases w) (auto simp: blocked_Cons rbind_Panic_conv)
  qed
qed simp

lemma parseBracketProperty_no_error: "parseBracketProperty ks v r \<noteq> Err e"
  by (induction ks v r rule: parseBracketProperty.induct)
     (auto simp: Let_def rbind_Err_conv split: option.splits gvalue.splits)


section \<open>Removing a field\<close>

lemma removeField_ok: "ks \<noteq> [] \<Longrightarrow> \<exists>data'. removeField ks data = Ok data'"
proof (induction ks data rule: removeField.induct)
  case (3 k k2 ks data)
  show ?case
  proof (cases "mget data k")
    case (Some v)
    show ?thesis
    proof (cases v)
      case (VMap m)
      with Some "3.IH" obtain m' where "removeField (k2 # ks) m = Ok m'" by blast
      with Some VMap show ?thesis by (cases "m' = []") auto
    qed (use Some in auto)
  qed simp
qed auto

lemma removeField_gone: "removeField ks data = Ok data' \<Longrightarrow> fget data' ks = None"
  by (induction ks data arbitrary: data' rule: removeField.induct)
     (auto simp: map_simps split: option.splits gvalue.splits if_splits)

lemma removeField_step:
  assumes "removeField (k # k2 # ks) data = Ok data'"
  obtains (none) "mget data k = None" "data' = data"
  | (leaf) w where "mget data k = Some w" "\<not> is_vmap w" "data' = data"
  | (keep) m m' where "mget data k = Some (VMap m)" "removeField (k2 # ks) m = Ok m'"
      "m' \<noteq> []" "data' = mput k (VMap m') data"
  | (prune) m where "mget data k = Some (VMap m)" "removeField (k2 # ks) m = Ok []"
      "data' = mdel k data"
  using assms by (auto split: option.splits gvalue.splits if_splits)

lemma removeField_frame:
  "removeField ks data = Ok data' \<Longrightarrow> diverge ks ls \<Longrightarrow> fget data' ls = fget data ls"
proof (induction ks data arbitrary: data' ls rule: removeField.induct)
  case (2 k data)
  then show ?case by (cases ls) (auto simp: map_simps diverge_def)
next
  case (3 k k2 ks data)
  obtain l ls' where ls: "ls = l # ls'" using "3.prems"(2) by (cases ls) auto
  from "3.prems"(1) show ?case
  proof (cases rule: removeField_step)
    case (keep m m')
    then show ?thesis
      using "3.IH" [of "VMap m" m m' ls'] "3.prems"(2) ls by (auto simp: map_simps)
  next
    case (prune m)
    then show ?thesis
      using "3.IH" [of "VMap m" m "[]" ls'] "3.prems"(2) ls
      by (cases ls') (auto simp: map_simps)
  qed (use ls in auto)
qed simp

lemma removeField_no_empty_parent:
  "removeField ks data = Ok data' \<Longrightarrow> ks = p @ q \<Longrightarrow> p \<noteq> [] \<Longrightarrow> q \<noteq> [] \<Longrightarrow>
     fget data' p \<noteq> Some (VMap [])"
proof (induction ks data arbitrary: data' p rule: removeField.induct)
  case (2 k data)
  then show ?case by (auto simp: Cons_eq_append_conv)
next
  case (3 k k2 ks data)
  obtain p' where p: "p = k # p'" using "3.prems"(2,3) by (cases p) auto
  with "3.prems"(2) have split: "k2 # ks = p' @ q" by simp
  from "3.prems"(1) show ?case
  proof (cases rule: removeField_step)
    case (keep m m')
    then show ?thesis
      using "3.IH" [of "VMap m" m m' p'] "3.prems"(4) split p by (cases "p' = []") (auto simp: map_simps)
  next
    case (leaf w)
    then show ?thesis using p vget_not_map [of w p'] by (cases p') auto
  qed (use p in \<open>auto simp: map_simps\<close>)
qed simp

lemma mput_mput_same: "mput k v (mput k v' m) = mput k v m"
  unfolding mput_def by (rule update_last)

lemma mput_same: "mget m k = Some v \<Longrightarrow> mput k v m = m"
  unfolding mput_def mget_def by (induction m) auto

lemma removeField_idem:
  "removeField ks data = Ok data' \<Longrightarrow> removeField ks data' = Ok data'"
proof (induction ks data arbitrary: data' rule: removeField.induct)
  case (2 k data)
  then show ?case by (auto simp: mdel_def)
next
  case (3 k k2 ks data)
  from "3.prems" show ?case
  proof (cases rule: removeField_step)
    case (keep m m')
    then show ?thesis
      using "3.IH" [of "VMap m" m m'] by (auto simp: map_simps mput_mput_same)
  next
    case (leaf w)
    then show ?thesis by (cases w) auto
  qed (auto simp: map_simps)
qed simp

section \<open>Expanding all keys\<close>

fun diverging :: "string list list \<Rightarrow> bool" where
  "diverging [] = True"
| "diverging (p # ps) = ((\<forall>q \<in> set ps. diverge p q) \<and> diverging ps)"

text \<open>At each level the keys' paths lie on different branches.\<close>

fun expandable :: "gvalue \<Rightarrow> bool" where
  "expandable (VMap m) =
     (diverging (map (\<lambda>p. extractBracketFields (fst p)) m) \<and> (\<forall>p \<in> set m. expandable (snd p)))"
| "expandable _ = True"

text \<open>A value that expansion treats as a leaf: not a map, or an empty one.\<close>

definition is_leaf :: "gvalue \<Rightarrow> bool" where
  "is_leaf v \<longleftrightarrow> v = VMap [] \<or> \<not> is_vmap v"

function leaf_paths :: "fields \<Rightarrow> (string list \<times> gvalue) list" where
  "leaf_paths [] = []"
| "leaf_paths ((k, v) # m) =
     (case v of
        VMap n \<Rightarrow> if n = [] then [(extractBracketFields k, v)]
                  else map (\<lambda>(p, w). (extractBracketFields k @ p, w)) (leaf_paths n)
      | _ \<Rightarrow> [(extractBracketFields k, v)]) @ leaf_paths m"
  by pat_completeness auto
termination
  by (relation "measure (\<lambda>m. size_list (size_prod (\<lambda>x. 0) size) m)") auto

lemma vget_prefix_map: "vget v (p @ q) = Some w \<Longrightarrow> q \<noteq> [] \<Longrightarrow> \<exists>m. vget v p = Some (VMap m) \<and> m \<noteq> []"
  by (cases q) (auto simp: vget_append bind_eq_Some_conv dest!: vget_ConsD)

lemma diverge_cases:
  obtains (eq_or_below) r where "q = p @ r"
  | (above) r where "p = q @ r" "r \<noteq> []"
  | (apart) "diverge p q"
proof (cases "diverge p q")
  case False
  then consider r where "q = p @ r" | r where "p = q @ r" by (auto simp: diverge_def)
  then show ?thesis
  proof cases
    case (2 r)
    then show ?thesis using eq_or_below [of "[]"] above [of r] by (cases "r = []") auto
  qed (rule eq_or_below)
qed (rule apart)

lemma diverge_prefix: "diverge p (q @ r) \<Longrightarrow> diverge p q \<or> (\<exists>x. p = q @ x \<and> x \<noteq> [])"
  by (cases rule: diverge_cases [of q p]) (auto simp: diverge_def)

lemma blocked_frame:
  assumes "parseBracketProperty ks v r = Ok r'" and "diverge ks q" and "\<not> blocked q r"
  shows "\<not> blocked q r'"
proof
  assume "blocked q r'"
  then obtain p s w where q: "q = p @ s" "p \<noteq> []" "s \<noteq> []" and w: "fget r' p = Some w" "\<not> is_vmap w"
    unfolding blocked_def by blast
  from assms(2) q(1) have "diverge ks p \<or> (\<exists>x. ks = p @ x \<and> x \<noteq> [])" by (auto dest: diverge_prefix)
  then show False
  proof
    assume "diverge ks p"
    with assms(1,3) q w show False
      using parseBracketProperty_frame unfolding blocked_def by metis
  next
    assume "\<exists>x. ks = p @ x \<and> x \<noteq> []"
    then show False
      using parseBracketProperty_get [OF assms(1)] vget_prefix_map w by fastforce
  qed
qed

text \<open>Below or beside the inserted path nothing appears that was not there.\<close>

lemma parseBracketProperty_only:
  assumes "parseBracketProperty ks v r = Ok r'" and "fget r' q = Some w" and "is_leaf w"
    and "q \<noteq> []" "ks \<noteq> []"
  shows "(diverge ks q \<and> fget r q = Some w) \<or> (\<exists>x. q = ks @ x \<and> vget v x = Some w)"
proof (cases rule: diverge_cases [of q ks])
  case (eq_or_below x)
  have "fget r' ks = Some v" using assms(1) by (rule parseBracketProperty_get)
  with eq_or_below assms(2) show ?thesis by (simp add: vget_append)
next
  case (above x)
  have "fget r' (q @ x) = Some v" using above assms(1) parseBracketProperty_get by simp
  then show ?thesis using vget_prefix_map above(2) assms(2,3) by (fastforce simp: is_leaf_def)
next
  case apart
  then show ?thesis using assms(1,2) parseBracketProperty_frame by metis
qed


text \<open>The paths of an entry's leaves, given the value the entry is expanded to.\<close>

lemma leaf_paths_Cons:
  "set (leaf_paths ((k, v) # m)) =
     {(extractBracketFields k @ p, w) |p w.
        (case v of VMap n \<Rightarrow> if n = [] then p = [] \<and> w = v else (p, w) \<in> set (leaf_paths n)
         | _ \<Rightarrow> p = [] \<and> w = v)} \<union> set (leaf_paths m)"
  by (cases v) auto

lemma leaf_paths_nonempty: "(p, w) \<in> set (leaf_paths m) \<Longrightarrow> p \<noteq> []"
  by (induction m rule: leaf_paths.induct) (auto split: gvalue.splits if_splits)

lemma leaf_paths_leaf: "(p, w) \<in> set (leaf_paths m) \<Longrightarrow> is_leaf w"
  by (induction m arbitrary: p rule: leaf_paths.induct)
     (auto simp: is_leaf_def split: gvalue.splits if_splits)

lemma leaf_paths_Nil_iff: "leaf_paths m = [] \<longleftrightarrow> m = []"
  by (induction m rule: leaf_paths.induct) (auto split: gvalue.splits)

lemma vget_not_map_iff: "\<not> is_vmap v \<Longrightarrow> vget v x = Some w \<longleftrightarrow> x = [] \<and> w = v"
  by (cases x) (auto simp: vget_not_map)

lemma diverge_append: "diverge q p \<Longrightarrow> diverge q (p @ x)"
  by (auto simp: diverge_def append_eq_append_conv2)

text \<open>
  What one entry contributes to the leaves: the value it is expanded to has exactly the
  leaves that \<open>leaf_paths\<close> lists.
\<close>

definition entry_leaf :: "gvalue \<Rightarrow> string list \<Rightarrow> gvalue \<Rightarrow> bool" where
  "entry_leaf v p w =
     (case v of VMap n \<Rightarrow> if n = [] then p = [] \<and> w = v else (p, w) \<in> set (leaf_paths n)
      | _ \<Rightarrow> p = [] \<and> w = v)"

lemma leaf_paths_entry:
  "(p, w) \<in> set (leaf_paths ((k, v) # m)) \<longleftrightarrow>
     (\<exists>x. p = extractBracketFields k @ x \<and> entry_leaf v x w) \<or> (p, w) \<in> set (leaf_paths m)"
  unfolding leaf_paths_Cons entry_leaf_def by blast

lemma entry_leaf_map:
  assumes m': "\<And>p w. p \<noteq> [] \<Longrightarrow> is_leaf w \<Longrightarrow>
      fget m' p = Some w \<longleftrightarrow> (p, w) \<in> set (leaf_paths m)"
    and Nil: "m = [] \<Longrightarrow> m' = []" and w: "is_leaf w"
  shows "fget m' p = Some w \<longleftrightarrow> entry_leaf (VMap m) p w"
proof (cases "p = []")
  case False
  then show ?thesis using m' [OF False w] by (auto simp: entry_leaf_def)
next
  case True
  have "m = []" if "m' = []"
  proof (rule ccontr)
    assume "m \<noteq> []"
    then obtain q u where q: "(q, u) \<in> set (leaf_paths m)"
      using leaf_paths_Nil_iff by (metis list.set_intros(1) neq_Nil_conv surj_pair)
    then have "q \<noteq> []" and "is_leaf u" using leaf_paths_nonempty leaf_paths_leaf by auto
    with q m' have "fget m' q = Some u" by blast
    with that \<open>q \<noteq> []\<close> show False by (cases q) auto
  qed
  with Nil True w leaf_paths_nonempty show ?thesis by (auto simp: entry_leaf_def is_leaf_def)
qed

text \<open>The step of the loop: one entry inserted into the map built so far.\<close>

lemma insert_entry_leaves:
  assumes ins: "parseBracketProperty ks v r = Ok r1" and ks: "ks \<noteq> []"
    and sep: "\<And>p w. fget r p = Some w \<Longrightarrow> is_leaf w \<Longrightarrow> p \<noteq> [] \<Longrightarrow> diverge ks p"
    and p: "p \<noteq> []" "is_leaf w"
  shows "fget r1 p = Some w \<longleftrightarrow> fget r p = Some w \<or> (\<exists>x. p = ks @ x \<and> vget v x = Some w)"
proof
  assume "fget r1 p = Some w"
  then show "fget r p = Some w \<or> (\<exists>x. p = ks @ x \<and> vget v x = Some w)"
    using parseBracketProperty_only [OF ins] p ks by blast
next
  assume "fget r p = Some w \<or> (\<exists>x. p = ks @ x \<and> vget v x = Some w)"
  then show "fget r1 p = Some w"
  proof
    assume "fget r p = Some w"
    then show ?thesis using sep [OF _ p(2,1)] parseBracketProperty_frame [OF ins] by simp
  next
    assume "\<exists>x. p = ks @ x \<and> vget v x = Some w"
    then show ?thesis using parseBracketProperty_get [OF ins] by (auto simp: vget_append)
  qed
qed

text \<open>
  What the loop computes: the leaves of the result are the leaves of the map it started
  from and those of the entries it visited.
\<close>

text \<open>What diverges from all the leaves of the fields and from a key also diverges from the leaves below it.\<close>

lemma insert_keeps_apart:
  assumes "parseBracketProperty (extractBracketFields k) v r = Ok r1"
    and "\<And>p w. fget r p = Some w \<Longrightarrow> is_leaf w \<Longrightarrow> p \<noteq> [] \<Longrightarrow> diverge (extractBracketFields k) p"
    and "diverge (extractBracketFields k) ks"
    and "\<And>p w. fget r p = Some w \<Longrightarrow> is_leaf w \<Longrightarrow> p \<noteq> [] \<Longrightarrow> diverge ks p"
    and "fget r1 p = Some w" "is_leaf w" "p \<noteq> []"
  shows "diverge ks p"
proof -
  have "fget r p = Some w \<or> (\<exists>x. p = extractBracketFields k @ x \<and> vget v x = Some w)"
    using insert_entry_leaves [OF assms(1) extract_nonempty(1), of p w] assms(2,5-7) by blast
  then show ?thesis
  proof
    assume "\<exists>x. p = extractBracketFields k @ x \<and> vget v x = Some w"
    with assms(3) show ?thesis using diverge_append by (auto simp: diverge_sym)
  qed (use assms(4,6,7) in blast)
qed

lemma converted_leaves:
  assumes "\<And>m. v = VMap m \<Longrightarrow> \<exists>m'. parse_entries m [] = Ok m' \<and> (\<forall>p w. p \<noteq> [] \<and> is_leaf w \<longrightarrow>
      (fget m' p = Some w \<longleftrightarrow> (p, w) \<in> set (leaf_paths m)))"
  shows "\<exists>v'. (case v of VMap m \<Rightarrow> rbind (parse_entries m []) (\<lambda>m'. Ok (VMap m')) | _ \<Rightarrow> Ok v) = Ok v' \<and>
    (\<forall>x w. is_leaf w \<longrightarrow> (vget v' x = Some w \<longleftrightarrow> entry_leaf v x w))"
proof (cases v)
  case (VMap m)
  from assms [OF VMap] obtain m' where m': "parse_entries m [] = Ok m'"
    "p \<noteq> [] \<Longrightarrow> is_leaf w \<Longrightarrow> fget m' p = Some w \<longleftrightarrow> (p, w) \<in> set (leaf_paths m)" for p w by blast
  have "m = [] \<Longrightarrow> m' = []" using m'(1) by simp
  with entry_leaf_map [OF m'(2)] m'(1) VMap show ?thesis by auto
qed (auto simp: entry_leaf_def vget_not_map_iff)

lemma parse_entries_correct:
  assumes "expandable (VMap data)"
    and "\<And>k. k \<in> fst ` set data \<Longrightarrow> \<not> blocked (extractBracketFields k) r"
    and "\<And>k p w. k \<in> fst ` set data \<Longrightarrow> fget r p = Some w \<Longrightarrow> is_leaf w \<Longrightarrow> p \<noteq> [] \<Longrightarrow>
      diverge (extractBracketFields k) p"
  shows "\<exists>r'. parse_entries data r = Ok r' \<and>
    (\<forall>p w. p \<noteq> [] \<and> is_leaf w \<longrightarrow>
       (fget r' p = Some w \<longleftrightarrow> fget r p = Some w \<or> (p, w) \<in> set (leaf_paths data)))"
  using assms
proof (induction data r rule: parse_entries.induct)
  case (1 r)
  then show ?case by simp
next
  case (2 k v data r)
  let ?ks = "extractBracketFields k"
  let ?conv = "case v of VMap m \<Rightarrow> rbind (parse_entries m []) (\<lambda>m'. Ok (VMap m')) | _ \<Rightarrow> Ok v"
  have exp: "expandable v" "expandable (VMap data)"
    and apart: "k' \<in> fst ` set data \<Longrightarrow> diverge ?ks (extractBracketFields k')" for k'
    using "2.prems"(1) by auto
  have "\<exists>v'. ?conv = Ok v' \<and> (\<forall>x w. is_leaf w \<longrightarrow> (vget v' x = Some w \<longleftrightarrow> entry_leaf v x w))"
  proof (rule converted_leaves)
    fix m assume m: "v = VMap m"
    have nb: "\<not> blocked q []" for q by (auto simp: blocked_def neq_Nil_conv)
    have np: "q \<noteq> [] \<Longrightarrow> fget [] q = None" for q by (cases q) auto
    from "2.IH"(1) [OF refl m] exp(1) m nb np
    show "\<exists>m'. parse_entries m [] = Ok m' \<and> (\<forall>p w. p \<noteq> [] \<and> is_leaf w \<longrightarrow>
      (fget m' p = Some w \<longleftrightarrow> (p, w) \<in> set (leaf_paths m)))" by fastforce
  qed
  then obtain v' where v': "?conv = Ok v'"
    and leaves: "is_leaf w \<Longrightarrow> vget v' x = Some w \<longleftrightarrow> entry_leaf v x w" for x w by blast
  obtain r1 where r1: "parseBracketProperty ?ks v' r = Ok r1"
    using parseBracketProperty_panic [of ?ks v' r] parseBracketProperty_no_error [of ?ks v' r]
      "2.prems"(2) [of k] by (cases "parseBracketProperty ?ks v' r") auto
  have sep: "fget r p = Some w \<Longrightarrow> is_leaf w \<Longrightarrow> p \<noteq> [] \<Longrightarrow> diverge ?ks p" for p w
    using "2.prems"(3) by auto
  have step: "fget r1 p = Some w \<longleftrightarrow> fget r p = Some w \<or> (\<exists>x. p = ?ks @ x \<and> vget v' x = Some w)"
    if "p \<noteq> []" "is_leaf w" for p w
    using that by (intro insert_entry_leaves [OF r1 extract_nonempty(1)]) (auto intro: sep)
  have nb: "\<not> blocked (extractBracketFields k') r1" if "k' \<in> fst ` set data" for k'
    by (rule blocked_frame [OF r1 apart [OF that]]) (use "2.prems"(2) [of k'] that in auto)
  have sep1: "diverge (extractBracketFields k') p"
    if "k' \<in> fst ` set data" "fget r1 p = Some w" "is_leaf w" "p \<noteq> []" for k' p w
    by (rule insert_keeps_apart [OF r1 sep apart [OF that(1)] "2.prems"(3) that(2-4)]) (use that(1) in auto)
  have "\<exists>r'. parse_entries data r1 = Ok r' \<and> (\<forall>p w. p \<noteq> [] \<and> is_leaf w \<longrightarrow>
       (fget r' p = Some w \<longleftrightarrow> fget r1 p = Some w \<or> (p, w) \<in> set (leaf_paths data)))"
    by (rule "2.IH"(2) [OF refl v' r1 exp(2) nb]) (use sep1 in blast)+
  then obtain r' where "parse_entries data r1 = Ok r'"
    and "p \<noteq> [] \<Longrightarrow> is_leaf w \<Longrightarrow>
       fget r' p = Some w \<longleftrightarrow> fget r1 p = Some w \<or> (p, w) \<in> set (leaf_paths data)" for p w
    by blast
  with r1 v' step leaves show ?case
    by (intro exI [of _ r']) (auto simp: leaf_paths_entry simp del: leaf_paths.simps)
qed


section \<open>Properties\<close>

text \<open>
  C18: a key written in bracket notation from non-empty names without brackets and commas is
  split into exactly those names, and every other key is kept whole: a key is either a
  sequence of bracketed names, with the names as result, or its own only component.
\<close>

theorem extract_roundtrip:
  "(ks \<noteq> [] \<and> (\<forall>k \<in> set ks. field_name k) \<longrightarrow> extractBracketFields (bracket_key ks) = ks) \<and>
   (extractBracketFields key \<noteq> [key] \<longrightarrow>
      key = bracket_key (extractBracketFields key) \<and> (\<forall>k \<in> set (extractBracketFields key). field_name k))"
proof (intro conjI impI)
  assume ks: "ks \<noteq> [] \<and> (\<forall>k \<in> set ks. field_name k)"
  then have "rValidator (bracket_key ks)"
    by (auto simp: rValidator_def bracket_key_Nil_iff matches_rest_iff)
  then show "extractBracketFields (bracket_key ks) = ks"
    using ks by (simp add: extractBracketFields_def rExtractField_bracket_key)
next
  assume "extractBracketFields key \<noteq> [key]"
  then show "key = bracket_key (extractBracketFields key)"
    by (cases rule: extract_cases [of key]) auto
next
  assume "extractBracketFields key \<noteq> [key]"
  then show "\<forall>k \<in> set (extractBracketFields key). field_name k"
    by (cases rule: extract_cases [of key]) auto
qed

theorem extract_roundtrip_witness:
  "extractBracketFields (bracket_key [''log'', ''file'']) = [''log'', ''file''] \<and>
   extractBracketFields ''[log]bad'' = [''[log]bad'']"
proof
  have "field_name ''log''" "field_name ''file''" by (simp_all add: field_name_def field_char_def)
  then show "extractBracketFields (bracket_key [''log'', ''file'']) = [''log'', ''file'']"
    using extract_roundtrip [of "[''log'', ''file'']"] by simp
  show "extractBracketFields ''[log]bad'' = [''[log]bad'']" by code_simp
qed

text \<open>
  C19: removing an ignored field from an event. The removal always succeeds; afterwards the
  field is absent, every field on another branch of the event has its old value, no map on the
  path to the removed field is left empty, and removing the field again changes nothing.
\<close>

theorem removeFields_correct:
  "\<exists>event'. removeFields key event = Ok event' \<and>
     fget event' (extractBracketFields key) = None \<and>
     (\<forall>path. diverge (extractBracketFields key) path \<longrightarrow> fget event' path = fget event path) \<and>
     (\<forall>p q. extractBracketFields key = p @ q \<and> p \<noteq> [] \<and> q \<noteq> [] \<longrightarrow> fget event' p \<noteq> Some (VMap [])) \<and>
     removeFields key event' = Ok event'"
proof -
  let ?ks = "extractBracketFields key"
  obtain event' where e: "removeField ?ks event = Ok event'"
    using removeField_ok extract_nonempty(1) by blast
  show ?thesis unfolding removeFields_def
    using e removeField_gone [OF e] removeField_frame [OF e] removeField_idem [OF e]
      removeField_no_empty_parent [OF e] by blast
qed

theorem removeFields_correct_witness:
  "\<exists>event'. removeFields ''[a][b]'' [(''a'', VMap [(''b'', VInt 1)]), (''c'', VInt 2)] = Ok event' \<and>
     fget event' [''c''] = Some (VInt 2)"
proof -
  let ?e = "[(''a'', VMap [(''b'', VInt 1)]), (''c'', VInt 2)]"
  have ks: "extractBracketFields ''[a][b]'' = [''a'', ''b'']" by code_simp
  obtain e' where "removeFields ''[a][b]'' ?e = Ok e'"
    and frame: "\<forall>path. diverge [''a'', ''b''] path \<longrightarrow> fget e' path = fget ?e path"
    using removeFields_correct [of "''[a][b]''" ?e] unfolding ks by blast
  moreover have "fget e' [''c''] = fget ?e [''c'']"
    using frame [rule_format, of "[''c'']"] by simp
  ultimately show ?thesis by simp
qed

text \<open>
  C17: expanding a map whose keys' paths lie on different branches at every level. The expansion
  succeeds, whatever order the map is visited in, and the result has exactly the leaves of the
  argument, each at the path that its keys spell.
\<close>

theorem parseAllBracketProperties_correct:
  assumes "expandable (VMap data)"
  shows "\<exists>result. parseAllBracketProperties data = Ok result \<and>
    (\<forall>p w. p \<noteq> [] \<and> is_leaf w \<longrightarrow> (fget result p = Some w \<longleftrightarrow> (p, w) \<in> set (leaf_paths data)))"
proof -
  have "\<not> blocked q []" for q by (auto simp: blocked_def neq_Nil_conv)
  moreover have "fget [] p = Some w \<Longrightarrow> p \<noteq> [] \<Longrightarrow> diverge q p" for p w q
    by (cases p) auto
  moreover have "fget [] p = Some w \<Longrightarrow> p \<noteq> [] \<Longrightarrow> False" for p w by (cases p) auto
  ultimately show ?thesis
    using parse_entries_correct [OF assms, of "[]"] unfolding parseAllBracketProperties_def by metis
qed

theorem parseAllBracketProperties_correct_witness:
  "\<exists>result. parseAllBracketProperties [(''message'', VString ''m''), (''[log][path]'', VInt 2)] = Ok result \<and>
     fget result [''log'', ''path''] = Some (VInt 2)"
proof -
  let ?d = "[(''message'', VString ''m''), (''[log][path]'', VInt 2)]"
  have ks: "extractBracketFields ''message'' = [''message'']"
    "extractBracketFields ''[log][path]'' = [''log'', ''path'']" by code_simp+
  have "expandable (VMap ?d)" by (simp add: ks)
  from parseAllBracketProperties_correct [OF this] obtain result where
    "parseAllBracketProperties ?d = Ok result"
    and leaves: "\<forall>p w. p \<noteq> [] \<and> is_leaf w \<longrightarrow> (fget result p = Some w \<longleftrightarrow> (p, w) \<in> set (leaf_paths ?d))"
    by blast
  moreover have "([''log'', ''path''], VInt 2) \<in> set (leaf_paths ?d)" by (simp add: ks)
  moreover have "is_leaf (VInt 2)" by (simp add: is_leaf_def)
  ultimately show ?thesis by blast
qed

text \<open>
  When one key is a prefix of another, the outcome depends on the order in which Go visits
  the map. Of two visiting orders of the same map, one panics on a failed type assertion and
  the other silently drops a field; when the two values are maps, one order keeps both fields
  and the other loses one.
\<close>

theorem bracket_order_matters:
  "parseAllBracketProperties [(''log'', VString ''x''), (''[log][path]'', VInt 1)] = Panic \<and>
   parseAllBracketProperties [(''[log][path]'', VInt 1), (''log'', VString ''x'')]
     = Ok [(''log'', VString ''x'')] \<and>
   parseAllBracketProperties [(''log'', VMap [(''a'', VInt 1)]), (''[log][path]'', VInt 1)]
     = Ok [(''log'', VMap [(''a'', VInt 1), (''path'', VInt 1)])] \<and>
   parseAllBracketProperties [(''[log][path]'', VInt 1), (''log'', VMap [(''a'', VInt 1)])]
     = Ok [(''log'', VMap [(''a'', VInt 1)])] \<and>
   same_fields [(''log'', VString ''x''), (''[log][path]'', VInt 1)]
     [(''[log][path]'', VInt 1), (''log'', VString ''x'')]"
proof -
  have "same_fields [p, q] [q, p]" for p q by (rule same_fields_perm) (simp add: add_mset_commute)
  moreover have "parseAllBracketProperties [(''log'', VString ''x''), (''[log][path]'', VInt 1)] = Panic"
    by code_simp
  moreover have "parseAllBracketProperties [(''[log][path]'', VInt 1), (''log'', VString ''x'')]
      = Ok [(''log'', VString ''x'')]" by code_simp
  moreover have "parseAllBracketProperties [(''log'', VMap [(''a'', VInt 1)]), (''[log][path]'', VInt 1)]
      = Ok [(''log'', VMap [(''a'', VInt 1), (''path'', VInt 1)])]" by code_simp
  moreover have "parseAllBracketProperties [(''[log][path]'', VInt 1), (''log'', VMap [(''a'', VInt 1)])]
      = Ok [(''log'', VMap [(''a'', VInt 1)])]" by code_simp
  ultimately show ?thesis by blast
qed

end
