(* ===== verification/State_Machine.thy ===== *)
theory State_Machine
  imports Prelude
begin

text \<open>
  The state machine of a Logstash controller, \<open>internal/daemon/controller/statemachine.go\<close>:
  the states and commands, the transition table, \<open>executeCommand\<close>, \<open>getState\<close> and one
  iteration of the loop of \<open>waitForState\<close>. The mutex makes each of them an atomic step on the
  shared state. The whole wait, with the condition variable and the goroutine that wakes the
  waiters up, is in the theory \<open>Wait_For_State\<close>.
\<close>

section \<open>States, commands and the transition table\<close>

datatype stateName =
    stateUnknown
  | stateCreated
  | stateStarted
  | stateReady
  | stateSettingUpTest
  | stateReadyForTest
  | stateExecutingTest
  | stateRunningTest

datatype command =
    commandStart
  | commandPipelineReady
  | commandSetupTest
  | commandExecuteTest
  | commandTestComplete
  | commandTeardown
  | commandCrash

text \<open>
  A lookup in the Go map: a missing key yields the nil function, here \<open>None\<close>.
\<close>

fun stateTransitionsTable :: "stateName \<Rightarrow> command \<Rightarrow> stateName option" where
  "stateTransitionsTable stateCreated commandStart = Some stateStarted"
| "stateTransitionsTable stateStarted commandPipelineReady = Some stateReady"
| "stateTransitionsTable stateReady commandPipelineReady = Some stateReady"
| "stateTransitionsTable stateReady commandSetupTest = Some stateSettingUpTest"
| "stateTransitionsTable stateSettingUpTest commandPipelineReady = Some stateReadyForTest"
| "stateTransitionsTable stateReadyForTest commandExecuteTest = Some stateExecutingTest"
| "stateTransitionsTable stateReadyForTest commandTeardown = Some stateStarted"
| "stateTransitionsTable stateExecutingTest commandPipelineReady = Some stateRunningTest"
| "stateTransitionsTable stateRunningTest commandPipelineReady = Some stateRunningTest"
| "stateTransitionsTable stateRunningTest commandTestComplete = Some stateReadyForTest"
| "stateTransitionsTable _ _ = None"

record stateMachine =
  sm_done :: bool           \<comment> \<open>the context of the machine is done\<close>
  currentState :: stateName

definition newStateMachine :: "bool \<Rightarrow> stateMachine" where
  "newStateMachine ctxDone = \<lparr>sm_done = ctxDone, currentState = stateCreated\<rparr>"

definition executeCommand :: "command \<Rightarrow> stateMachine \<Rightarrow> stateMachine" where
  "executeCommand cmd s =
     (let newState = (case stateTransitionsTable (currentState s) cmd of
                        None \<Rightarrow> stateUnknown
                      | Some st \<Rightarrow> st)
      in s\<lparr>currentState := newState\<rparr>)"

definition getState :: "stateMachine \<Rightarrow> stateName" where
  "getState s = currentState s"

definition executeCommands :: "command list \<Rightarrow> stateMachine \<Rightarrow> stateMachine" where
  "executeCommands cmds s = fold executeCommand cmds s"

section \<open>Waiting for a state\<close>

text \<open>
  One iteration of the loop, entered with the mutex held: \<open>Done\<close> when \<open>waitForState\<close> returns,
  \<open>Blocked\<close> when the thread reaches \<open>cond.Wait()\<close>. \<open>timer\<close> says whether the wait's timer has
  fired. When both the context and the timer are ready, \<open>select\<close> may take either; \<open>first\<close> is
  that choice.
\<close>

datatype wait_error = Shutdown stateName | TimedOut stateName | StateUnknown stateName

datatype wait_outcome = Done "wait_error option" | Blocked

definition wait_iteration ::
    "stateName \<Rightarrow> bool \<Rightarrow> bool \<Rightarrow> stateMachine \<Rightarrow> wait_outcome \<times> stateMachine" where
  "wait_iteration target timer first s =
     (if currentState s = target then (Done None, s)
      else if sm_done s \<and> (\<not> timer \<or> first) then (Done (Some (Shutdown target)), s)
      else if timer then (Done (Some (TimedOut target)), s\<lparr>currentState := stateUnknown\<rparr>)
      else if currentState s = stateUnknown then (Done (Some (StateUnknown target)), s)
      else (Blocked, s))"

section \<open>The transition table as a graph\<close>

inductive sm_step :: "stateName \<Rightarrow> command \<Rightarrow> stateName \<Rightarrow> bool" where
  table: "stateTransitionsTable st c = Some st' \<Longrightarrow> sm_step st c st'"
| unknown: "stateTransitionsTable st c = None \<Longrightarrow> sm_step st c stateUnknown"

inductive_simps sm_step_iff: "sm_step st c st'"

inductive_cases sm_stepE: "sm_step st c st'"

fun_cases tableE: "stateTransitionsTable st c = Some st'"

lemma sm_step_executeCommand: "sm_step (currentState s) c (currentState (executeCommand c s))"
  by (cases "stateTransitionsTable (currentState s) c")
     (auto simp: executeCommand_def intro: sm_step.intros)

lemma sm_step_deterministic: "sm_step st c a \<Longrightarrow> sm_step st c b \<Longrightarrow> a = b"
  by (auto simp: sm_step_iff)

lemma table_unknown [simp]: "stateTransitionsTable stateUnknown c = None"
  by (cases c) auto

lemma table_crash [simp]: "stateTransitionsTable st commandCrash = None"
  by (cases st) auto

lemma table_never_unknown: "stateTransitionsTable st c \<noteq> Some stateUnknown"
  by (cases st; cases c) auto

lemma currentState_executeCommand [simp]:
  "currentState (executeCommand c s) =
     (case stateTransitionsTable (currentState s) c of None \<Rightarrow> stateUnknown | Some st \<Rightarrow> st)"
  by (simp add: executeCommand_def)

lemma sm_done_executeCommand [simp]: "sm_done (executeCommand c s) = sm_done s"
  by (simp add: executeCommand_def)

section \<open>An absorbing failure state\<close>

text \<open>
  What the pool and the wait loop rely on: once a machine has failed, no operation brings it
  back. Stated for any step function with a failure predicate, and instantiated with
  \<open>executeCommand\<close> here.
\<close>

locale failing_machine =
  fixes step :: "'c \<Rightarrow> 's \<Rightarrow> 's"
    and failed :: "'s \<Rightarrow> bool"
  assumes failed_step: "failed s \<Longrightarrow> failed (step c s)"
begin

lemma failed_run: "failed s \<Longrightarrow> failed (fold step cs s)"
  by (induction cs arbitrary: s) (auto intro: failed_step)

lemma not_failed_prefix: "\<not> failed (fold step (cs @ ds) s) \<Longrightarrow> \<not> failed (fold step cs s)"
  using failed_run by auto

lemma failed_at: "failed (step c (fold step cs s)) \<Longrightarrow> failed (fold step (cs @ c # ds) s)"
  by (simp add: failed_run)

end

interpretation sm: failing_machine executeCommand "\<lambda>s. currentState s = stateUnknown"
  by unfold_locales simp

lemma run_append: "executeCommands (cs @ ds) s = executeCommands ds (executeCommands cs s)"
  by (simp add: executeCommands_def)

lemma run_Cons [simp]: "executeCommands (c # cs) s = executeCommands cs (executeCommand c s)"
  by (simp add: executeCommands_def)

lemma run_Nil [simp]: "executeCommands [] s = s"
  by (simp add: executeCommands_def)

lemma run_unknown: "currentState s = stateUnknown \<Longrightarrow> currentState (executeCommands cs s) = stateUnknown"
  unfolding executeCommands_def by (rule sm.failed_run)

section \<open>Which runs lead from a test's start to its end\<close>

text \<open>The states between \<open>commandExecuteTest\<close> and \<open>commandTestComplete\<close>.\<close>

definition in_test :: "stateName \<Rightarrow> bool" where
  "in_test st \<longleftrightarrow> st = stateExecutingTest \<or> st = stateRunningTest"

lemma in_test_step:
  "in_test st \<Longrightarrow> sm_step st c st' \<Longrightarrow> in_test st' \<or> st' = stateUnknown \<or>
     (c = commandTestComplete \<and> st = stateRunningTest \<and> st' = stateReadyForTest)"
  by (cases st; cases c) (auto simp: in_test_def sm_step_iff)

lemma in_test_run:
  assumes "in_test (currentState s)" and "commandTestComplete \<notin> set cs"
  shows "in_test (currentState (executeCommands cs s)) \<or>
    currentState (executeCommands cs s) = stateUnknown"
  using assms
proof (induction cs arbitrary: s)
  case Nil
  then show ?case by simp
next
  case (Cons c cs)
  have "sm_step (currentState s) c (currentState (executeCommand c s))"
    by (rule sm_step_executeCommand)
  with Cons.prems in_test_step
  have "in_test (currentState (executeCommand c s)) \<or>
      currentState (executeCommand c s) = stateUnknown" by fastforce
  then show ?case
    using Cons.IH [of "executeCommand c s"] Cons.prems(2) run_unknown by auto
qed

section \<open>The wait loop\<close>

lemma wait_iteration_Done_None:
  "wait_iteration target t f s = (Done None, s') \<longleftrightarrow> currentState s = target \<and> s' = s"
  by (auto simp: wait_iteration_def)

lemma wait_iteration_Blocked:
  "wait_iteration target t f s = (Blocked, s') \<Longrightarrow> s' = s \<and> \<not> t \<and> \<not> sm_done s
     \<and> currentState s \<noteq> target \<and> currentState s \<noteq> stateUnknown"
  by (auto simp: wait_iteration_def split: if_splits)

lemma wait_iteration_timer: "\<exists>r s'. wait_iteration target True f s = (Done r, s')"
  by (auto simp: wait_iteration_def)

lemma wait_iteration_error:
  "wait_iteration target t f s = (Done (Some e), s') \<Longrightarrow>
     currentState s \<noteq> target \<and>
     (case e of Shutdown x \<Rightarrow> x = target \<and> sm_done s \<and> s' = s
      | TimedOut x \<Rightarrow> x = target \<and> t \<and> s' = s\<lparr>currentState := stateUnknown\<rparr>
      | StateUnknown x \<Rightarrow> x = target \<and> currentState s = stateUnknown \<and> s' = s)"
  by (auto simp: wait_iteration_def split: if_splits)


section \<open>Properties\<close>

text \<open>
  C7: a controller that is executing a test gets back to "ready for test" only through the
  completion of that test: any sequence of commands that leads from a started test to
  \<open>stateReadyForTest\<close> contains a test-complete command, issued when the machine was in the
  running state.
\<close>

theorem test_ends_by_completion:
  assumes "in_test (currentState s)" and "currentState (executeCommands cs s) = stateReadyForTest"
  shows "\<exists>ds es. cs = ds @ commandTestComplete # es \<and>
    currentState (executeCommands ds s) = stateRunningTest"
proof -
  from assms in_test_run have "commandTestComplete \<in> set cs" by (fastforce simp: in_test_def)
  then obtain ds es where cs: "cs = ds @ commandTestComplete # es" "commandTestComplete \<notin> set ds"
    by (metis split_list_first)
  let ?s = "executeCommands ds s"
  have "in_test (currentState ?s) \<or> currentState ?s = stateUnknown"
    using in_test_run assms(1) cs(2) by blast
  moreover have "currentState (executeCommand commandTestComplete ?s) \<noteq> stateUnknown"
    using assms(2) cs(1) run_unknown by (fastforce simp: run_append)
  ultimately have "currentState ?s = stateRunningTest" by (auto simp: in_test_def)
  with cs(1) show ?thesis by blast
qed

theorem test_ends_by_completion_witness:
  "\<exists>ds es. [commandPipelineReady, commandTestComplete] = ds @ commandTestComplete # es"
  using test_ends_by_completion [of "\<lparr>sm_done = False, currentState = stateExecutingTest\<rparr>"
      "[commandPipelineReady, commandTestComplete]"]
  by (auto simp: in_test_def)

text \<open>
  A state machine never leaves the unknown state, and it enters it with the first command
  that the table does not list for the current state: a machine is still healthy after a
  sequence of commands exactly if each of them was listed for the state it met.
\<close>

theorem healthy_iff_listed:
  assumes "currentState s \<noteq> stateUnknown"
  shows "currentState (executeCommands cs s) \<noteq> stateUnknown \<longleftrightarrow>
    (\<forall>ds c es. cs = ds @ c # es \<longrightarrow>
       stateTransitionsTable (currentState (executeCommands ds s)) c \<noteq> None)"
  using assms
proof (induction cs rule: rev_induct)
  case Nil
  then show ?case by simp
next
  case (snoc d cs)
  let ?s = "executeCommands cs s"
  have last: "currentState (executeCommands (cs @ [d]) s) \<noteq> stateUnknown \<longleftrightarrow>
      currentState ?s \<noteq> stateUnknown \<and> stateTransitionsTable (currentState ?s) d \<noteq> None"
    using table_never_unknown by (auto simp: run_append split: option.splits)
  show ?case unfolding last all_splits_snoc using snoc by simp
qed

theorem healthy_iff_listed_witness:
  "(currentState (executeCommands [commandStart, commandPipelineReady] (newStateMachine False)) \<noteq> stateUnknown)
     = (\<forall>ds c es. [commandStart, commandPipelineReady] = ds @ c # es \<longrightarrow>
          stateTransitionsTable (currentState (executeCommands ds (newStateMachine False))) c \<noteq> None)"
  by (rule healthy_iff_listed) (simp add: newStateMachine_def)

end
