(* ===== verification/Wait_For_State.thy ===== *)
theory Wait_For_State
  imports State_Machine
begin

text \<open>
  The wait for a state, \<open>waitForState\<close> in \<open>internal/daemon/controller/statemachine.go\<close>, beside
  the goroutine of \<open>newStateMachine\<close> that wakes the waiters up and beside the other threads:
  a step system of one waiter, its timer, the ticker's goroutine, the context and the commands.
\<close>

section \<open>The state of a wait\<close>

text \<open>
  Where the waiter is. \<open>Looping\<close>: about to test the loop's condition, once it has the mutex.
  \<open>Parking\<close>: after the \<open>select\<close> and before \<open>cond.Wait\<close> has entered it into the list of those to
  be woken up; the mutex is held. \<open>Asleep\<close>: in that list, the mutex free. \<open>Returned\<close>: back,
  with the error.
\<close>

datatype waiter = Looping | Parking | Asleep | Returned "wait_error option"

record waiting =
  w_sm :: stateMachine
  w_waiter :: waiter
  w_timer :: bool     \<comment> \<open>the timer of the wait has fired\<close>
  w_ticker :: bool    \<comment> \<open>the goroutine of \<open>newStateMachine\<close> runs\<close>

text \<open>\<open>cond.Broadcast\<close> wakes up who is in the list at that moment, and nobody else.\<close>

definition broadcast :: "waiting \<Rightarrow> waiting" where
  "broadcast s = (if w_waiter s = Asleep then s\<lparr>w_waiter := Looping\<rparr> else s)"

section \<open>The steps\<close>

text \<open>
  The waiter. One iteration runs under the mutex, up to the return or up to \<open>cond.Wait\<close>; the
  broadcast of a timeout wakes up other waiters only. \<open>cond.Wait\<close> enters the waiter into the
  list and then frees the mutex.
\<close>

definition waiter_iterates :: "stateName \<Rightarrow> bool \<Rightarrow> waiting \<Rightarrow> waiting option" where
  "waiter_iterates target first s =
     (if w_waiter s = Looping
      then (case wait_iteration target (w_timer s) first (w_sm s) of
              (Done r, m) \<Rightarrow> Some (s\<lparr>w_sm := m, w_waiter := Returned r\<rparr>)
            | (Blocked, m) \<Rightarrow> Some (s\<lparr>w_sm := m, w_waiter := Parking\<rparr>))
      else None)"

definition waiter_sleeps :: "waiting \<Rightarrow> waiting option" where
  "waiter_sleeps s = (if w_waiter s = Parking then Some (s\<lparr>w_waiter := Asleep\<rparr>) else None)"

text \<open>
  The goroutine of \<open>newStateMachine\<close>. A tick broadcasts; once the context is done the goroutine
  may take that branch instead, and its deferred broadcast is its last. Neither takes the
  mutex, so both can happen while a waiter holds it.
\<close>

definition ticker_ticks :: "waiting \<Rightarrow> waiting option" where
  "ticker_ticks s = (if w_ticker s then Some (broadcast s) else None)"

definition ticker_ends :: "waiting \<Rightarrow> waiting option" where
  "ticker_ends s =
     (if w_ticker s \<and> sm_done (w_sm s) then Some (broadcast (s\<lparr>w_ticker := False\<rparr>)) else None)"

text \<open>
  The other threads: a command, and the timeout of another waiter. Both need the mutex, change
  the state and broadcast.
\<close>

definition other_thread :: "(stateMachine \<Rightarrow> stateMachine) \<Rightarrow> waiting \<Rightarrow> waiting option" where
  "other_thread f s =
     (if w_waiter s = Parking then None else Some (broadcast (s\<lparr>w_sm := f (w_sm s)\<rparr>)))"

datatype wait_action =
    Iterate bool           \<comment> \<open>with the branch \<open>select\<close> takes when both are ready\<close>
  | Sleep
  | Tick
  | Ticker_end
  | Timer
  | Cancel
  | By_command command
  | By_other_timeout

fun wait_step :: "stateName \<Rightarrow> wait_action \<Rightarrow> waiting \<Rightarrow> waiting option" where
  "wait_step target (Iterate first) s = waiter_iterates target first s"
| "wait_step target Sleep s = waiter_sleeps s"
| "wait_step target Tick s = ticker_ticks s"
| "wait_step target Ticker_end s = ticker_ends s"
| "wait_step target Timer s = Some (s\<lparr>w_timer := True\<rparr>)"
| "wait_step target Cancel s = Some (s\<lparr>w_sm := (w_sm s)\<lparr>sm_done := True\<rparr>\<rparr>)"
| "wait_step target (By_command c) s = other_thread (executeCommand c) s"
| "wait_step target By_other_timeout s = other_thread (currentState_update (\<lambda>_. stateUnknown)) s"

fun wait_run :: "stateName \<Rightarrow> wait_action list \<Rightarrow> waiting \<Rightarrow> waiting option" where
  "wait_run target [] s = Some s"
| "wait_run target (a # as) s = Option.bind (wait_step target a s) (wait_run target as)"

text \<open>
  A wait starts with a new timer, and the ticker's goroutine runs unless the context is done.
\<close>

definition waitForState :: "stateMachine \<Rightarrow> bool \<Rightarrow> waiting" where
  "waitForState m ticking =
     \<lparr>w_sm = m, w_waiter = Looping, w_timer = False, w_ticker = ticking \<or> \<not> sm_done m\<rparr>"

section \<open>What a step does\<close>

lemmas wait_step_defs =
  waiter_iterates_def waiter_sleeps_def ticker_ticks_def ticker_ends_def other_thread_def broadcast_def

lemma w_broadcast [simp]:
  "w_sm (broadcast s) = w_sm s" "w_timer (broadcast s) = w_timer s"
  "w_ticker (broadcast s) = w_ticker s"
  by (simp_all add: broadcast_def)

text \<open>How far a waiter whose timer has fired is from its return.\<close>

fun to_return :: "waiter \<Rightarrow> nat" where
  "to_return (Returned r) = 0"
| "to_return Looping = 1"
| "to_return Asleep = 2"
| "to_return Parking = 3"

lemma to_return_0: "to_return w = 0 \<longleftrightarrow> (\<exists>r. w = Returned r)"
  by (cases w) auto

lemma step_timer: "wait_step target a s = Some s' \<Longrightarrow> w_timer s \<Longrightarrow> w_timer s'"
  by (cases a) (auto simp: wait_step_defs split: if_splits prod.splits wait_outcome.splits)

lemma step_closer:
  assumes "wait_step target a s = Some s'" and "w_timer s"
  shows "to_return (w_waiter s') \<le> to_return (w_waiter s)"
proof (cases a)
  case (Iterate first)
  obtain r m where "wait_iteration target True first (w_sm s) = (Done r, m)"
    using wait_iteration_timer by blast
  with assms Iterate show ?thesis by (auto simp: wait_step_defs split: if_splits)
qed (use assms in \<open>auto simp: wait_step_defs split: if_splits\<close>)

lemma step_iterate_returns:
  assumes "wait_step target (Iterate first) s = Some s'" and "w_timer s"
  shows "to_return (w_waiter s') = 0"
proof -
  obtain r m where "wait_iteration target True first (w_sm s) = (Done r, m)"
    using wait_iteration_timer by blast
  with assms show ?thesis by (auto simp: wait_step_defs split: if_splits)
qed

lemma run_closer:
  "wait_run target as s = Some s' \<Longrightarrow> w_timer s \<Longrightarrow>
     to_return (w_waiter s') \<le> to_return (w_waiter s) \<and>
     ((\<exists>first. Iterate first \<in> set as) \<longrightarrow> to_return (w_waiter s') = 0)"
proof (induction as arbitrary: s)
  case (Cons a as)
  from Cons.prems(1) obtain t where t: "wait_step target a s = Some t" "wait_run target as t = Some s'"
    by (auto simp: bind_eq_Some_conv)
  note closer = step_closer [OF t(1) Cons.prems(2)]
  note IH = Cons.IH [OF t(2) step_timer [OF t(1) Cons.prems(2)]]
  show ?case
  proof (cases "\<exists>first. a = Iterate first")
    case True
    then have "to_return (w_waiter t) = 0" using t(1) Cons.prems(2) step_iterate_returns by blast
    with closer IH show ?thesis by simp
  next
    case False
    with closer IH show ?thesis by auto
  qed
qed simp

text \<open>
  A step towards the return that the waiter or the ticker's goroutine can take on its own.
\<close>

lemma step_towards:
  assumes "w_timer s" and "to_return (w_waiter s) > 0" and "w_waiter s = Asleep \<Longrightarrow> w_ticker s"
  shows "\<exists>a \<in> {Iterate first, Sleep, Tick}. \<exists>s'.
    wait_step target a s = Some s' \<and> to_return (w_waiter s') < to_return (w_waiter s)"
proof (cases "w_waiter s")
  case Looping
  obtain r m where "wait_iteration target True first (w_sm s) = (Done r, m)"
    using wait_iteration_timer by blast
  with Looping assms(1) show ?thesis by (simp add: wait_step_defs)
qed (use assms in \<open>simp_all add: wait_step_defs\<close>)

text \<open>The ticker's goroutine ends with the context only.\<close>

lemma step_ticker:
  assumes "wait_step target a s = Some s'" and "w_ticker s \<or> sm_done (w_sm s)"
  shows "w_ticker s' \<or> sm_done (w_sm s')"
  using assms
  by (cases a) (auto simp: wait_step_defs wait_iteration_def split: if_splits)

lemma run_ticker:
  "wait_run target as s = Some s' \<Longrightarrow> w_ticker s \<or> sm_done (w_sm s) \<Longrightarrow> w_ticker s' \<or> sm_done (w_sm s')"
proof (induction as arbitrary: s)
  case (Cons a as)
  then show ?case using step_ticker by (fastforce simp: bind_eq_Some_conv)
qed simp

text \<open>How a wait comes back.\<close>

lemma step_returns:
  assumes "wait_step target a s = Some s'" and "to_return (w_waiter s) > 0"
    and "w_waiter s' = Returned r"
  shows "case r of
      None \<Rightarrow> currentState (w_sm s) = target \<and> w_sm s' = w_sm s
    | Some (TimedOut x) \<Rightarrow> x = target \<and> w_timer s \<and> w_sm s' = (w_sm s)\<lparr>currentState := stateUnknown\<rparr>
    | Some (StateUnknown x) \<Rightarrow> x = target \<and> currentState (w_sm s) = stateUnknown \<and> w_sm s' = w_sm s
    | Some (Shutdown x) \<Rightarrow> x = target \<and> sm_done (w_sm s) \<and> w_sm s' = w_sm s"
  using assms
  by (cases a) (auto simp: wait_step_defs wait_iteration_def split: if_splits)

text \<open>
  Once the goroutine has ended, a sleeping waiter is woken up by the other threads only.
\<close>

lemma run_asleep:
  "wait_run target as s = Some s' \<Longrightarrow> w_waiter s = Asleep \<Longrightarrow> \<not> w_ticker s \<Longrightarrow>
     \<forall>a \<in> set as. a \<noteq> By_other_timeout \<and> (\<forall>c. a \<noteq> By_command c) \<Longrightarrow> w_waiter s' = Asleep"
proof (induction as arbitrary: s)
  case (Cons a as)
  from Cons.prems(1) obtain t where t: "wait_step target a s = Some t" "wait_run target as t = Some s'"
    by (auto simp: bind_eq_Some_conv)
  from t(1) Cons.prems have "w_waiter t = Asleep \<and> \<not> w_ticker t"
    by (cases a) (auto simp: wait_step_defs)
  with Cons t(2) show ?case by auto
qed simp

text \<open>The order that loses the last broadcast: it comes between the \<open>select\<close> and the sleep.\<close>

lemma lost_broadcast:
  assumes "\<not> sm_done m" and "currentState m \<noteq> target" and "currentState m \<noteq> stateUnknown"
  shows "wait_run target [Iterate True, Cancel, Ticker_end, Sleep, Timer] (waitForState m True) =
    Some \<lparr>w_sm = m\<lparr>sm_done := True\<rparr>, w_waiter = Asleep, w_timer = True, w_ticker = False\<rparr>"
  using assms by (simp add: waitForState_def wait_step_defs wait_iteration_def)

section \<open>Properties\<close>

text \<open>
  C22: the wait for a state, over every interleaving of the waiter with the ticker's goroutine,
  the timer, the context and the other threads. A wait that comes back without an error has
  found the target state and leaves the machine alone; one that times out does so after its
  timer has fired, and puts the machine into the unknown state; the others leave it alone and
  say that the context is done, or that the state was already unknown. Once the timer has fired
  the waiter gets no further from its return, whatever is done, and returns with its next
  iteration; and while the ticker's goroutine runs, the waiter or a tick can always bring it
  closer. The goroutine ends only with the context, and there the wait has a flaw: its last
  broadcast does not take the mutex, so a waiter that is between its \<open>select\<close> and \<open>cond.Wait\<close>
  misses it and then sleeps, with its timer fired and its context done, until another thread
  happens to change the state.
\<close>

theorem wait_correct:
  "(\<forall>a s s' r. wait_step target a s = Some s' \<and> to_return (w_waiter s) > 0 \<and> w_waiter s' = Returned r \<longrightarrow>
      (case r of
         None \<Rightarrow> currentState (w_sm s) = target \<and> w_sm s' = w_sm s
       | Some (TimedOut x) \<Rightarrow> x = target \<and> w_timer s \<and> w_sm s' = (w_sm s)\<lparr>currentState := stateUnknown\<rparr>
       | Some (StateUnknown x) \<Rightarrow> x = target \<and> currentState (w_sm s) = stateUnknown \<and> w_sm s' = w_sm s
       | Some (Shutdown x) \<Rightarrow> x = target \<and> sm_done (w_sm s) \<and> w_sm s' = w_sm s)) \<and>
   (\<forall>m ticking as s. wait_run target as (waitForState m ticking) = Some s \<and> w_timer s \<longrightarrow>
      (\<forall>bs s'. wait_run target bs s = Some s' \<longrightarrow>
         to_return (w_waiter s') \<le> to_return (w_waiter s) \<and>
         ((\<exists>first. Iterate first \<in> set bs) \<longrightarrow> to_return (w_waiter s') = 0)) \<and>
      (w_ticker s \<or> w_waiter s \<noteq> Asleep \<longrightarrow> to_return (w_waiter s) > 0 \<longrightarrow>
         (\<exists>a \<in> {Iterate True, Sleep, Tick}. \<exists>s'.
            wait_step target a s = Some s' \<and> to_return (w_waiter s') < to_return (w_waiter s))) \<and>
      (w_ticker s \<or> sm_done (w_sm s))) \<and>
   (\<forall>m. \<not> sm_done m \<and> currentState m \<noteq> target \<and> currentState m \<noteq> stateUnknown \<longrightarrow>
      (\<exists>as s. wait_run target as (waitForState m True) = Some s \<and>
         w_timer s \<and> sm_done (w_sm s) \<and> w_waiter s = Asleep \<and>
         (\<forall>bs s'. wait_run target bs s = Some s' \<and>
            (\<forall>b \<in> set bs. b \<noteq> By_other_timeout \<and> (\<forall>c. b \<noteq> By_command c)) \<longrightarrow> w_waiter s' = Asleep)))"
    (is "?returns \<and> ?timer \<and> ?lost")
proof (intro conjI)
  show ?returns by (intro allI impI, elim conjE, rule step_returns)
next
  show ?timer
  proof (intro allI impI, elim conjE, intro conjI)
    fix m ticking as s
    assume run: "wait_run target as (waitForState m ticking) = Some s" and timer: "w_timer s"
    show "\<forall>bs s'. wait_run target bs s = Some s' \<longrightarrow>
         to_return (w_waiter s') \<le> to_return (w_waiter s) \<and>
         ((\<exists>first. Iterate first \<in> set bs) \<longrightarrow> to_return (w_waiter s') = 0)"
      by (intro allI impI, rule run_closer) (assumption, rule timer)
    show "w_ticker s \<or> w_waiter s \<noteq> Asleep \<longrightarrow> to_return (w_waiter s) > 0 \<longrightarrow>
         (\<exists>a \<in> {Iterate True, Sleep, Tick}. \<exists>s'.
            wait_step target a s = Some s' \<and> to_return (w_waiter s') < to_return (w_waiter s))"
      by (intro impI, rule step_towards [OF timer]) blast+
    show "w_ticker s \<or> sm_done (w_sm s)"
      using run_ticker [OF run] by (auto simp: waitForState_def)
  qed
next
  show ?lost
  proof (intro allI impI)
    fix m :: stateMachine
    assume "\<not> sm_done m \<and> currentState m \<noteq> target \<and> currentState m \<noteq> stateUnknown"
    then have m: "\<not> sm_done m" "currentState m \<noteq> target" "currentState m \<noteq> stateUnknown" by auto
    let ?s = "\<lparr>w_sm = m\<lparr>sm_done := True\<rparr>, w_waiter = Asleep, w_timer = True, w_ticker = False\<rparr>"
    have "\<forall>bs s'. wait_run target bs ?s = Some s' \<and>
        (\<forall>b \<in> set bs. b \<noteq> By_other_timeout \<and> (\<forall>c. b \<noteq> By_command c)) \<longrightarrow> w_waiter s' = Asleep"
      by (intro allI impI, elim conjE, rule run_asleep) auto
    then show "\<exists>as s. wait_run target as (waitForState m True) = Some s \<and>
         w_timer s \<and> sm_done (w_sm s) \<and> w_waiter s = Asleep \<and>
         (\<forall>bs s'. wait_run target bs s = Some s' \<and>
            (\<forall>b \<in> set bs. b \<noteq> By_other_timeout \<and> (\<forall>c. b \<noteq> By_command c)) \<longrightarrow> w_waiter s' = Asleep)"
      by - (intro exI conjI, rule lost_broadcast [OF m], simp_all)
  qed
qed

text \<open>
  A wait for the ready state of a started controller: the timer fires while the waiter sleeps,
  a tick wakes it up and it times out.
\<close>

theorem wait_correct_witness:
  "\<exists>s. wait_run stateReady [Iterate True, Sleep, Timer, Tick, Iterate True]
        (waitForState \<lparr>sm_done = False, currentState = stateStarted\<rparr> True) = Some s \<and>
     to_return (w_waiter s) = 0 \<and>
     (\<exists>as t. wait_run stateReady as (waitForState \<lparr>sm_done = False, currentState = stateStarted\<rparr> True) = Some t \<and>
        w_timer t \<and> sm_done (w_sm t) \<and> w_waiter t = Asleep)"
proof -
  let ?m = "\<lparr>sm_done = False, currentState = stateStarted\<rparr>"
  let ?s = "\<lparr>w_sm = ?m, w_waiter = Asleep, w_timer = True, w_ticker = True\<rparr>"
  have run: "wait_run stateReady [Iterate True, Sleep, Timer] (waitForState ?m True) = Some ?s"
    by (simp add: waitForState_def wait_step_defs wait_iteration_def)
  obtain s where rest: "wait_run stateReady [Tick, Iterate True] ?s = Some s"
    by (simp add: wait_step_defs wait_iteration_def)
  have "\<exists>first. Iterate first \<in> set [Tick, Iterate True]" by auto
  moreover have "w_timer ?s" by simp
  ultimately have "to_return (w_waiter s) = 0"
    using wait_correct [of stateReady, THEN conjunct2, THEN conjunct1] run rest by blast
  moreover from run rest
  have "wait_run stateReady [Iterate True, Sleep, Timer, Tick, Iterate True] (waitForState ?m True) = Some s"
    by (simp add: waitForState_def wait_step_defs wait_iteration_def)
  moreover have "\<exists>as t. wait_run stateReady as (waitForState ?m True) = Some t \<and>
      w_timer t \<and> sm_done (w_sm t) \<and> w_waiter t = Asleep"
    using wait_correct [of stateReady, THEN conjunct2, THEN conjunct2, THEN spec, of ?m] by auto
  ultimately show ?thesis by blast
qed

end
