(* ===== verification/Event_Store.thy ===== *)
theory Event_Store
  imports Prelude
begin

text \<open>
  What a Logstash controller collects from its instance: the received events
  (\<open>internal/daemon/controller/events.go\<close>) and the readiness of the pipelines
  (\<open>internal/daemon/controller/pipelines.go\<close>). Every method holds the store's mutex for its
  whole body, so each is one atomic step; only \<open>pipelines.isReady\<close> reads without the mutex.
\<close>

section \<open>Received events\<close>

record events =
  ev_events :: "string list"
  completeFirstTime :: bool
  ev_expected :: int

definition newEvents :: events where
  "newEvents = \<lparr>ev_events = [], completeFirstTime = False, ev_expected = 0\<rparr>"

definition events_append :: "string \<Rightarrow> events \<Rightarrow> events" where
  "events_append event e = e\<lparr>ev_events := ev_events e @ [event]\<rparr>"

definition isCompleteFirstTime :: "events \<Rightarrow> bool \<times> events" where
  "isCompleteFirstTime e =
     (if ev_expected e = int (length (ev_events e)) \<and> \<not> completeFirstTime e
      then (True, e\<lparr>completeFirstTime := True\<rparr>)
      else (False, e))"

definition events_reset :: "int \<Rightarrow> events \<Rightarrow> events" where
  "events_reset expected e =
     e\<lparr>ev_expected := expected, ev_events := [], completeFirstTime := False\<rparr>"

definition events_get :: "events \<Rightarrow> string list" where
  "events_get e = ev_events e"

text \<open>
  The contract that the controller relies on: an append keeps what was collected and is seen
  by the next read; the completion test succeeds when the goal is met for the first time
  since the last reset, and not again before the next one.
\<close>

locale event_collector =
  fixes add :: "'e \<Rightarrow> 's \<Rightarrow> 's"
    and try_complete :: "'s \<Rightarrow> bool \<times> 's"
    and restart :: "int \<Rightarrow> 's \<Rightarrow> 's"
    and contents :: "'s \<Rightarrow> 'e list"
    and goal :: "'s \<Rightarrow> int"
    and completed :: "'s \<Rightarrow> bool"
  assumes contents_add: "contents (add e s) = contents s @ [e]"
    and goal_add: "goal (add e s) = goal s"
    and completed_add: "completed (add e s) = completed s"
    and try_result: "fst (try_complete s) \<longleftrightarrow> goal s = int (length (contents s)) \<and> \<not> completed s"
    and contents_try: "contents (snd (try_complete s)) = contents s"
    and goal_try: "goal (snd (try_complete s)) = goal s"
    and completed_try: "completed (snd (try_complete s)) \<longleftrightarrow> completed s \<or> fst (try_complete s)"
    and contents_restart: "contents (restart n s) = []"
    and goal_restart: "goal (restart n s) = n"
    and completed_restart: "\<not> completed (restart n s)"
begin

lemmas collector = contents_add goal_add completed_add try_result contents_try goal_try
  completed_try contents_restart goal_restart completed_restart

text \<open>One received event: stored, then the completion is tested.\<close>

definition receive :: "'e \<Rightarrow> nat \<times> 's \<Rightarrow> nat \<times> 's" where
  "receive e = (\<lambda>(n, s). let (done, s') = try_complete (add e s) in (if done then Suc n else n, s'))"

definition receive_all :: "'e list \<Rightarrow> nat \<times> 's \<Rightarrow> nat \<times> 's" where
  "receive_all es p = fold receive es p"

lemma receive_facts:
  "contents (snd (receive e (n, s))) = contents s @ [e]"
  "goal (snd (receive e (n, s))) = goal s"
  "completed (snd (receive e (n, s))) \<longleftrightarrow>
     completed s \<or> goal s = int (length (contents s)) + 1"
  "fst (receive e (n, s)) =
     (if goal s = int (length (contents s)) + 1 \<and> \<not> completed s then Suc n else n)"
proof -
  define r where "r = try_complete (add e s)"
  have r: "receive e (n, s) = (if fst r then Suc n else n, snd r)"
    by (simp add: receive_def r_def split_beta)
  have "contents (snd r) = contents s @ [e]" "goal (snd r) = goal s"
    "fst r \<longleftrightarrow> goal s = int (length (contents s)) + 1 \<and> \<not> completed s"
    "completed (snd r) \<longleftrightarrow> completed s \<or> fst r"
    unfolding r_def by (simp_all add: collector add.commute)
  then show "contents (snd (receive e (n, s))) = contents s @ [e]"
    "goal (snd (receive e (n, s))) = goal s"
    "completed (snd (receive e (n, s))) \<longleftrightarrow> completed s \<or> goal s = int (length (contents s)) + 1"
    "fst (receive e (n, s)) =
       (if goal s = int (length (contents s)) + 1 \<and> \<not> completed s then Suc n else n)"
    by (auto simp: r)
qed

text \<open>
  However many events arrive, the completion fires at most once before the next restart: with
  the event that reaches the goal.
\<close>

lemma receive_all_facts:
  "contents (snd (receive_all es (n, s))) = contents s @ es \<and>
   goal (snd (receive_all es (n, s))) = goal s \<and>
   fst (receive_all es (n, s)) = n +
     (if \<not> completed s \<and> int (length (contents s)) < goal s
         \<and> goal s \<le> int (length (contents s) + length es) then 1 else 0)"
  unfolding receive_all_def
proof (induction es arbitrary: n s)
  case Nil
  then show ?case by simp
next
  case (Cons e es)
  obtain n' s' where r: "receive e (n, s) = (n', s')" by (cases "receive e (n, s)")
  note f = receive_facts [of e n s, unfolded r fst_conv snd_conv]
  have "fold receive (e # es) (n, s) = fold receive es (n', s')" using r by simp
  with Cons.IH [of n' s'] f show ?case by auto
qed

end

interpretation ev: event_collector events_append isCompleteFirstTime events_reset
    events_get ev_expected completeFirstTime
  by unfold_locales
    (auto simp: events_append_def isCompleteFirstTime_def events_reset_def events_get_def)

section \<open>Readiness of the pipelines\<close>

type_synonym pipelines = "(string, bool) gmap"

definition pipelines_running :: string where
  "pipelines_running = ''__lfv_pipelines_running''"

definition newPipelines :: pipelines where
  "newPipelines = []"

definition pipelines_reset :: "string list \<Rightarrow> pipelines \<Rightarrow> pipelines" where
  "pipelines_reset names p =
     fold (\<lambda>name. mput name False) names (mput pipelines_running False [])"

definition setReady :: "string list \<Rightarrow> pipelines \<Rightarrow> pipelines" where
  "setReady names p = fold (\<lambda>name. mput name True) names p"

fun isReady :: "pipelines \<Rightarrow> bool" where
  "isReady [] = True"
| "isReady ((name, ready) # p) = (if \<not> ready then False else isReady p)"

lemma isReady_iff: "isReady p \<longleftrightarrow> (\<forall>(name, ready) \<in> set p. ready)"
  by (induction p rule: isReady.induct) auto

lemma isReady_mget: "mwf p \<Longrightarrow> isReady p \<longleftrightarrow> (\<forall>name. mget p name \<noteq> Some False)"
  unfolding isReady_iff by (auto simp: mget_in [symmetric]) (metis (full_types))

lemma mget_pipelines_reset:
  "mget (pipelines_reset names p) name =
     (if name = pipelines_running \<or> name \<in> set names then Some False else None)"
  by (auto simp: pipelines_reset_def mp.get_fold_put map_simps)

lemma mwf_pipelines_reset: "mwf (pipelines_reset names p)"
  unfolding pipelines_reset_def by (intro mp.wf_fold_put mwf_mput mwf_Nil)

lemma mget_setReady:
  "mget (setReady names p) name = (if name \<in> set names then Some True else mget p name)"
  by (simp add: setReady_def mp.get_fold_put)

lemma mwf_setReady: "mwf p \<Longrightarrow> mwf (setReady names p)"
  unfolding setReady_def by (rule mp.wf_fold_put)

lemma setReady_append: "setReady (xs @ ys) p = setReady ys (setReady xs p)"
  by (simp add: setReady_def)

section \<open>Properties\<close>

text \<open>
  After a reset, the pipelines are ready exactly when every registered pipeline and the
  marker "pipelines running" have been reported, in whatever calls and order the reports
  arrive; reports of other pipelines make no difference.
\<close>

theorem pipelines_ready_iff:
  "isReady (fold setReady reports (pipelines_reset names p)) \<longleftrightarrow>
     insert pipelines_running (set names) \<subseteq> set (concat reports)"
proof -
  have "fold setReady reports q = setReady (concat reports) q" for q
    by (induction reports arbitrary: q) (simp_all add: setReady_append setReady_def)
  moreover have "mwf (setReady (concat reports) (pipelines_reset names p))"
    by (intro mwf_setReady mwf_pipelines_reset)
  ultimately show ?thesis
    by (auto simp: isReady_mget mget_setReady mget_pipelines_reset split: if_splits)
qed

end
