(* ===== verification/Go_Path.thy ===== *)
theory Go_Path
  imports Go_Strings
begin

text \<open>
  The functions of Go's package \<open>path/filepath\<close> on a Unix system that the program calls:
  lexical cleaning, joining, and taking a path apart.
\<close>

fun clean_elems :: "bool \<Rightarrow> string list \<Rightarrow> string list \<Rightarrow> string list" where
  "clean_elems rooted out [] = rev out"
| "clean_elems rooted out (e # es) =
     (if e = [] \<or> e = ''.'' then clean_elems rooted out es
      else if e = ''..'' then
        (case out of
           [] \<Rightarrow> if rooted then clean_elems rooted [] es else clean_elems rooted [''..''] es
         | o1 # out' \<Rightarrow>
             if o1 = ''..'' then clean_elems rooted (''..'' # out) es
             else clean_elems rooted out' es)
      else clean_elems rooted (e # out) es)"

definition isAbs :: "string \<Rightarrow> bool" where
  "isAbs p = has_prefix p ''/''"

definition clean :: "string \<Rightarrow> string" where
  "clean p =
     (let body = join ''/'' (clean_elems (isAbs p) [] (split_on (CHR ''/'') p))
      in if isAbs p then CHR ''/'' # body else if body = [] then ''.'' else body)"

definition path_join :: "string list \<Rightarrow> string" where
  "path_join es = (case dropWhile (\<lambda>e. e = []) es of [] \<Rightarrow> [] | r \<Rightarrow> clean (join ''/'' r))"

definition path_dir :: "string \<Rightarrow> string" where
  "path_dir p = clean (rev (dropWhile (\<lambda>c. c \<noteq> CHR ''/'') (rev p)))"

definition path_base :: "string \<Rightarrow> string" where
  "path_base p =
     (if p = [] then ''.''
      else (let q = dropWhile (\<lambda>c. c = CHR ''/'') (rev p)
            in if q = [] then ''/'' else rev (takeWhile (\<lambda>c. c \<noteq> CHR ''/'') q)))"

text \<open>The extension with its dot: from the last dot after the last slash.\<close>

definition path_ext :: "string \<Rightarrow> string" where
  "path_ext p =
     (let f = takeWhile (\<lambda>c. c \<noteq> CHR ''/'') (rev p)
      in if CHR ''.'' \<in> set f then rev (takeWhile (\<lambda>c. c \<noteq> CHR ''.'') f @ ''.'') else [])"

definition plain_elem :: "string \<Rightarrow> bool" where
  "plain_elem e \<longleftrightarrow> e \<noteq> [] \<and> e \<noteq> ''.'' \<and> e \<noteq> ''..'' \<and> CHR ''/'' \<notin> set e"

lemma clean_elems_plain:
  "\<forall>e \<in> set es. plain_elem e \<Longrightarrow> clean_elems rooted out es = rev out @ es"
  by (induction es arbitrary: out) (auto simp: plain_elem_def)

text \<open>
  An absolute directory path whose elements are plain; joining a plain name to it appends
  the name after a slash.
\<close>

definition plain_dir :: "string \<Rightarrow> bool" where
  "plain_dir d \<longleftrightarrow> (\<exists>es. es \<noteq> [] \<and> (\<forall>e \<in> set es. plain_elem e) \<and> d = CHR ''/'' # join ''/'' es)"

lemma join_snoc: "es \<noteq> [] \<Longrightarrow> join sep (es @ [e]) = join sep es @ sep @ e"
  by (induction sep es rule: join.induct) auto

lemma join_append: "es \<noteq> [] \<Longrightarrow> fs \<noteq> [] \<Longrightarrow> join sep (es @ fs) = join sep es @ sep @ join sep fs"
  by (induction sep es rule: join.induct) (cases fs; auto)+

lemma clean_plain:
  assumes "es \<noteq> []" and "\<forall>e \<in> set es. plain_elem e"
  shows "clean (CHR ''/'' # join ''/'' es) = CHR ''/'' # join ''/'' es"
proof -
  have "split_on (CHR ''/'') (join ''/'' es) = es"
    using assms by (intro split_on_join) (auto simp: plain_elem_def)
  then show ?thesis using assms
    by (simp add: clean_def isAbs_def has_prefix_def clean_elems_plain)
qed

lemma path_join_plain:
  assumes "plain_dir d" and "plain_elem e"
  shows "path_join [d, e] = d @ CHR ''/'' # e" and "plain_dir (d @ CHR ''/'' # e)"
proof -
  from assms(1) obtain es where es: "es \<noteq> []" "\<forall>e \<in> set es. plain_elem e" "d = CHR ''/'' # join ''/'' es"
    unfolding plain_dir_def by blast
  have eq: "d @ CHR ''/'' # e = CHR ''/'' # join ''/'' (es @ [e])" using es by (simp add: join_snoc)
  have plain: "\<forall>x \<in> set (es @ [e]). plain_elem x" using es assms(2) by simp
  show "path_join [d, e] = d @ CHR ''/'' # e"
    using clean_plain [OF _ plain] eq es(3) by (simp add: path_join_def)
  show "plain_dir (d @ CHR ''/'' # e)"
    unfolding plain_dir_def using eq plain by (intro exI [of _ "es @ [e]"]) simp
qed

lemma path_join3_plain:
  assumes "plain_dir d" and "plain_elem e" and "plain_elem f"
  shows "path_join [d, e, f] = d @ CHR ''/'' # e @ CHR ''/'' # f" and "plain_dir (path_join [d, e, f])"
proof -
  from assms(1) obtain es where es: "es \<noteq> []" "\<forall>e \<in> set es. plain_elem e" "d = CHR ''/'' # join ''/'' es"
    unfolding plain_dir_def by blast
  have "join ''/'' ((es @ [e]) @ [f]) = join ''/'' (es @ [e]) @ ''/'' @ f" by (rule join_snoc) simp
  then have eq: "d @ CHR ''/'' # e @ CHR ''/'' # f = CHR ''/'' # join ''/'' (es @ [e, f])"
    using es by (simp add: join_snoc)
  have plain: "\<forall>x \<in> set (es @ [e, f]). plain_elem x" using es assms(2,3) by simp
  show *: "path_join [d, e, f] = d @ CHR ''/'' # e @ CHR ''/'' # f"
    using clean_plain [OF _ plain] eq es(3) by (simp add: path_join_def)
  show "plain_dir (path_join [d, e, f])"
    unfolding * plain_dir_def using eq plain by (intro exI [of _ "es @ [e, f]"]) simp
qed

end
