(* ===== verification/Pipeline_Type.thy ===== *)
theory Pipeline_Type
  imports Field_Values Go_Path
begin

text \<open>
  The entry of a \<open>pipelines.yml\<close> file, \<open>internal/daemon/pipeline/pipeline.go\<close>. The optional
  nested maps \<open>Path\<close> and \<open>Pipeline\<close> hold what the YAML decoder found under those keys.
\<close>

record pipeline =
  p_ID :: string
  p_Config :: string
  p_Ordered :: string
  p_Workers :: int
  p_Path :: fields
  p_Pipeline :: fields

definition mk_pipeline :: "string \<Rightarrow> string \<Rightarrow> int \<Rightarrow> pipeline" where
  "mk_pipeline i c w = \<lparr>p_ID = i, p_Config = c, p_Ordered = [], p_Workers = w, p_Path = [], p_Pipeline = []\<rparr>"

text \<open>
  \<open>processNestedKeys\<close>: a string under \<open>path: config\<close> or \<open>pipeline: id\<close> replaces the flat key.
\<close>

definition nested_string :: "string \<Rightarrow> fields \<Rightarrow> string \<Rightarrow> string" where
  "nested_string key m old =
     (case mget m key of Some (VString val) \<Rightarrow> val | _ \<Rightarrow> old)"

definition processNestedKeys :: "pipeline list \<Rightarrow> pipeline list" where
  "processNestedKeys ps =
     map (\<lambda>p. p\<lparr>p_Config := nested_string ''config'' (p_Path p) (p_Config p),
                p_ID := nested_string ''id'' (p_Pipeline p) (p_ID p)\<rparr>) ps"

end
