(* ===== verification/Go_Template.thy ===== *)
theory Go_Template
  imports Go_Strings Go_Path
begin

text \<open>
  \<open>internal/daemon/template/template.go\<close>: expanding a template into a file. Of the standard
  library's \<open>text/template\<close> the program uses the action that inserts a field of the data,
  written with one blank on each side; a field that the data does not have is an error of the
  execution. The files written are a Go map from path to contents.
\<close>

type_synonym file_map = "(string, string) gmap"

definition open_action :: string where
  "open_action = ''{{ .''"

definition close_action :: string where
  "close_action = '' }}''"

function expand :: "(string \<times> string) list \<Rightarrow> string \<Rightarrow> string result" where
  "expand data s =
     (case s of
        [] \<Rightarrow> Ok []
      | c # t \<Rightarrow>
          if has_prefix s open_action then
            (let body = drop (length open_action) s;
                 name = takeWhile (\<lambda>x. x \<noteq> CHR '' '') body;
                 rest = dropWhile (\<lambda>x. x \<noteq> CHR '' '') body
             in if has_prefix rest close_action then
                  (case map_of data name of
                     None \<Rightarrow> Err (Ext ''template: no such field'')
                   | Some v \<Rightarrow>
                       rbind (expand data (drop (length close_action) rest)) (\<lambda>r. Ok (v @ r)))
                else Err (Ext ''template: unexpected action''))
          else rbind (expand data t) (\<lambda>r. Ok (c # r)))"
  by pat_completeness auto
termination
proof (relation "measure (\<lambda>(data, s). length s)", goal_cases)
  case (2 data s c t body name rest)
  have "length rest \<le> length body"
    using 2(5) length_dropWhile_le [of "\<lambda>x. x \<noteq> CHR '' ''" body] by blast
  moreover have "length body < length s" using 2 by (simp add: open_action_def)
  ultimately show ?case by simp
qed auto

declare expand.simps [simp del]

text \<open>
  \<open>ToFile\<close>: an error of the expansion or of the write leaves the files as they were; \<open>werr\<close> is
  the error, if any, that the operating system reports for a write to a path.
\<close>

definition ToFile :: "(string \<Rightarrow> gerror option) \<Rightarrow> string \<Rightarrow> string \<Rightarrow> (string \<times> string) list
    \<Rightarrow> file_map \<Rightarrow> file_map result" where
  "ToFile werr filename templateContent data files =
     rbind (expand data templateContent) (\<lambda>b. check (werr filename) (mput filename b files))"

text \<open>A text without an action, and one with a single action, expand as expected.\<close>

fun no_action :: "string \<Rightarrow> bool" where
  "no_action [] = True"
| "no_action (c # s) = (\<not> has_prefix (c # s) ''{{'' \<and> no_action s)"

lemma expand_Nil [simp]: "expand data [] = Ok []"
  by (simp add: expand.simps)

lemma has_prefix_open: "\<not> has_prefix s ''{{'' \<Longrightarrow> \<not> has_prefix s open_action"
  by (auto simp: has_prefix_iff open_action_def)

lemma expand_no_action: "no_action s \<Longrightarrow> expand data s = Ok s"
proof (induction s)
  case (Cons c s)
  then show ?case by (subst expand.simps) (auto dest: has_prefix_open)
qed simp

text \<open>A literal part before an action is copied, and an action is replaced by its field.\<close>

fun lit_ok :: "string \<Rightarrow> bool" where
  "lit_ok [] = True"
| "lit_ok (c # s) = (\<not> (c = CHR ''{'' \<and> (s = [] \<or> hd s = CHR ''{'')) \<and> lit_ok s)"

lemma expand_lit:
  "lit_ok lit \<Longrightarrow> expand data (lit @ t) = rbind (expand data t) (\<lambda>r. Ok (lit @ r))"
proof (induction lit)
  case Nil
  then show ?case by (cases "expand data t") simp_all
next
  case (Cons c lit)
  have "\<not> has_prefix (c # lit @ t) open_action"
    using Cons.prems by (cases lit) (auto simp: has_prefix_def open_action_def)
  with Cons show ?case by (subst expand.simps) (simp add: rbind_assoc)
qed

lemma expand_action:
  assumes "CHR '' '' \<notin> set name" and "map_of data name = Some v"
  shows "expand data (open_action @ name @ close_action @ rest) = rbind (expand data rest) (\<lambda>r. Ok (v @ r))"
proof -
  obtain c cs where hd: "open_action @ name @ close_action @ rest = c # cs"
    by (simp add: open_action_def)
  have t: "takeWhile (\<lambda>x. x \<noteq> CHR '' '') (name @ close_action @ rest) = name"
    "dropWhile (\<lambda>x. x \<noteq> CHR '' '') (name @ close_action @ rest) = close_action @ rest"
    using assms(1) by (auto simp: close_action_def takeWhile_append dropWhile_append)
  have d: "drop (length open_action) (open_action @ name @ close_action @ rest) = name @ close_action @ rest"
    "drop (length close_action) (close_action @ rest) = rest"
    by simp_all
  show ?thesis
    by (subst expand.simps) (simp only: hd list.case, simp only: hd [symmetric],
      simp add: d t assms(2))
qed

lemma ToFile_Ok:
  "ToFile werr filename t data files = Ok files' \<longleftrightarrow>
     (\<exists>b. expand data t = Ok b \<and> werr filename = None \<and> files' = mput filename b files)"
  by (auto simp: ToFile_def)

end
