(* ===== verification/Logstash_Controller.thy ===== *)
theory Logstash_Controller
  imports State_Machine Event_Store Pipeline_Type Go_Template
begin

text \<open>
  The controller of one Logstash instance, \<open>internal/daemon/controller/controller.go\<close> with
  \<open>files.go\<close>. Its methods are called by several goroutines: the gRPC handlers of a session, the
  stdout and log readers of the instance, and the goroutines that \<open>checkComplete\<close> starts. A
  method is therefore a sequence of atomic steps on the shared controller; a thread is the
  point that a call has reached (\<open>pc\<close>), and one step of it is \<open>ctl_step\<close>.
\<close>

section \<open>The files of an instance\<close>

definition LogstashInstanceDirectoryPrefix :: string where
  "LogstashInstanceDirectoryPrefix = ''logstash-instance''"

definition logstashConfig :: string where
  \<open>logstashConfig = ''
pipeline.unsafe_shutdown: true
''\<close>

definition log4j2Config :: string where
  \<open>log4j2Config = ''status = error
name = LogstashPropertiesConfig

appender.json_file.type = File
appender.json_file.name = json_file
appender.json_file.fileName = {{ .WorkDir }}/logstash.log
appender.json_file.layout.type = JSONLayout
appender.json_file.layout.compact = true
appender.json_file.layout.eventEol = true

rootLogger.level = ${sys:ls.log.level}
rootLogger.appenderRef.console.ref = json_file
''\<close>

definition stdinPipeline :: string where
  \<open>stdinPipeline = ''input { stdin {} }
output { stdout { } }
''\<close>

definition ctl_outputPipeline :: string where
  \<open>ctl_outputPipeline = ''input {
  pipeline {
    address => __lfv_output
  }
}
filter {
  mutate {
    copy => {
      "[@metadata]" => "[__lfv_metadata]"
    }
  }
}
output {
  stdout {
    codec => json_lines
  }
}
''\<close>

definition basePipelines :: "string \<Rightarrow> pipeline list" where
  "basePipelines workDir =
     [mk_pipeline ''stdin'' (path_join [workDir, ''stdin.conf'']) 1,
      mk_pipeline ''output'' (path_join [workDir, ''output.conf'']) 1]"

section \<open>The controller\<close>

record ctrl =
  c_id :: string
  c_workDir :: string
  c_sm :: stateMachine
  c_ordered :: bool
  c_events :: events
  c_pipes :: pipelines
  c_instanceReady :: bool
  c_files :: file_map
  c_reloads :: nat

text \<open>
  What a step may get from outside: whether the timer of a wait has fired, the choice of its
  \<open>select\<close>, and the outcomes of \<open>yaml.Marshal\<close>, of a file write and of the instance's
  \<open>ConfigReload\<close>.
\<close>

record ctl_io =
  io_timer :: bool
  io_choice :: bool
  io_marshal :: "pipeline list \<Rightarrow> string result"
  io_write :: "string \<Rightarrow> gerror option"
  io_reload :: "gerror option"

definition all_pipelines :: "ctrl \<Rightarrow> pipeline list \<Rightarrow> pipeline list" where
  "all_pipelines c ps =
     (if c_ordered c then map (\<lambda>p. p\<lparr>p_Ordered := ''true''\<rparr>) (basePipelines (c_workDir c))
      else basePipelines (c_workDir c)) @ ps"

definition writePipelines :: "ctl_io \<Rightarrow> pipeline list \<Rightarrow> ctrl \<Rightarrow> ctrl result" where
  "writePipelines io ps c =
     rbind (io_marshal io (all_pipelines c ps)) (\<lambda>body.
       (let file = path_join [c_workDir c, ''pipelines.yml'']
        in check (io_write io file) (c\<lparr>c_files := mput file body (c_files c)\<rparr>)))"

definition instance_templates :: "(string \<times> string) list" where
  "instance_templates =
     [(''logstash.yml'', logstashConfig), (''log4j2.properties'', log4j2Config),
      (''stdin.conf'', stdinPipeline), (''output.conf'', ctl_outputPipeline)]"

text \<open>\<open>ident\<close> is the random identifier; \<open>order\<close> is \<open>instance_templates\<close> in the order in which that map
  is visited. The state machine is nil until \<open>Launch\<close>, which runs before any other method.\<close>

definition NewController :: "ctl_io \<Rightarrow> gerror option \<Rightarrow> string \<Rightarrow> string \<Rightarrow> bool
    \<Rightarrow> (string \<times> string) list \<Rightarrow> ctrl result" where
  "NewController io mkdirErr ident baseDir ordered order =
     (let workDir = path_join [baseDir, LogstashInstanceDirectoryPrefix, ident]
      in rbind (check mkdirErr ()) (\<lambda>_.
         rbind (each (\<lambda>(filename, tmpl). ToFile (io_write io) (path_join [workDir, filename]) tmpl
                  [(''WorkDir'', workDir)]) order []) (\<lambda>files.
         writePipelines io []
           \<lparr>c_id = ident, c_workDir = workDir, c_sm = newStateMachine False, c_ordered = ordered,
            c_events = newEvents, c_pipes = newPipelines, c_instanceReady = False,
            c_files = files, c_reloads = 0\<rparr>)))"

text \<open>
  \<open>Launch\<close> runs before any other method; \<open>startErr\<close> is the outcome of the instance's \<open>Start\<close> and
  \<open>ctxDone\<close> whether the context it is given is done.
\<close>

definition Launch :: "bool \<Rightarrow> gerror option \<Rightarrow> ctrl \<Rightarrow> gerror option \<times> ctrl" where
  "Launch ctxDone startErr c =
     (startErr, c\<lparr>c_pipes := pipelines_reset [''stdin'', ''output''] (c_pipes c),
                  c_sm := executeCommand commandStart (newStateMachine ctxDone)\<rparr>)"

definition Kill :: "ctrl \<Rightarrow> ctrl" where
  "Kill c = c\<lparr>c_sm := (c_sm c)\<lparr>sm_done := True\<rparr>\<rparr>"

definition IsHealthy :: "ctrl \<Rightarrow> bool" where
  "IsHealthy c \<longleftrightarrow> getState (c_sm c) \<noteq> stateUnknown"

section \<open>The methods as sequences of steps\<close>

fun state_name :: "stateName \<Rightarrow> string" where
  "state_name stateUnknown = ''unknown''"
| "state_name stateCreated = ''created''"
| "state_name stateStarted = ''started''"
| "state_name stateReady = ''ready''"
| "state_name stateSettingUpTest = ''setting_up_test''"
| "state_name stateReadyForTest = ''ready_for_test''"
| "state_name stateExecutingTest = ''executing_test''"
| "state_name stateRunningTest = ''running_test''"

fun wait_gerror :: "wait_error \<Rightarrow> gerror" where
  "wait_gerror (Shutdown t) = Errorf ''shutdown while waiting for state: %s'' [state_name t]"
| "wait_gerror (TimedOut t) = Errorf ''timed out while waiting for state: %s'' [state_name t]"
| "wait_gerror (StateUnknown t) = Errorf ''state unknown, failed to wait for state: %s'' [state_name t]"

datatype outcome =
    Returned "gerror option"
  | Results "string list" "gerror option"

datatype pc =
    SetupTest_wait "pipeline list"
  | SetupTest_cmd "pipeline list"
  | ExecuteTest_wait "pipeline list" int
  | ExecuteTest_cmd "pipeline list" int
  | Teardown_wait
  | Teardown_cmd
  | Reload_write "pipeline list" int
  | Reload_events "pipeline list" int
  | Reload_pipelines "pipeline list"
  | Reload_signal
  | GetResults_check
  | GetResults_wait
  | GetResults_get "gerror option"
  | Receive_append string
  | Receive_check
  | PipelinesReady_set "string list"
  | PipelinesReady_test
  | PipelinesReady_cmd
  | Complete_wait
  | Complete_cmd
  | Crash_cmd
  | Crash_kill
  | Finished outcome

text \<open>The wait: \<open>stay\<close> while blocked, then \<open>ok\<close> or \<open>bad\<close> with the error.\<close>

definition wait_step :: "ctl_io \<Rightarrow> stateName \<Rightarrow> pc \<Rightarrow> pc \<Rightarrow> (gerror \<Rightarrow> pc) \<Rightarrow> ctrl \<Rightarrow> pc \<times> ctrl" where
  "wait_step io target stay ok bad c =
     (case wait_iteration target (io_timer io) (io_choice io) (c_sm c) of
        (Blocked, s) \<Rightarrow> (stay, c\<lparr>c_sm := s\<rparr>)
      | (Done None, s) \<Rightarrow> (ok, c\<lparr>c_sm := s\<rparr>)
      | (Done (Some e), s) \<Rightarrow> (bad (wait_gerror e), c\<lparr>c_sm := s\<rparr>))"

abbreviation failed_with :: "gerror \<Rightarrow> pc" where
  "failed_with e \<equiv> Finished (Returned (Some e))"

definition command_step :: "command \<Rightarrow> ctrl \<Rightarrow> ctrl" where
  "command_step cmd c = c\<lparr>c_sm := executeCommand cmd (c_sm c)\<rparr>"

text \<open>\<open>checkComplete\<close>: the goroutine that it starts, if any, and the controller.\<close>

definition checkComplete :: "ctrl \<Rightarrow> pc list \<times> ctrl" where
  "checkComplete c =
     (let (complete, e) = isCompleteFirstTime (c_events c)
      in (if complete then [Complete_wait] else [], c\<lparr>c_events := e\<rparr>))"

text \<open>One step of a thread: its next point, the goroutines it starts, the controller.\<close>

fun ctl_step :: "ctl_io \<Rightarrow> pc \<Rightarrow> ctrl \<Rightarrow> pc \<times> pc list \<times> ctrl" where
  "ctl_step io (SetupTest_wait ps) c =
     (let (pc, c') = wait_step io stateReady (SetupTest_wait ps) (SetupTest_cmd ps) failed_with c
      in (pc, [], c'))"
| "ctl_step io (SetupTest_cmd ps) c = (Reload_write ps 0, [], command_step commandSetupTest c)"
| "ctl_step io (ExecuteTest_wait ps n) c =
     (let (pc, c') = wait_step io stateReadyForTest (ExecuteTest_wait ps n) (ExecuteTest_cmd ps n)
                       failed_with c
      in (pc, [], c'))"
| "ctl_step io (ExecuteTest_cmd ps n) c = (Reload_write ps n, [], command_step commandExecuteTest c)"
| "ctl_step io Teardown_wait c =
     (let (pc, c') = wait_step io stateReadyForTest Teardown_wait Teardown_cmd failed_with c
      in (pc, [], c'))"
| "ctl_step io Teardown_cmd c = (Reload_write [] 0, [], command_step commandTeardown c)"
| "ctl_step io (Reload_write ps n) c =
     (case writePipelines io ps c of
        Ok c' \<Rightarrow> (Reload_events ps n, [], c')
      | Err e \<Rightarrow> (failed_with e, [], c)
      | Panic \<Rightarrow> (failed_with (Ext ''panic''), [], c))"
| "ctl_step io (Reload_events ps n) c =
     (Reload_pipelines ps, [], c\<lparr>c_events := events_reset n (c_events c)\<rparr>)"
| "ctl_step io (Reload_pipelines ps) c =
     (Reload_signal, [], c\<lparr>c_pipes := pipelines_reset (map p_ID ps) (c_pipes c)\<rparr>)"
| "ctl_step io Reload_signal c =
     (Finished (Returned (io_reload io)), [], c\<lparr>c_reloads := Suc (c_reloads c)\<rparr>)"
| "ctl_step io GetResults_check c = (let (new, c') = checkComplete c in (GetResults_wait, new, c'))"
| "ctl_step io GetResults_wait c =
     (let (pc, c') = wait_step io stateReadyForTest GetResults_wait (GetResults_get None)
                       (\<lambda>e. GetResults_get (Some e)) c
      in (pc, [], c'))"
| "ctl_step io (GetResults_get err) c = (Finished (Results (events_get (c_events c)) err), [], c)"
| "ctl_step io (Receive_append event) c =
     (Receive_check, [], c\<lparr>c_events := events_append event (c_events c)\<rparr>)"
| "ctl_step io Receive_check c =
     (let (new, c') = checkComplete c in (Finished (Returned None), new, c'))"
| "ctl_step io (PipelinesReady_set names) c =
     (PipelinesReady_test, [], c\<lparr>c_pipes := setReady names (c_pipes c)\<rparr>)"
| "ctl_step io PipelinesReady_test c =
     (if isReady (c_pipes c) then PipelinesReady_cmd else Finished (Returned None), [], c)"
| "ctl_step io PipelinesReady_cmd c =
     (Finished (Returned None), [], command_step commandPipelineReady (c\<lparr>c_instanceReady := True\<rparr>))"
| "ctl_step io Complete_wait c =
     (let (pc, c') = wait_step io stateRunningTest Complete_wait Complete_cmd (\<lambda>_. Complete_cmd) c
      in (pc, [], c'))"
| "ctl_step io Complete_cmd c = (Finished (Returned None), [], command_step commandTestComplete c)"
| "ctl_step io Crash_cmd c = (Crash_kill, [], command_step commandCrash c)"
| "ctl_step io Crash_kill c = (Finished (Returned None), [], Kill c)"
| "ctl_step io (Finished r) c = (Finished r, [], c)"

text \<open>The first step of each method.\<close>

definition is_call :: "pc \<Rightarrow> bool" where
  "is_call pc \<longleftrightarrow> (case pc of
      SetupTest_wait _ \<Rightarrow> True | ExecuteTest_wait _ _ \<Rightarrow> True | Teardown_wait \<Rightarrow> True
    | GetResults_check \<Rightarrow> True | Receive_append _ \<Rightarrow> True | PipelinesReady_set _ \<Rightarrow> True
    | Crash_cmd \<Rightarrow> True | Crash_kill \<Rightarrow> True | _ \<Rightarrow> False)"

section \<open>Interleavings\<close>

text \<open>
  The controller with the calls in progress: any of them makes a step, a new call comes in
  (one that \<open>allowed\<close> admits), or the daemon cancels the controller's context.
\<close>

inductive sys_step :: "(pc \<Rightarrow> bool) \<Rightarrow> ctrl \<times> pc list \<Rightarrow> ctrl \<times> pc list \<Rightarrow> bool"
  for allowed :: "pc \<Rightarrow> bool" where
  thread: "i < length ths \<Longrightarrow> ctl_step io (ths ! i) c = (pc', new, c') \<Longrightarrow>
     sys_step allowed (c, ths) (c', ths[i := pc'] @ new)"
| call: "is_call pc \<Longrightarrow> allowed pc \<Longrightarrow> sys_step allowed (c, ths) (c, ths @ [pc])"
| cancel: "sys_step allowed (c, ths) (Kill c, ths)"

inductive sys_reach :: "(pc \<Rightarrow> bool) \<Rightarrow> ctrl \<times> pc list \<Rightarrow> ctrl \<times> pc list \<Rightarrow> bool"
  for allowed :: "pc \<Rightarrow> bool" where
  refl: "sys_reach allowed s s"
| step: "sys_reach allowed s t \<Longrightarrow> sys_step allowed t u \<Longrightarrow> sys_reach allowed s u"

text \<open>The relation as a program: a schedule of thread steps, calls and cancellations is played.\<close>

datatype move = Run nat | Call pc | Cancel

fun play :: "(pc \<Rightarrow> bool) \<Rightarrow> ctl_io \<Rightarrow> move list \<Rightarrow> ctrl \<times> pc list \<Rightarrow> (ctrl \<times> pc list) option" where
  "play allowed io [] s = Some s"
| "play allowed io (Run i # ms) (c, ths) =
     (if i < length ths
      then (case ctl_step io (ths ! i) c of (pc', new, c') \<Rightarrow>
              play allowed io ms (c', ths[i := pc'] @ new))
      else None)"
| "play allowed io (Call pc # ms) (c, ths) =
     (if is_call pc \<and> allowed pc then play allowed io ms (c, ths @ [pc]) else None)"
| "play allowed io (Cancel # ms) (c, ths) = play allowed io ms (Kill c, ths)"

lemma sys_reach_trans: "sys_reach allowed t u \<Longrightarrow> sys_reach allowed s t \<Longrightarrow> sys_reach allowed s u"
  by (induction rule: sys_reach.induct) (auto intro: sys_reach.step)

lemma play_reach: "play allowed io ms s = Some t \<Longrightarrow> sys_reach allowed s t"
proof (induction allowed io ms s rule: play.induct)
  case (2 allowed io i ms c ths)
  obtain pc' new c' where st: "ctl_step io (ths ! i) c = (pc', new, c')" by (cases "ctl_step io (ths ! i) c")
  with 2 have i: "i < length ths" and "sys_reach allowed (c', ths[i := pc'] @ new) t"
    by (auto split: if_splits)
  moreover have "sys_step allowed (c, ths) (c', ths[i := pc'] @ new)"
    by (rule sys_step.thread [OF i st])
  ultimately show ?case by (meson sys_reach.refl sys_reach.step sys_reach_trans)
next
  case (3 allowed io pc ms c ths)
  then have "is_call pc" "allowed pc" "sys_reach allowed (c, ths @ [pc]) t" by (auto split: if_splits)
  then show ?case by (meson sys_reach.refl sys_reach.step sys_reach_trans sys_step.call)
next
  case (4 allowed io ms c ths)
  then have "sys_reach allowed (Kill c, ths) t" by simp
  then show ?case by (meson sys_reach.refl sys_reach.step sys_reach_trans sys_step.cancel)
qed (auto intro: sys_reach.refl)

text \<open>One call executed alone, at most \<open>fuel\<close> steps; the methods need at most six.\<close>

fun run_thread :: "nat \<Rightarrow> ctl_io \<Rightarrow> pc \<Rightarrow> ctrl \<Rightarrow> pc \<times> pc list \<times> ctrl" where
  "run_thread 0 io pc c = (pc, [], c)"
| "run_thread (Suc fuel) io pc c =
     (case ctl_step io pc c of (pc1, new, c1) \<Rightarrow>
       (case run_thread fuel io pc1 c1 of (pc2, new2, c2) \<Rightarrow> (pc2, new @ new2, c2)))"


text \<open>Calls executed one after the other, each alone; the goroutines they start are collected.\<close>

fun run_calls :: "ctl_io \<Rightarrow> pc list \<Rightarrow> ctrl \<Rightarrow> pc list \<times> ctrl" where
  "run_calls io [] c = ([], c)"
| "run_calls io (pc # pcs) c =
     (case run_thread 6 io pc c of (_, new, c1) \<Rightarrow>
       (case run_calls io pcs c1 of (new2, c2) \<Rightarrow> (new @ new2, c2)))"

section \<open>What a step does to the state machine\<close>

fun command_of :: "pc \<Rightarrow> command option" where
  "command_of (SetupTest_cmd _) = Some commandSetupTest"
| "command_of (ExecuteTest_cmd _ _) = Some commandExecuteTest"
| "command_of Teardown_cmd = Some commandTeardown"
| "command_of PipelinesReady_cmd = Some commandPipelineReady"
| "command_of Complete_cmd = Some commandTestComplete"
| "command_of Crash_cmd = Some commandCrash"
| "command_of _ = None"

abbreviation c_state :: "ctrl \<Rightarrow> stateName" where
  "c_state c \<equiv> currentState (c_sm c)"

lemma wait_step_cases:
  assumes "wait_step io target stay ok bad c = (pc, c')"
  obtains (blocked) "pc = stay" "c' = c" "c_state c \<noteq> target" "\<not> io_timer io"
  | (ok) "pc = ok" "c' = c" "c_state c = target"
  | (bad) e where "pc = bad e" "c' = c" "c_state c \<noteq> target"
  | (timeout) e where "pc = bad e" "c' = c\<lparr>c_sm := (c_sm c)\<lparr>currentState := stateUnknown\<rparr>\<rparr>"
      "c_state c \<noteq> target" "io_timer io"
  using assms by (auto simp: wait_step_def wait_iteration_def split: if_splits)

lemma wait_step_now:
  "c_state c = target \<Longrightarrow> wait_step io target stay ok bad c = (ok, c)"
  by (simp add: wait_step_def wait_iteration_def)

lemma writePipelines_Ok:
  "writePipelines io ps c = Ok c' \<Longrightarrow> \<exists>body. io_marshal io (all_pipelines c ps) = Ok body \<and>
     c' = c\<lparr>c_files := mput (path_join [c_workDir c, ''pipelines.yml'']) body (c_files c)\<rparr>"
  by (auto simp: writePipelines_def Let_def)

lemma checkComplete_cases:
  obtains (complete) "checkComplete c = ([Complete_wait], c\<lparr>c_events := (c_events c)\<lparr>completeFirstTime := True\<rparr>\<rparr>)"
      "ev_expected (c_events c) = int (length (ev_events (c_events c)))" "\<not> completeFirstTime (c_events c)"
  | (not_complete) "checkComplete c = ([], c)"
      "ev_expected (c_events c) \<noteq> int (length (ev_events (c_events c))) \<or> completeFirstTime (c_events c)"
  by (cases "ev_expected (c_events c) = int (length (ev_events (c_events c))) \<and> \<not> completeFirstTime (c_events c)")
     (auto simp: checkComplete_def isCompleteFirstTime_def)

text \<open>
  Every step leaves the state as it is, follows the command that its point issues along the
  table, or times out into the unknown state.
\<close>

lemma ctl_step_edge:
  assumes "ctl_step io pc c = (pc', new, c')"
  shows "c_state c' = c_state c \<or> (c_state c' = stateUnknown \<and> io_timer io) \<or>
    (\<exists>cmd. command_of pc = Some cmd \<and> sm_step (c_state c) cmd (c_state c'))"
proof -
  have w: "c_state (snd (wait_step io target stay ok bad c)) = stateUnknown \<and> io_timer io"
    if "c_state (snd (wait_step io target stay ok bad c)) \<noteq> c_state c" for target stay ok bad
    using that by (auto simp: wait_step_def wait_iteration_def split: if_splits)
  have cmd: "sm_step (c_state c) cmd (c_state (command_step cmd d))" if "c_sm d = c_sm c" for cmd d
    using sm_step_executeCommand [of "c_sm c" cmd] that by (simp add: command_step_def)
  have cc: "c_sm (snd (checkComplete c)) = c_sm c"
    by (cases rule: checkComplete_cases [of c]) auto
  from assms show ?thesis
  proof (cases pc)
    case (Reload_write ps n)
    with assms show ?thesis
      by (cases "writePipelines io ps c") (auto dest: writePipelines_Ok)
  qed (use assms cmd cc in \<open>auto simp: split_beta Kill_def dest: w\<close>)
qed

lemma IsHealthy_iff: "IsHealthy c \<longleftrightarrow> c_state c \<noteq> stateUnknown"
  by (simp add: IsHealthy_def getState_def)

lemma sm_step_unknown: "sm_step stateUnknown cmd st \<Longrightarrow> st = stateUnknown"
  by (auto simp: sm_step_iff)

lemma sys_step_unknown:
  "sys_step allowed s t \<Longrightarrow> c_state (fst s) = stateUnknown \<Longrightarrow> c_state (fst t) = stateUnknown"
proof (induction rule: sys_step.induct)
  case (thread i ths io c pc' new c')
  from ctl_step_edge [OF thread(2)] thread show ?case by (auto dest: sm_step_unknown)
qed (auto simp: Kill_def)

lemma sys_reach_unknown:
  "sys_reach allowed s t \<Longrightarrow> c_state (fst s) = stateUnknown \<Longrightarrow> c_state (fst t) = stateUnknown"
  by (induction rule: sys_reach.induct) (auto dest: sys_step_unknown)

section \<open>One call alone\<close>

text \<open>An environment in which nothing fails and no timer fires.\<close>

definition all_ok :: "ctl_io \<Rightarrow> bool" where
  "all_ok io \<longleftrightarrow> (\<forall>ps. is_ok (io_marshal io ps)) \<and> (\<forall>f. io_write io f = None) \<and>
     io_reload io = None \<and> \<not> io_timer io"

definition calm_io :: ctl_io where
  "calm_io = \<lparr>io_timer = False, io_choice = False, io_marshal = \<lambda>_. Ok [],
     io_write = \<lambda>_. None, io_reload = None\<rparr>"

lemma all_ok_calm_io [simp]: "all_ok calm_io"
  by (simp add: all_ok_def calm_io_def)

lemma all_ok_write:
  "all_ok io \<Longrightarrow> \<exists>body. writePipelines io ps c =
     Ok (c\<lparr>c_files := mput (path_join [c_workDir c, ''pipelines.yml'']) body (c_files c)\<rparr>)"
  by (auto simp: all_ok_def writePipelines_def is_ok_iff check_def Let_def)
     (metis rbind.simps(1))

lemma run_thread_Finished [simp]: "run_thread fuel io (Finished r) c = (Finished r, [], c)"
  by (induction fuel) auto

lemma run_thread_two:
  assumes "ctl_step io pc c = (pc1, [], c1)" and "ctl_step io pc1 c1 = (pc2, [], c2)"
  shows "run_thread 6 io pc c = run_thread 4 io pc2 c2"
proof -
  have six: "(6::nat) = Suc (Suc 4)" by simp
  show ?thesis unfolding six using assms by (simp only: run_thread.simps prod.case append_Nil) (simp add: split_beta)
qed

lemma run_reload:
  assumes "all_ok io"
  shows "\<exists>fs. run_thread 4 io (Reload_write ps n) c =
    (Finished (Returned None), [],
     c\<lparr>c_files := fs, c_events := events_reset n (c_events c),
       c_pipes := pipelines_reset (map p_ID ps) (c_pipes c), c_reloads := Suc (c_reloads c)\<rparr>)"
proof -
  obtain body where "writePipelines io ps c =
     Ok (c\<lparr>c_files := mput (path_join [c_workDir c, ''pipelines.yml'']) body (c_files c)\<rparr>)"
    using all_ok_write [OF assms] by blast
  then show ?thesis using assms by (auto simp: eval_nat_numeral all_ok_def)
qed

lemma run_SetupTest:
  assumes "all_ok io" and "c_state c = stateReady"
  shows "\<exists>fs. run_thread 6 io (SetupTest_wait ps) c =
    (Finished (Returned None), [],
     c\<lparr>c_sm := (c_sm c)\<lparr>currentState := stateSettingUpTest\<rparr>, c_files := fs,
       c_events := events_reset 0 (c_events c),
       c_pipes := pipelines_reset (map p_ID ps) (c_pipes c), c_reloads := Suc (c_reloads c)\<rparr>)"
proof -
  let ?c = "c\<lparr>c_sm := (c_sm c)\<lparr>currentState := stateSettingUpTest\<rparr>\<rparr>"
  have "run_thread 6 io (SetupTest_wait ps) c = run_thread 4 io (Reload_write ps 0) ?c"
    by (rule run_thread_two [of _ _ _ "SetupTest_cmd ps" c])
       (use assms in \<open>simp_all add: wait_step_now command_step_def executeCommand_def\<close>)
  with run_reload [OF assms(1), of ps 0 ?c] show ?thesis by auto
qed

lemma run_ExecuteTest:
  assumes "all_ok io" and "c_state c = stateReadyForTest"
  shows "\<exists>fs. run_thread 6 io (ExecuteTest_wait ps n) c =
    (Finished (Returned None), [],
     c\<lparr>c_sm := (c_sm c)\<lparr>currentState := stateExecutingTest\<rparr>, c_files := fs,
       c_events := events_reset n (c_events c),
       c_pipes := pipelines_reset (map p_ID ps) (c_pipes c), c_reloads := Suc (c_reloads c)\<rparr>)"
proof -
  let ?c = "c\<lparr>c_sm := (c_sm c)\<lparr>currentState := stateExecutingTest\<rparr>\<rparr>"
  have "run_thread 6 io (ExecuteTest_wait ps n) c = run_thread 4 io (Reload_write ps n) ?c"
    by (rule run_thread_two [of _ _ _ "ExecuteTest_cmd ps n" c])
       (use assms in \<open>simp_all add: wait_step_now command_step_def executeCommand_def\<close>)
  with run_reload [OF assms(1), of ps n ?c] show ?thesis by auto
qed

lemma run_Teardown:
  assumes "all_ok io" and "c_state c = stateReadyForTest"
  shows "\<exists>fs. run_thread 6 io Teardown_wait c =
    (Finished (Returned None), [],
     c\<lparr>c_sm := (c_sm c)\<lparr>currentState := stateStarted\<rparr>, c_files := fs,
       c_events := events_reset 0 (c_events c),
       c_pipes := pipelines_reset [] (c_pipes c), c_reloads := Suc (c_reloads c)\<rparr>)"
proof -
  let ?c = "c\<lparr>c_sm := (c_sm c)\<lparr>currentState := stateStarted\<rparr>\<rparr>"
  have "run_thread 6 io Teardown_wait c = run_thread 4 io (Reload_write [] 0) ?c"
    by (rule run_thread_two [of _ _ _ "Teardown_cmd" c])
       (use assms in \<open>simp_all add: wait_step_now command_step_def executeCommand_def\<close>)
  with run_reload [OF assms(1), of "[]" 0 ?c] show ?thesis by auto
qed

lemma run_PipelinesReady:
  assumes "insert pipelines_running (set registered) \<subseteq> set names"
    and "c_pipes c = pipelines_reset registered p" and "sm_step (c_state c) commandPipelineReady st"
  shows "run_thread 6 io (PipelinesReady_set names) c =
    (Finished (Returned None), [],
     c\<lparr>c_pipes := setReady names (c_pipes c), c_instanceReady := True,
       c_sm := (c_sm c)\<lparr>currentState := st\<rparr>\<rparr>)"
proof -
  have "isReady (setReady names (pipelines_reset registered p))"
    using assms(1) mwf_setReady [OF mwf_pipelines_reset, of names registered p]
    by (auto simp: isReady_mget mget_setReady mget_pipelines_reset split: if_splits)
  with assms(2,3) show ?thesis
    by (auto simp: eval_nat_numeral command_step_def executeCommand_def sm_step_iff)
qed

text \<open>Received events collect in the store; \<open>new\<close> counts what \<open>checkComplete\<close> starts.\<close>

lemma run_Receive:
  "run_thread 6 io (Receive_append e) c =
     (let (k, s) = ev.receive e (0, c_events c)
      in (Finished (Returned None), replicate k Complete_wait, c\<lparr>c_events := s\<rparr>))"
  by (auto simp: eval_nat_numeral ev.receive_def checkComplete_def split_beta Let_def)

lemma receive_shift: "ev.receive e (k, s) = (k + fst (ev.receive e (0, s)), snd (ev.receive e (0, s)))"
  by (simp add: ev.receive_def split_beta)

lemma receive_all_shift:
  "ev.receive_all es (k, s) = (k + fst (ev.receive_all es (0, s)), snd (ev.receive_all es (0, s)))"
proof (induction es arbitrary: k s)
  case Nil
  then show ?case by (simp add: ev.receive_all_def)
next
  case (Cons e es)
  obtain j t where r: "ev.receive e (0, s) = (j, t)" by fastforce
  have "ev.receive_all (e # es) (k, s) = ev.receive_all es (k + j, t)" for k
    using receive_shift [of e k s] r by (simp add: ev.receive_all_def)
  moreover from this [of 0] have "ev.receive_all (e # es) (0, s) = ev.receive_all es (j, t)" by simp
  ultimately show ?case using Cons.IH [of "k + j" t] Cons.IH [of j t] by simp
qed

lemma run_Receive_all:
  "run_calls io (map Receive_append es) c =
     (let (k, s) = ev.receive_all es (0, c_events c)
      in (replicate k Complete_wait, c\<lparr>c_events := s\<rparr>))"
proof (induction es arbitrary: c)
  case Nil
  then show ?case by (simp add: ev.receive_all_def)
next
  case (Cons e es)
  obtain j t where r: "ev.receive e (0, c_events c) = (j, t)" by fastforce
  have "ev.receive_all (e # es) (0, c_events c) = ev.receive_all es (j, t)"
    using r by (simp add: ev.receive_all_def)
  with Cons.IH [of "c\<lparr>c_events := t\<rparr>"] r receive_all_shift [of es j t] show ?case
    by (simp add: run_Receive split_beta replicate_add Let_def del: run_thread.simps)
qed

lemma run_Complete:
  "c_state c = stateRunningTest \<Longrightarrow> run_thread 6 io Complete_wait c =
     (Finished (Returned None), [], c\<lparr>c_sm := (c_sm c)\<lparr>currentState := stateReadyForTest\<rparr>\<rparr>)"
  by (simp add: wait_step_now command_step_def executeCommand_def eval_nat_numeral)

lemma run_calls_append:
  "run_calls io (xs @ ys) c =
     (let (new, c1) = run_calls io xs c; (new2, c2) = run_calls io ys c1 in (new @ new2, c2))"
  by (induction xs arbitrary: c) (simp_all add: split_beta Let_def)

lemma run_calls_step:
  "run_thread 6 io pc c = (p, [], c1) \<Longrightarrow> run_calls io (pc # pcs) c = run_calls io pcs c1"
  by (simp add: split_beta del: run_thread.simps)

lemma run_GetResults_wait:
  "c_state c = stateReadyForTest \<Longrightarrow>
     run_thread 6 io GetResults_wait c = (Finished (Results (events_get (c_events c)) None), [], c)"
  by (simp add: wait_step_now eval_nat_numeral)

lemma registered_running [simp]: "sm_step stateSettingUpTest commandPipelineReady stateReadyForTest"
  "sm_step stateExecutingTest commandPipelineReady stateRunningTest"
  "sm_step stateStarted commandPipelineReady stateReady"
  by (simp_all add: sm_step_iff)

lemma received_completed:
  "completeFirstTime (snd (ev.receive_all evs (0, events_reset (int (length evs)) e))) \<longleftrightarrow> evs \<noteq> []"
proof (cases evs rule: rev_cases)
  case Nil
  then show ?thesis by (simp add: ev.receive_all_def events_reset_def)
next
  case (snoc xs x)
  let ?r = "ev.receive_all xs (0, events_reset (int (length evs)) e)"
  have r: "events_get (snd ?r) = xs \<and> ev_expected (snd ?r) = int (length evs)"
    using ev.receive_all_facts [of xs 0 "events_reset (int (length evs)) e"]
    by (simp add: events_reset_def events_get_def)
  have "ev.receive_all evs (0, events_reset (int (length evs)) e) = ev.receive x ?r"
    by (simp add: snoc ev.receive_all_def)
  with r ev.receive_facts(3) [of x "fst ?r" "snd ?r"] show ?thesis by (simp add: snoc)
qed

text \<open>Set up, start and collect: the calls of a test up to the last received event.\<close>

lemma run_until_received:
  assumes io: "all_ok io" and ready: "c_state c = stateReady"
    and rep0: "insert pipelines_running (set (map p_ID ps0)) \<subseteq> set setup_names"
    and rep1: "insert pipelines_running (set (map p_ID ps)) \<subseteq> set test_names"
  shows "\<exists>c1. run_calls io ([SetupTest_wait ps0, PipelinesReady_set setup_names,
        ExecuteTest_wait ps n, PipelinesReady_set test_names] @ map Receive_append evs) c =
      (replicate (fst (ev.receive_all evs (0, events_reset n (c_events c)))) Complete_wait, c1) \<and>
     c_events c1 = snd (ev.receive_all evs (0, events_reset n (c_events c))) \<and>
     c_state c1 = stateRunningTest \<and> c_reloads c1 = c_reloads c + 2"
proof -
  obtain fs where s1: "run_thread 6 io (SetupTest_wait ps0) c =
    (Finished (Returned None), [],
     c\<lparr>c_sm := (c_sm c)\<lparr>currentState := stateSettingUpTest\<rparr>, c_files := fs,
       c_events := events_reset 0 (c_events c),
       c_pipes := pipelines_reset (map p_ID ps0) (c_pipes c), c_reloads := Suc (c_reloads c)\<rparr>)"
    (is "_ = (_, _, ?c1)") using run_SetupTest [OF io ready] by blast
  have s2: "run_thread 6 io (PipelinesReady_set setup_names) ?c1 =
    (Finished (Returned None), [],
     ?c1\<lparr>c_pipes := setReady setup_names (c_pipes ?c1), c_instanceReady := True,
       c_sm := (c_sm ?c1)\<lparr>currentState := stateReadyForTest\<rparr>\<rparr>)" (is "_ = (_, _, ?c2)")
    by (rule run_PipelinesReady [OF rep0]) simp_all
  obtain fs2 where s3: "run_thread 6 io (ExecuteTest_wait ps n) ?c2 =
    (Finished (Returned None), [],
     ?c2\<lparr>c_sm := (c_sm ?c2)\<lparr>currentState := stateExecutingTest\<rparr>, c_files := fs2,
       c_events := events_reset n (c_events ?c2),
       c_pipes := pipelines_reset (map p_ID ps) (c_pipes ?c2), c_reloads := Suc (c_reloads ?c2)\<rparr>)"
    (is "_ = (_, _, ?c3)") using run_ExecuteTest [OF io, of ?c2] by auto
  have s4: "run_thread 6 io (PipelinesReady_set test_names) ?c3 =
    (Finished (Returned None), [],
     ?c3\<lparr>c_pipes := setReady test_names (c_pipes ?c3), c_instanceReady := True,
       c_sm := (c_sm ?c3)\<lparr>currentState := stateRunningTest\<rparr>\<rparr>)" (is "_ = (_, _, ?c4)")
    by (rule run_PipelinesReady [OF rep1]) simp_all
  have e: "c_events ?c4 = events_reset n (c_events c)" by (simp add: events_reset_def)
  have "run_calls io ([SetupTest_wait ps0, PipelinesReady_set setup_names,
      ExecuteTest_wait ps n, PipelinesReady_set test_names] @ map Receive_append evs) c =
      run_calls io (map Receive_append evs) ?c4"
    by (simp only: append_Cons append_Nil run_calls_step [OF s1] run_calls_step [OF s2]
        run_calls_step [OF s3] run_calls_step [OF s4])
  then show ?thesis unfolding run_Receive_all e by (simp add: split_beta Let_def)
qed

section \<open>The collecting phase over all interleavings\<close>

text \<open>The calls that may come in while a test's results are collected.\<close>

definition collecting :: "pc \<Rightarrow> bool" where
  "collecting pc \<longleftrightarrow> (case pc of
      GetResults_check \<Rightarrow> True | Receive_append _ \<Rightarrow> True | PipelinesReady_set _ \<Rightarrow> True
    | Crash_cmd \<Rightarrow> True | Crash_kill \<Rightarrow> True | _ \<Rightarrow> False)"

definition completing :: "pc \<Rightarrow> bool" where
  "completing pc \<longleftrightarrow> pc = Complete_wait \<or> pc = Complete_cmd"

text \<open>What holds of a thread when \<open>evs\<close> are collected, \<open>n\<close> are expected and \<open>sent\<close> bounds the arrivals.\<close>

definition thread_ok :: "int \<Rightarrow> string set \<Rightarrow> string list \<Rightarrow> pc \<Rightarrow> bool" where
  "thread_ok n sent evs pc \<longleftrightarrow> (case pc of
      SetupTest_wait _ \<Rightarrow> False | SetupTest_cmd _ \<Rightarrow> False | ExecuteTest_wait _ _ \<Rightarrow> False
    | ExecuteTest_cmd _ _ \<Rightarrow> False | Teardown_wait \<Rightarrow> False | Teardown_cmd \<Rightarrow> False
    | Reload_write _ _ \<Rightarrow> False | Reload_events _ _ \<Rightarrow> False | Reload_pipelines _ \<Rightarrow> False
    | Reload_signal \<Rightarrow> False
    | Complete_wait \<Rightarrow> n \<le> int (length evs)
    | Complete_cmd \<Rightarrow> n \<le> int (length evs)
    | GetResults_get e \<Rightarrow> e = None \<longrightarrow> n \<le> int (length evs)
    | Receive_append e \<Rightarrow> e \<in> sent
    | Finished (Results r e) \<Rightarrow> set r \<subseteq> sent \<and> (\<exists>rest. evs = r @ rest) \<and>
        (e = None \<longrightarrow> n \<le> int (length r))
    | _ \<Rightarrow> True)"

definition collect_inv :: "int \<Rightarrow> string set \<Rightarrow> ctrl \<times> pc list \<Rightarrow> bool" where
  "collect_inv n sent = (\<lambda>(c, ths).
     let evs = ev_events (c_events c) in
     ev_expected (c_events c) = n \<and> set evs \<subseteq> sent \<and> (\<forall>pc \<in> set ths. thread_ok n sent evs pc) \<and>
     (in_test (c_state c) \<or> c_state c = stateUnknown \<or> n \<le> int (length evs)))"

lemma thread_ok_mono: "thread_ok n sent evs pc \<Longrightarrow> thread_ok n sent (evs @ later) pc"
  by (auto simp: thread_ok_def split: pc.splits outcome.splits)

lemma thread_ok_call: "collecting pc \<Longrightarrow> (\<And>e. pc = Receive_append e \<Longrightarrow> e \<in> sent) \<Longrightarrow> thread_ok n sent evs pc"
  by (auto simp: thread_ok_def collecting_def split: pc.splits)

lemma ctl_step_events:
  assumes "ctl_step io pc c = (pc', new, c')" and "thread_ok n sent (ev_events (c_events c)) pc"
    and "set (ev_events (c_events c)) \<subseteq> sent"
  shows "\<exists>later. ev_events (c_events c') = ev_events (c_events c) @ later \<and> set later \<subseteq> sent
    \<and> ev_expected (c_events c') = ev_expected (c_events c)"
proof (cases pc)
  case Receive_check
  with assms show ?thesis by (cases rule: checkComplete_cases [of c]) auto
next
  case GetResults_check
  with assms show ?thesis by (cases rule: checkComplete_cases [of c]) auto
qed (use assms in \<open>auto simp: thread_ok_def events_append_def command_step_def Kill_def split_beta
       wait_step_def split: wait_outcome.splits option.splits\<close>)

lemma wait_frame:
  "wait_step io target stay ok bad c = (pc', c') \<Longrightarrow>
     c_events c' = c_events c \<and> c_files c' = c_files c \<and> c_pipes c' = c_pipes c
     \<and> (c_state c' = c_state c \<or> c_state c' = stateUnknown) \<and>
     ((pc' = ok \<and> c' = c \<and> c_state c = target) \<or> (pc' = stay \<and> c' = c) \<or> (\<exists>e. pc' = bad e))"
  by (cases rule: wait_step_cases) auto

lemma ctl_step_threads:
  assumes step: "ctl_step io pc c = (pc', new, c')"
    and ok: "thread_ok n sent (ev_events (c_events c)) pc"
    and inv: "ev_expected (c_events c) = n" "set (ev_events (c_events c)) \<subseteq> sent"
      "in_test (c_state c) \<or> c_state c = stateUnknown \<or> n \<le> int (length (ev_events (c_events c)))"
  shows "\<forall>p \<in> set (pc' # new). thread_ok n sent (ev_events (c_events c')) p"
proof -
  note defs = thread_ok_def events_get_def events_append_def in_test_def
  note wait = wait_frame
  show ?thesis
  proof (cases pc)
    case Receive_check
    with step inv show ?thesis by (cases rule: checkComplete_cases [of c]) (auto simp: defs)
  next
    case GetResults_check
    with step inv show ?thesis by (cases rule: checkComplete_cases [of c]) (auto simp: defs)
  next
    case GetResults_wait
    obtain q d where w: "wait_step io stateReadyForTest GetResults_wait (GetResults_get None)
        (\<lambda>e. GetResults_get (Some e)) c = (q, d)" by fastforce
    with step GetResults_wait have "pc' = q" "new = []" "c' = d" by auto
    with w inv show ?thesis by (cases rule: wait_step_cases [OF w]) (auto simp: defs)
  next
    case Complete_wait
    obtain q d where w: "wait_step io stateRunningTest Complete_wait Complete_cmd (\<lambda>_. Complete_cmd) c
        = (q, d)" by fastforce
    with step Complete_wait have "pc' = q" "new = []" "c' = d" by auto
    with w ok inv Complete_wait show ?thesis by (cases rule: wait_step_cases [OF w]) (auto simp: defs)
  next
    case (Finished r)
    with step ok show ?thesis by auto
  qed (use step ok inv in \<open>auto simp: defs command_step_def split: if_splits\<close>)
qed

lemma ctl_step_state:
  assumes step: "ctl_step io pc c = (pc', new, c')"
    and ok: "thread_ok n sent (ev_events (c_events c)) pc"
    and inv: "in_test (c_state c) \<or> c_state c = stateUnknown \<or> n \<le> int (length (ev_events (c_events c)))"
    and later: "ev_events (c_events c') = ev_events (c_events c) @ later"
  shows "in_test (c_state c') \<or> c_state c' = stateUnknown \<or> n \<le> int (length (ev_events (c_events c')))"
proof -
  consider "c_state c' = c_state c" | "c_state c' = stateUnknown"
    | cmd where "command_of pc = Some cmd" "sm_step (c_state c) cmd (c_state c')"
    using ctl_step_edge [OF step] by blast
  then show ?thesis
  proof cases
    case 3
    show ?thesis
    proof (cases "n \<le> int (length (ev_events (c_events c)))")
      case True
      with later show ?thesis by simp
    next
      case False
      with ok 3(1) have "cmd \<noteq> commandTestComplete"
        by (auto simp: thread_ok_def split: pc.splits)
      with False inv in_test_step [OF _ 3(2)] show ?thesis
        using sm_step_unknown [of cmd "c_state c'"] 3(2) by (cases "c_state c = stateUnknown") auto
    qed
  qed (use inv later in auto)
qed

lemma collect_inv_step:
  assumes "sys_step (\<lambda>pc. collecting pc \<and> (\<forall>e. pc = Receive_append e \<longrightarrow> e \<in> sent)) s t"
    and "collect_inv n sent s"
  shows "collect_inv n sent t"
  using assms
proof (induction rule: sys_step.induct)
  case (thread i ths io c pc' new c')
  let ?evs = "ev_events (c_events c)"
  from thread have ok: "thread_ok n sent ?evs (ths ! i)" and
    inv: "ev_expected (c_events c) = n" "set ?evs \<subseteq> sent"
      "in_test (c_state c) \<or> c_state c = stateUnknown \<or> n \<le> int (length ?evs)" and
    all: "\<forall>pc \<in> set ths. thread_ok n sent ?evs pc"
    by (auto simp: collect_inv_def Let_def)
  obtain later where later: "ev_events (c_events c') = ?evs @ later" "set later \<subseteq> sent"
      "ev_expected (c_events c') = n"
    using ctl_step_events [OF thread(2) ok inv(2)] inv(1) by auto
  have "\<forall>pc \<in> set ths. thread_ok n sent (ev_events (c_events c')) pc"
    using all later(1) thread_ok_mono by auto
  moreover have "\<forall>pc \<in> set (pc' # new). thread_ok n sent (ev_events (c_events c')) pc"
    by (rule ctl_step_threads [OF thread(2) ok inv])
  moreover have "in_test (c_state c') \<or> c_state c' = stateUnknown \<or> n \<le> int (length (ev_events (c_events c')))"
    by (rule ctl_step_state [OF thread(2) ok inv(3) later(1)])
  ultimately show ?case using later inv(2)
    by (auto simp: collect_inv_def Let_def dest!: set_update_subset_insert [THEN subsetD])
qed (auto simp: collect_inv_def Let_def Kill_def intro: thread_ok_call)

lemma collect_inv_reach:
  assumes "sys_reach (\<lambda>pc. collecting pc \<and> (\<forall>e. pc = Receive_append e \<longrightarrow> e \<in> sent)) s t"
    and "collect_inv n sent s"
  shows "collect_inv n sent t"
  using assms by (induction rule: sys_reach.induct) (auto intro: collect_inv_step)

text \<open>At most one completion is under way, and none before the goal was met.\<close>

definition once_inv :: "ctrl \<times> pc list \<Rightarrow> bool" where
  "once_inv = (\<lambda>(c, ths). length (filter completing ths) \<le> (if completeFirstTime (c_events c) then 1 else 0))"

lemma length_filter_update:
  assumes "i < length xs"
  shows "length (filter P (xs[i := y])) + (if P (xs ! i) then 1 else 0)
    = length (filter P xs) + (if P y then 1 else 0)"
proof -
  have "filter P xs = filter P (take i xs) @ filter P (xs ! i # drop (Suc i) xs)"
    using assms by (metis filter_append id_take_nth_drop)
  moreover have "filter P (xs[i := y]) = filter P (take i xs) @ filter P (y # drop (Suc i) xs)"
    using assms by (metis filter_append upd_conv_take_nth_drop)
  ultimately show ?thesis by simp
qed

lemma ctl_step_once:
  assumes step: "ctl_step io pc c = (pc', new, c')" and ok: "thread_ok n sent evs pc"
  shows "(if completing pc' then 1 else 0) + length (filter completing new)
      + (if completeFirstTime (c_events c) then 1 else 0)
    \<le> (if completing pc then 1 else 0) + (if completeFirstTime (c_events c') then 1 else (0::nat))"
proof (cases pc)
  case Receive_check
  with step show ?thesis by (cases rule: checkComplete_cases [of c]) (auto simp: completing_def)
next
  case GetResults_check
  with step show ?thesis by (cases rule: checkComplete_cases [of c]) (auto simp: completing_def)
next
  case Complete_wait
  obtain q d where w: "wait_step io stateRunningTest Complete_wait Complete_cmd (\<lambda>_. Complete_cmd) c
      = (q, d)" by fastforce
  with step Complete_wait have "pc' = q" "new = []" "c' = d" by auto
  with w show ?thesis using Complete_wait wait_frame [OF w] by (auto simp: completing_def)
next
  case GetResults_wait
  obtain q d where w: "wait_step io stateReadyForTest GetResults_wait (GetResults_get None)
      (\<lambda>e. GetResults_get (Some e)) c = (q, d)" by fastforce
  with step GetResults_wait have "pc' = q" "new = []" "c' = d" by auto
  with w show ?thesis using GetResults_wait wait_frame [OF w] by (auto simp: completing_def)
qed (use step ok in \<open>auto simp: completing_def thread_ok_def events_append_def command_step_def
       Kill_def split: if_splits\<close>)

lemma once_inv_step:
  assumes "sys_step (\<lambda>pc. collecting pc \<and> (\<forall>e. pc = Receive_append e \<longrightarrow> e \<in> sent)) s t"
    and "collect_inv n sent s" and "once_inv s"
  shows "once_inv t"
  using assms
proof (induction rule: sys_step.induct)
  case (thread i ths io c pc' new c')
  then have ok: "thread_ok n sent (ev_events (c_events c)) (ths ! i)"
    by (auto simp: collect_inv_def Let_def)
  have "length (filter completing (ths[i := pc'] @ new)) \<le> (if completeFirstTime (c_events c') then 1 else 0)"
    using ctl_step_once [OF thread(2) ok] length_filter_update [OF thread(1), of completing pc']
      thread(4) by (auto simp: once_inv_def split: if_splits)
  then show ?case by (simp add: once_inv_def)
qed (auto simp: once_inv_def Kill_def completing_def collecting_def)

lemma once_inv_reach:
  assumes "sys_reach (\<lambda>pc. collecting pc \<and> (\<forall>e. pc = Receive_append e \<longrightarrow> e \<in> sent)) s t"
    and "collect_inv n sent s" and "once_inv s"
  shows "once_inv t"
  using assms
proof (induction rule: sys_reach.induct)
  case (step s t u)
  show ?case
    by (rule once_inv_step [OF step.hyps(2) collect_inv_reach [OF step.hyps(1)]])
      (use step in auto)
qed simp

section \<open>Properties\<close>

text \<open>The end of a test whose events are all there: results, tear-down, ready for the next session.\<close>

lemma run_after_results:
  assumes io: "all_ok io" and running: "c_state c2 = stateRunningTest" and evs: "ev_events (c_events c2) = evs"
  shows "\<exists>c3 c4 c5. run_thread 6 io Complete_wait c2 = (Finished (Returned None), [], c3) \<and>
    run_thread 6 io GetResults_wait c3 = (Finished (Results evs None), [], c4) \<and>
    c_state c4 = stateReadyForTest \<and> c_reloads c4 = c_reloads c2 \<and>
    run_calls io [Teardown_wait, PipelinesReady_set [pipelines_running]] c4 = ([], c5) \<and>
    c_state c5 = stateReady \<and> events_get (c_events c5) = [] \<and> c_reloads c5 = Suc (c_reloads c2)"
proof -
  let ?c3 = "c2\<lparr>c_sm := (c_sm c2)\<lparr>currentState := stateReadyForTest\<rparr>\<rparr>"
  have s3: "run_thread 6 io Complete_wait c2 = (Finished (Returned None), [], ?c3)"
    using running by (intro run_Complete) simp
  have s4: "run_thread 6 io GetResults_wait ?c3 = (Finished (Results evs None), [], ?c3)"
    using run_GetResults_wait [of ?c3 io] evs by (simp add: events_get_def)
  obtain fs where s5: "run_thread 6 io Teardown_wait ?c3 = (Finished (Returned None), [],
     ?c3\<lparr>c_sm := (c_sm ?c3)\<lparr>currentState := stateStarted\<rparr>, c_files := fs,
       c_events := events_reset 0 (c_events ?c3),
       c_pipes := pipelines_reset [] (c_pipes ?c3), c_reloads := Suc (c_reloads ?c3)\<rparr>)"
    (is "_ = (_, _, ?c4)") using run_Teardown [OF io, of ?c3] by auto
  have s6: "run_thread 6 io (PipelinesReady_set [pipelines_running]) ?c4 =
    (Finished (Returned None), [],
     ?c4\<lparr>c_pipes := setReady [pipelines_running] (c_pipes ?c4), c_instanceReady := True,
       c_sm := (c_sm ?c4)\<lparr>currentState := stateReady\<rparr>\<rparr>)" (is "_ = (_, _, ?c5)")
    by (rule run_PipelinesReady [of "[]"]) simp_all
  have "run_calls io [Teardown_wait, PipelinesReady_set [pipelines_running]] ?c3 = ([], ?c5)"
    by (simp only: run_calls_step [OF s5] run_calls_step [OF s6] run_calls.simps(1))
  moreover have "c_state ?c5 = stateReady \<and> events_get (c_events ?c5) = [] \<and> c_reloads ?c5 = Suc (c_reloads c2)"
    using running by (simp add: events_get_def events_reset_def)
  ultimately show ?thesis using s3 s4 by (intro exI conjI) (assumption | simp)+
qed

text \<open>No completion is started while an event is still missing.\<close>

lemma nothing_before_last:
  assumes "all_ok io" and "c_state c = stateReady"
    and "insert pipelines_running (set (map p_ID ps0)) \<subseteq> set setup_names"
    and "insert pipelines_running (set (map p_ID ps)) \<subseteq> set test_names"
    and "k < length evs"
  shows "fst (run_calls io ([SetupTest_wait ps0, PipelinesReady_set setup_names,
      ExecuteTest_wait ps (int (length evs)), PipelinesReady_set test_names]
      @ map Receive_append (take k evs)) c) = []"
proof -
  have "fst (ev.receive_all (take k evs) (0, events_reset (int (length evs)) (c_events c))) = 0"
    using ev.receive_all_facts [of "take k evs" 0 "events_reset (int (length evs)) (c_events c)"] assms(5)
    by (simp add: events_reset_def events_get_def)
  with run_until_received [OF assms(1-4), of "int (length evs)" "take k evs"] show ?thesis
    by fastforce
qed

text \<open>
  C11: a test, call by call. On an idle instance where nothing fails, the calls \<open>SetupTest\<close>,
  \<open>ExecuteTest\<close> for the number of events that arrive, each followed by the report that its
  pipelines run, and the arrival of the events start exactly one completion: none while an
  event is still missing, one with the last event, or with \<open>GetResults\<close> when none is expected;
  after it \<open>GetResults\<close> returns exactly the received events in their order, and the controller is ready for the next test, having
  reloaded Logstash once for each call; a teardown and one more report make the instance idle
  and empty again.
\<close>

theorem test_cycle:
  assumes io: "all_ok io" and ready: "c_state c = stateReady"
    and rep0: "insert pipelines_running (set (map p_ID ps0)) \<subseteq> set setup_names"
    and rep1: "insert pipelines_running (set (map p_ID ps)) \<subseteq> set test_names"
  shows "\<exists>c1 c2 c3 c4 c5.
    (\<forall>k < length evs. fst (run_calls io ([SetupTest_wait ps0, PipelinesReady_set setup_names,
      ExecuteTest_wait ps (int (length evs)), PipelinesReady_set test_names]
      @ map Receive_append (take k evs)) c) = []) \<and>
    run_calls io ([SetupTest_wait ps0, PipelinesReady_set setup_names,
      ExecuteTest_wait ps (int (length evs)), PipelinesReady_set test_names]
      @ map Receive_append evs) c = (if evs = [] then [] else [Complete_wait], c1) \<and>
    ctl_step io GetResults_check c1 =
      (GetResults_wait, if evs = [] then [Complete_wait] else [], c2) \<and>
    run_thread 6 io Complete_wait c2 = (Finished (Returned None), [], c3) \<and>
    run_thread 6 io GetResults_wait c3 = (Finished (Results evs None), [], c4) \<and>
    c_state c4 = stateReadyForTest \<and> c_reloads c4 = c_reloads c + 2 \<and>
    run_calls io [Teardown_wait, PipelinesReady_set [pipelines_running]] c4 = ([], c5) \<and>
    c_state c5 = stateReady \<and> events_get (c_events c5) = [] \<and> c_reloads c5 = c_reloads c + 3"
proof -
  let ?n = "int (length evs)" and ?e0 = "events_reset (int (length evs)) (c_events c)"
  let ?r = "ev.receive_all evs (0, ?e0)"
  obtain c1 where run: "run_calls io ([SetupTest_wait ps0, PipelinesReady_set setup_names,
      ExecuteTest_wait ps ?n, PipelinesReady_set test_names] @ map Receive_append evs) c
      = (replicate (fst ?r) Complete_wait, c1)"
    and c1: "c_events c1 = snd ?r" "c_state c1 = stateRunningTest" "c_reloads c1 = c_reloads c + 2"
    using run_until_received [OF io ready rep0 rep1] by blast
  have cont: "events_get (snd ?r) = evs" "ev_expected (snd ?r) = ?n"
    and fired: "fst ?r = (if evs = [] then 0 else 1)"
    using ev.receive_all_facts [of evs 0 ?e0]
    by (auto simp: events_reset_def events_get_def)
  have first: "completeFirstTime (snd ?r) \<longleftrightarrow> evs \<noteq> []"
    by (rule received_completed)
  obtain new2 c2 where check: "ctl_step io GetResults_check c1 = (GetResults_wait, new2, c2)"
    and new2: "new2 = (if evs = [] then [Complete_wait] else [])"
    and c2: "c_sm c2 = c_sm c1" "ev_events (c_events c2) = evs" "c_reloads c2 = c_reloads c1"
    using cont first c1 by (cases rule: checkComplete_cases [of c1]) (auto simp: events_get_def)
  obtain c3 c4 c5 where rest: "run_thread 6 io Complete_wait c2 = (Finished (Returned None), [], c3)"
    "run_thread 6 io GetResults_wait c3 = (Finished (Results evs None), [], c4)"
    "c_state c4 = stateReadyForTest" "c_reloads c4 = c_reloads c + 2"
    "run_calls io [Teardown_wait, PipelinesReady_set [pipelines_running]] c4 = ([], c5)"
    "c_state c5 = stateReady" "events_get (c_events c5) = []" "c_reloads c5 = c_reloads c + 3"
    using run_after_results [OF io, of c2 evs] c1 c2 by auto
  have early: "\<forall>k < length evs. fst (run_calls io ([SetupTest_wait ps0, PipelinesReady_set setup_names,
      ExecuteTest_wait ps ?n, PipelinesReady_set test_names] @ map Receive_append (take k evs)) c) = []"
    using nothing_before_last [OF io ready rep0 rep1] by blast
  have "replicate (fst ?r) Complete_wait = (if evs = [] then [] else [Complete_wait])"
    using fired by simp
  with run have "run_calls io ([SetupTest_wait ps0, PipelinesReady_set setup_names,
      ExecuteTest_wait ps ?n, PipelinesReady_set test_names] @ map Receive_append evs) c
      = (if evs = [] then [] else [Complete_wait], c1)" by (simp only:)
  with early check [unfolded new2] rest show ?thesis by blast
qed

theorem test_cycle_witness:
  "\<exists>c c1 c2 c3 c4 c5.
    (\<forall>k < length [''one'', ''two'']. fst (run_calls calm_io
      ([SetupTest_wait [], PipelinesReady_set [pipelines_running],
        ExecuteTest_wait [] (int (length [''one'', ''two''])),
        PipelinesReady_set [pipelines_running]] @ map Receive_append (take k [''one'', ''two''])) c) = []) \<and>
    run_calls calm_io
      ([SetupTest_wait [], PipelinesReady_set [pipelines_running],
        ExecuteTest_wait [] (int (length [''one'', ''two''])),
        PipelinesReady_set [pipelines_running]] @ map Receive_append [''one'', ''two'']) c
      = (if [''one'', ''two''] = [] then [] else [Complete_wait], c1) \<and>
    ctl_step calm_io GetResults_check c1
      = (GetResults_wait, if [''one'', ''two''] = [] then [Complete_wait] else [], c2) \<and>
    run_thread 6 calm_io Complete_wait c2 = (Finished (Returned None), [], c3) \<and>
    run_thread 6 calm_io GetResults_wait c3 = (Finished (Results [''one'', ''two''] None), [], c4) \<and>
    c_state c4 = stateReadyForTest \<and> c_reloads c4 = c_reloads c + 2 \<and>
    run_calls calm_io [Teardown_wait, PipelinesReady_set [pipelines_running]] c4 = ([], c5) \<and>
    c_state c5 = stateReady \<and> events_get (c_events c5) = [] \<and> c_reloads c5 = c_reloads c + 3"
  by (rule exI [of _ "\<lparr>c_id = ''id'', c_workDir = ''/tmp'', c_sm = \<lparr>sm_done = False, currentState = stateReady\<rparr>,
        c_ordered = False, c_events = newEvents, c_pipes = newPipelines, c_instanceReady = True,
        c_files = [], c_reloads = 0\<rparr>"], rule test_cycle) simp_all

text \<open>
  C12: collecting the results under every interleaving. From a started test on, with any
  number of \<open>GetResults\<close> calls, arriving events, pipeline reports, crashes and cancellations in
  any order of their steps: a \<open>GetResults\<close> that succeeds has at least the expected number of
  events; whatever it returns are events that arrived, in the order of their arrival; the
  state is not "ready for test" before enough events are there; and there is never more than
  one completion under way.
\<close>

theorem collect_correct:
  assumes "in_test (c_state c)" and "ev_events (c_events c) = []"
    and "sys_reach (\<lambda>pc. collecting pc \<and> (\<forall>e. pc = Receive_append e \<longrightarrow> e \<in> sent)) (c, []) (c', ths)"
  shows "(\<forall>r e. Finished (Results r e) \<in> set ths \<longrightarrow>
      set r \<subseteq> sent \<and> (\<exists>rest. ev_events (c_events c') = r @ rest) \<and>
      (e = None \<longrightarrow> ev_expected (c_events c) \<le> int (length r))) \<and>
    (c_state c' = stateReadyForTest \<longrightarrow>
      ev_expected (c_events c) \<le> int (length (ev_events (c_events c')))) \<and>
    length (filter completing ths) \<le> 1"
proof -
  let ?n = "ev_expected (c_events c)"
  have start: "collect_inv ?n sent (c, [])" "once_inv (c, [])"
    using assms(1,2) by (simp_all add: collect_inv_def once_inv_def)
  have "collect_inv ?n sent (c', ths)" by (rule collect_inv_reach [OF assms(3) start(1)])
  then have threads: "\<forall>pc \<in> set ths. thread_ok ?n sent (ev_events (c_events c')) pc"
    and state: "in_test (c_state c') \<or> c_state c' = stateUnknown \<or>
      ?n \<le> int (length (ev_events (c_events c')))"
    by (simp_all add: collect_inv_def Let_def)
  have "once_inv (c', ths)" by (rule once_inv_reach [OF assms(3) start])
  then have "length (filter completing ths) \<le> 1" by (simp add: once_inv_def split: if_splits)
  moreover have "set r \<subseteq> sent \<and> (\<exists>rest. ev_events (c_events c') = r @ rest) \<and>
      (e = None \<longrightarrow> ?n \<le> int (length r))" if "Finished (Results r e) \<in> set ths" for r e
    using threads that by (force simp: thread_ok_def)
  ultimately show ?thesis using state by (auto simp: in_test_def)
qed

theorem collect_correct_witness:
  "\<exists>c' ths. play collecting calm_io
      [Call (Receive_append ''e''), Run 0, Run 0, Run 1, Run 1, Call GetResults_check, Run 2, Run 2, Run 2]
      (\<lparr>c_id = ''id'', c_workDir = ''/tmp'', c_sm = \<lparr>sm_done = False, currentState = stateRunningTest\<rparr>,
        c_ordered = False, c_events = newEvents\<lparr>ev_expected := 1\<rparr>, c_pipes = [],
        c_instanceReady = True, c_files = [], c_reloads = 0\<rparr>, []) = Some (c', ths) \<and>
    Finished (Results [''e''] None) \<in> set ths \<and> length (filter completing ths) \<le> 1"
  (is "\<exists>c' ths. play collecting ?io ?ms (?c, []) = _ \<and> _")
proof -
  obtain c' ths where run: "play (\<lambda>pc. collecting pc \<and> (\<forall>e. pc = Receive_append e \<longrightarrow> e \<in> {''e''}))
      ?io ?ms (?c, []) = Some (c', ths)" "play collecting ?io ?ms (?c, []) = Some (c', ths)"
      "Finished (Results [''e''] None) \<in> set ths"
    by (simp add: is_call_def collecting_def newEvents_def checkComplete_def isCompleteFirstTime_def
        events_append_def events_get_def wait_step_def wait_iteration_def command_step_def executeCommand_def calm_io_def)
  from collect_correct [OF _ _ play_reach [OF run(1)]]
  have "length (filter completing ths) \<le> 1" by (simp add: in_test_def newEvents_def)
  with run show ?thesis by blast
qed

text \<open>
  C21: an instance that is unhealthy stays unhealthy, whatever calls come in and however their
  steps interleave; and the only ways to become so are an unlisted command, which includes
  every crash, or a wait that times out.
\<close>

theorem unhealthy_is_permanent:
  "(sys_reach allowed (c, ths) (c', ths') \<and> \<not> IsHealthy c \<longrightarrow> \<not> IsHealthy c') \<and>
   (ctl_step io pc c = (pc', new, c') \<and> IsHealthy c \<and> \<not> IsHealthy c' \<longrightarrow>
      io_timer io \<or> (\<exists>cmd. command_of pc = Some cmd \<and> stateTransitionsTable (c_state c) cmd = None)) \<and>
   (ctl_step io Crash_cmd c = (pc', new, c') \<longrightarrow> \<not> IsHealthy c')"
proof (intro conjI impI)
  assume "sys_reach allowed (c, ths) (c', ths') \<and> \<not> IsHealthy c"
  then show "\<not> IsHealthy c'" using sys_reach_unknown by (fastforce simp: IsHealthy_iff)
next
  assume *: "ctl_step io pc c = (pc', new, c') \<and> IsHealthy c \<and> \<not> IsHealthy c'"
  then show "io_timer io \<or> (\<exists>cmd. command_of pc = Some cmd \<and> stateTransitionsTable (c_state c) cmd = None)"
    using ctl_step_edge [of io pc c pc' new c'] table_never_unknown
    by (auto simp: IsHealthy_iff sm_step_iff)
next
  assume "ctl_step io Crash_cmd c = (pc', new, c')"
  then show "\<not> IsHealthy c'" by (auto simp: IsHealthy_iff command_step_def)
qed

theorem unhealthy_is_permanent_witness:
  "\<not> IsHealthy (Kill \<lparr>c_id = ''id'', c_workDir = ''/tmp'',
      c_sm = \<lparr>sm_done = False, currentState = stateUnknown\<rparr>, c_ordered = False,
      c_events = newEvents, c_pipes = newPipelines, c_instanceReady = True, c_files = [], c_reloads = 0\<rparr>)"
  (is "\<not> IsHealthy (Kill ?c)")
proof -
  have "sys_reach (\<lambda>_. True) (?c, []) (Kill ?c, [])"
    by (meson sys_reach.refl sys_reach.step sys_step.cancel)
  then show ?thesis using unhealthy_is_permanent [of "\<lambda>_. True" ?c "[]" "Kill ?c" "[]"]
    by (simp add: IsHealthy_def getState_def)
qed

text \<open>
  C14: \<open>SetupTest\<close> issues its command before \<open>reload\<close> replaces the readiness of the previous
  pipelines, so a report of those, arriving in between, is taken for the report of the new ones:
  there is an interleaving without any failure, timeout or crash after which the controller
  is ready for the test though the new pipelines have been neither written nor loaded, and in
  which the report of the new pipelines then makes the instance unhealthy.
\<close>

theorem setup_race:
  assumes io: "all_ok io" and ready: "c_state c = stateReady"
    and old: "isReady (setReady reports (c_pipes c))"
    and new: "insert pipelines_running (set (map p_ID ps)) \<subseteq> set names"
  shows "\<exists>c1 ths1 c2 ths2.
    play (\<lambda>_. True) io [Call (SetupTest_wait ps), Run 0, Run 0,
      Call (PipelinesReady_set reports), Run 1, Run 1, Run 1] (c, []) = Some (c1, ths1) \<and>
    c_state c1 = stateReadyForTest \<and> c_files c1 = c_files c \<and> c_reloads c1 = c_reloads c \<and>
    play (\<lambda>_. True) io [Run 0, Run 0, Run 0, Run 0,
      Call (PipelinesReady_set names), Run 2, Run 2, Run 2] (c1, ths1) = Some (c2, ths2) \<and>
    ths2 = replicate 3 (Finished (Returned None)) \<and> \<not> IsHealthy c2"
proof -
  let ?c1 = "c\<lparr>c_pipes := setReady reports (c_pipes c), c_instanceReady := True,
    c_sm := (c_sm c)\<lparr>currentState := stateReadyForTest\<rparr>\<rparr>"
  have p1: "play (\<lambda>_. True) io [Call (SetupTest_wait ps), Run 0, Run 0,
      Call (PipelinesReady_set reports), Run 1, Run 1, Run 1] (c, [])
      = Some (?c1, [Reload_write ps 0, Finished (Returned None)])"
    using ready old by (simp add: is_call_def wait_step_now command_step_def executeCommand_def)
  obtain body where "writePipelines io ps ?c1 =
     Ok (?c1\<lparr>c_files := mput (path_join [c_workDir ?c1, ''pipelines.yml'']) body (c_files ?c1)\<rparr>)"
    (is "_ = Ok ?c2") using all_ok_write [OF io] by blast
  moreover have "isReady (setReady names (pipelines_reset (map p_ID ps) p))" for p
    using new mwf_setReady [OF mwf_pipelines_reset, of names "map p_ID ps" p]
    by (auto simp: isReady_mget mget_setReady mget_pipelines_reset split: if_splits)
  ultimately have "\<exists>c2. play (\<lambda>_. True) io [Run 0, Run 0, Run 0, Run 0,
      Call (PipelinesReady_set names), Run 2, Run 2, Run 2]
      (?c1, [Reload_write ps 0, Finished (Returned None)])
      = Some (c2, replicate 3 (Finished (Returned None))) \<and> \<not> IsHealthy c2"
    using io by (simp add: all_ok_def is_call_def command_step_def executeCommand_def IsHealthy_iff eval_nat_numeral)
  with p1 show ?thesis by force
qed

theorem setup_race_witness:
  "\<exists>c1 ths1. play (\<lambda>_. True) calm_io
      [Call (SetupTest_wait []), Run 0, Run 0, Call (PipelinesReady_set [pipelines_running]), Run 1, Run 1, Run 1]
      (\<lparr>c_id = ''id'', c_workDir = ''/tmp'', c_sm = \<lparr>sm_done = False, currentState = stateReady\<rparr>,
        c_ordered = False, c_events = newEvents, c_pipes = [(pipelines_running, True)],
        c_instanceReady = True, c_files = [], c_reloads = 0\<rparr>, []) = Some (c1, ths1) \<and>
    c_state c1 = stateReadyForTest"
  using setup_race [of "calm_io"
      "\<lparr>c_id = ''id'', c_workDir = ''/tmp'', c_sm = \<lparr>sm_done = False, currentState = stateReady\<rparr>,
        c_ordered = False, c_events = newEvents, c_pipes = [(pipelines_running, True)],
        c_instanceReady = True, c_files = [], c_reloads = 0\<rparr>" "[pipelines_running]" "[]" "[pipelines_running]"]
  by (simp add: isReady_iff setReady_def mput_def del: play.simps) blast

end
