(* ===== verification/Instance_Log.thy ===== *)
theory Instance_Log
  imports Logstash_Controller
begin

text \<open>
  One Logstash process and the goroutines that read from it,
  \<open>internal/daemon/instance/logstash/instance.go\<close> and \<open>processors.go\<close>. What a reader does with
  its input is the list of calls that it makes on the controller. \<open>gjson\<close> is a package outside
  the repository: its two queries are parameters.
\<close>

section \<open>Reading lines\<close>

text \<open>
  A \<open>bufio.Scanner\<close>: the lines without their line ends, and whether it stopped at a line that
  does not fit its buffer of \<open>bufio.MaxScanTokenSize\<close> bytes.
\<close>

definition newline :: char where
  "newline = CHR 0x0A"

definition max_token :: nat where
  "max_token = 65536"

definition drop_cr :: "string \<Rightarrow> string" where
  "drop_cr s = (if s \<noteq> [] \<and> last s = CHR 0x0D then butlast s else s)"

definition raw_lines :: "string \<Rightarrow> string list" where
  "raw_lines s = (let ps = split_on newline s in if last ps = [] then butlast ps else ps)"

definition scan :: "string \<Rightarrow> string list \<times> bool" where
  "scan s = (map drop_cr (takeWhile (\<lambda>l. length l < max_token) (raw_lines s)),
     list_ex (\<lambda>l. \<not> length l < max_token) (raw_lines s))"

section \<open>The process\<close>

datatype goroutine = StdoutProcessor | StderrProcessor | LogProcessor | ShutdownHandler

datatype process_call = SIGTERM | SIGHUP | WaitProcess

record instance_state =
  in_process :: bool
  in_args :: "string list"
  in_started :: bool
  in_shutdown :: bool
  in_wg :: nat
  in_goroutines :: "goroutine list"
  in_calls :: "process_call list"

definition new_instance :: instance_state where
  "new_instance = \<lparr>in_process = False, in_args = [], in_started = False, in_shutdown = False,
     in_wg = 0, in_goroutines = [], in_calls = []\<rparr>"

record start_io =
  st_stdoutPipe :: "gerror option"
  st_stderrPipe :: "gerror option"
  st_start :: "gerror option"
  st_tail :: "gerror option"

definition start_args :: "string \<Rightarrow> string list" where
  "start_args workdir = [''--path.settings'', workdir, ''--path.logs'', workdir,
     ''--path.data'', workdir, ''--pipeline.batch.size'', ''1'']"

text \<open>The error paths leave through the deferred \<open>cancel\<close>.\<close>

definition Start :: "start_io \<Rightarrow> string \<Rightarrow> instance_state \<Rightarrow> gerror option \<times> instance_state" where
  "Start io workdir i =
     (let i = i\<lparr>in_args := start_args workdir\<rparr>;
          cancelled = (\<lambda>msg e i. (Some (Wrap msg e), i\<lparr>in_shutdown := True\<rparr>))
      in case st_stdoutPipe io of Some e \<Rightarrow> cancelled ''failed to setup stdoutPipe'' e i | None \<Rightarrow>
        (case st_stderrPipe io of Some e \<Rightarrow> cancelled ''failed to setup stdoutPipe'' e i | None \<Rightarrow>
          (let i = i\<lparr>in_wg := in_wg i + 2, in_goroutines := [StdoutProcessor, StderrProcessor]\<rparr>
           in case st_start io of Some e \<Rightarrow> cancelled ''failed to start logstash process'' e i | None \<Rightarrow>
             (let i = i\<lparr>in_process := True, in_started := True\<rparr>
              in case st_tail io of Some e \<Rightarrow> cancelled ''failed to read from logstash log file'' e i | None \<Rightarrow>
                (None, i\<lparr>in_wg := in_wg i + 1,
                         in_goroutines := in_goroutines i @ [LogProcessor, ShutdownHandler]\<rparr>)))))"

definition stopLogstash :: "instance_state \<Rightarrow> instance_state" where
  "stopLogstash i =
     (if \<not> in_process i then i else i\<lparr>in_calls := in_calls i @ [SIGTERM, WaitProcess]\<rparr>)"

definition ConfigReload :: "gerror option \<Rightarrow> instance_state \<Rightarrow> gerror option \<times> instance_state" where
  "ConfigReload signalErr i =
     (if \<not> in_process i then (Some (Errorf ''can't signal to an unborn process'' []), i)
      else (map_option (Wrap ''failed to send SIGHUP'') signalErr, i\<lparr>in_calls := in_calls i @ [SIGHUP]\<rparr>))"

section \<open>The readers\<close>

text \<open>
  \<open>started\<close> tells which of the two events of the first \<open>select\<close> was taken, \<open>shutdown\<close> whether the
  shutdown context is done when the output ends.
\<close>

definition stdoutProcessor :: "bool \<Rightarrow> bool \<Rightarrow> string \<Rightarrow> pc list" where
  "stdoutProcessor started shutdown out =
     (if \<not> started then []
      else map Receive_append (filter (\<lambda>l. has_prefix l ''{'') (fst (scan out))) @
        (if shutdown then [] else [Crash_cmd]))"

definition stderrProcessor :: "bool \<Rightarrow> bool \<Rightarrow> string \<Rightarrow> pc list" where
  "stderrProcessor started shutdown err =
     (if \<not> started then [] else if shutdown then [] else [Crash_cmd])"

definition extractPipelines :: "string \<Rightarrow> string list option" where
  "extractPipelines input =
     (if length input < 3 then None
      else Some (map (\<lambda>p. trim (trim_left p '' :'') [CHR 0x22])
        (split_on (CHR '','') (butlast (tl input)))))"

record gjson =
  gj_get :: "string \<Rightarrow> string \<Rightarrow> string"
  gj_array :: "string \<Rightarrow> string \<Rightarrow> string list"

text \<open>The calls for one line of the log file; the loop ends with the shutdown.\<close>

definition log_line :: "gjson \<Rightarrow> string \<Rightarrow> pc list" where
  "log_line gj line =
     (let msg = gj_get gj line ''logEvent.message'' in
      if msg = ''Pipeline started'' then
        [PipelinesReady_set [gj_get gj line (''logEvent.pipeline'' @ [CHR 0x5C] @ ''.id'')]]
      else if msg = ''Pipeline started successfully'' then
        [PipelinesReady_set [gj_get gj line ''logEvent.pipeline_id'']]
      else if msg = ''Pipelines running'' then
        (let running = (case extractPipelines (gj_get gj line
               ''logEvent.running_pipelines.0.metaClass.metaClass.metaClass.running_pipelines'') of
             Some ps \<Rightarrow> ps
           | None \<Rightarrow> gj_array gj line ''logEvent.running_pipelines'')
         in [PipelinesReady_set running, PipelinesReady_set [''__lfv_pipelines_running'']])
      else [])"

definition logstashLogProcessor :: "gjson \<Rightarrow> string list \<Rightarrow> pc list" where
  "logstashLogProcessor gj ls = concat (map (log_line gj) ls)"

section \<open>The rendered list of pipelines\<close>

text \<open>
  The log has the pipelines as Ruby prints an array of symbols. How Ruby prints a symbol is not
  in the repository, so it is a parameter; what is relied on is what Ruby documents for names of
  letters, digits, underscores, hyphens and dots, the characters of the pipelines' names: a
  colon and the name, in double quotes where the name needs them.
\<close>

definition plain_name :: "string \<Rightarrow> bool" where
  "plain_name n \<longleftrightarrow> n \<noteq> [] \<and> list_all (\<lambda>c. c \<in> set
     ''abcdefghijklmnopqrstuvwxyzABCDEFGHIJKLMNOPQRSTUVWXYZ0123456789_-.'') n"

definition prints_symbol :: "(string \<Rightarrow> string) \<Rightarrow> string \<Rightarrow> bool" where
  "prints_symbol inspect n \<longleftrightarrow>
     inspect n = '':'' @ n \<or> inspect n = '':'' @ [CHR 0x22] @ n @ [CHR 0x22]"

lemma plain_name_chars:
  assumes "plain_name n"
  shows "n \<noteq> []" "CHR '','' \<notin> set n" "CHR 0x22 \<notin> set n" "CHR '' '' \<notin> set n" "CHR '':'' \<notin> set n"
proof -
  show "n \<noteq> []" using assms by (simp add: plain_name_def)
  have "c \<in> set ''abcdefghijklmnopqrstuvwxyzABCDEFGHIJKLMNOPQRSTUVWXYZ0123456789_-.''" if "c \<in> set n" for c
    using assms that unfolding plain_name_def list_all_iff by blast
  note chars = this
  show "CHR '','' \<notin> set n" "CHR 0x22 \<notin> set n" "CHR '' '' \<notin> set n" "CHR '':'' \<notin> set n"
    using chars [of "CHR '',''"] chars [of "CHR 0x22"] chars [of "CHR '' ''"] chars [of "CHR '':''"]
    by auto
qed

lemma join_Cons_char: "join sep ((c # x) # xs) = c # join sep (x # xs)"
  by (cases xs) simp_all

lemma join_space:
  "join '', '' (x # xs) = join [CHR '',''] (x # map (\<lambda>y. CHR '' '' # y) xs)"
  by (induction xs arbitrary: x) (simp_all add: join_Cons_char)

lemma split_symbols:
  assumes "\<forall>x \<in> set (x # xs). CHR '','' \<notin> set x"
  shows "split_on (CHR '','') (join '', '' (x # xs)) = x # map (\<lambda>y. CHR '' '' # y) xs"
  unfolding join_space using assms by (intro split_on_join) auto

lemma clean_symbol:
  assumes "plain_name n" and "prints_symbol inspect n" and "set sp \<subseteq> {CHR '' ''}"
  shows "trim (trim_left (sp @ inspect n) '' :'') [CHR 0x22] = n"
proof -
  note n = plain_name_chars [OF assms(1)]
  have sp: "trim_left (sp @ s) '' :'' = trim_left s '' :''" for s
    using assms(3) by (intro trim_left_skip) auto
  have quoted: "trim_left ('':'' @ [CHR 0x22] @ n @ [CHR 0x22]) '' :'' = [CHR 0x22] @ n @ [CHR 0x22]"
    by (simp add: trim_left_def)
  have plain: "trim_left ('':'' @ n) '' :'' = n"
    using n(1,4,5) by (cases n) (auto simp: trim_left_def)
  have "trim ([CHR 0x22] @ n @ [CHR 0x22]) [CHR 0x22] = n"
    using n(3) by (intro trim_surround) (auto, metis hd_in_set, metis last_in_set)
  moreover have "trim n [CHR 0x22] = n"
    using n(3) by (intro trim_none) (metis hd_in_set last_in_set list.set_intros(1) empty_iff empty_set set_ConsD)
  ultimately show ?thesis
    using assms(2) quoted plain unfolding prints_symbol_def sp by (elim disjE) simp_all
qed

lemma symbol_no_comma:
  "plain_name n \<Longrightarrow> prints_symbol inspect n \<Longrightarrow> CHR '','' \<notin> set (inspect n)"
  using plain_name_chars [of n] by (auto simp: prints_symbol_def)

lemma extracted_names:
  assumes "names \<noteq> []" and "\<forall>n \<in> set names. plain_name n \<and> prints_symbol inspect n"
  shows "extractPipelines (''['' @ join '', '' (map inspect names) @ '']'') = Some names"
proof -
  obtain n rest where names: "names = n # rest" using assms(1) by (cases names) auto
  have inner: "split_on (CHR '','') (join '', '' (map inspect names))
      = inspect n # map (\<lambda>y. CHR '' '' # inspect y) rest"
    using split_symbols [of "inspect n" "map inspect rest"] assms(2) symbol_no_comma
    by (simp add: names comp_def)
  have "map (\<lambda>p. trim (trim_left p '' :'') [CHR 0x22])
      (inspect n # map (\<lambda>y. CHR '' '' # inspect y) rest) = names"
    using assms(2) clean_symbol [of n inspect "[]"] clean_symbol [where sp = "'' ''" and inspect = inspect]
    by (auto simp: names intro!: map_idI)
  moreover have "1 \<le> length (inspect n)" using assms(2) by (auto simp: names prints_symbol_def)
  then have "3 \<le> length (''['' @ join '', '' (map inspect names) @ '']'')"
    by (cases rest) (auto simp: names)
  ultimately show ?thesis
    by (simp add: extractPipelines_def inner butlast_append Suc_le_eq)
qed

section \<open>The readers drive the controller\<close>

definition unlines :: "string list \<Rightarrow> string" where
  "unlines ls = concat (map (\<lambda>l. l @ [newline]) ls)"

definition fits :: "string \<Rightarrow> bool" where
  "fits l \<longleftrightarrow> newline \<notin> set l \<and> length l < max_token \<and> (l = [] \<or> last l \<noteq> CHR 0x0D)"

lemma split_unlines:
  "\<forall>l \<in> set ls. newline \<notin> set l \<Longrightarrow> split_on newline (unlines ls @ s) = ls @ split_on newline s"
  by (induction ls) (simp_all add: unlines_def split_on_append)

lemma raw_lines_unlines:
  assumes "\<forall>l \<in> set ls. newline \<notin> set l"
  shows "raw_lines (unlines ls @ s) = ls @ raw_lines s"
  using assms by (auto simp: raw_lines_def split_unlines Let_def butlast_append)

lemma scan_unlines:
  assumes "\<forall>l \<in> set ls. fits l"
  shows "scan (unlines ls @ s) = (ls @ fst (scan s), snd (scan s))"
proof -
  have "\<forall>l \<in> set ls. newline \<notin> set l" "\<forall>l \<in> set ls. length l < max_token"
    using assms by (auto simp: fits_def)
  moreover have cr: "map drop_cr ls = ls"
    using assms by (intro map_idI) (auto simp: fits_def drop_cr_def)
  ultimately have "scan (unlines ls @ s) = (map drop_cr ls @ fst (scan s), snd (scan s))"
    by (auto simp: scan_def raw_lines_unlines list_ex_iff simp del: map_map)
  with cr show ?thesis by simp
qed

lemma scan_Nil [simp]: "scan [] = ([], False)"
  by (simp add: scan_def raw_lines_def)

lemma scan_oversized:
  assumes "newline \<notin> set l" and "max_token \<le> length l"
  shows "scan (l @ rest) = ([], True)"
proof -
  obtain y ys where split: "split_on newline (l @ rest) = y # ys" "max_token \<le> length y"
  proof -
    have "split_on newline (l @ rest) \<noteq> [] \<and> length l \<le> length (hd (split_on newline (l @ rest)))"
      using assms(1) by (induction l) (auto split: list.splits)
    with assms(2) that show ?thesis by (cases "split_on newline (l @ rest)") auto
  qed
  moreover have "0 < max_token" by (simp add: max_token_def)
  ultimately have "\<exists>zs. raw_lines (l @ rest) = y # zs"
    by (cases ys) (auto simp: raw_lines_def Let_def)
  with split(2) show ?thesis by (auto simp: scan_def)
qed

lemma run_crash:
  "run_calls io [Crash_cmd] c = ([], Kill (command_step commandCrash c))"
  by (simp add: eval_nat_numeral)

text \<open>The effect of the standard output on the controller.\<close>

lemma run_stdout:
  assumes "run_calls io (stdoutProcessor True shutdown out) c = (new, c')"
  defines "ls \<equiv> filter (\<lambda>l. has_prefix l ''{'') (fst (scan out))"
  shows "events_get (c_events c') = events_get (c_events c) @ ls"
    "new = replicate (fst (ev.receive_all ls (0, c_events c))) Complete_wait"
    "if shutdown then c_sm c' = c_sm c else \<not> IsHealthy c' \<and> sm_done (c_sm c')"
proof -
  let ?r = "ev.receive_all ls (0, c_events c)"
  have r: "run_calls io (map Receive_append ls) c = (replicate (fst ?r) Complete_wait, c\<lparr>c_events := snd ?r\<rparr>)"
    by (simp add: run_Receive_all split_beta Let_def)
  have *: "new = replicate (fst ?r) Complete_wait \<and> c' = (if shutdown then c\<lparr>c_events := snd ?r\<rparr>
      else Kill (command_step commandCrash (c\<lparr>c_events := snd ?r\<rparr>)))"
    using assms(1) unfolding stdoutProcessor_def ls_def [symmetric]
    by (auto simp: run_calls_append r run_crash simp del: run_calls.simps(2) split: if_splits)
  have "events_get (snd ?r) = events_get (c_events c) @ ls"
    using ev.receive_all_facts [of ls 0 "c_events c"] by blast
  with * show "events_get (c_events c') = events_get (c_events c) @ ls"
    "new = replicate (fst ?r) Complete_wait"
    "if shutdown then c_sm c' = c_sm c else \<not> IsHealthy c' \<and> sm_done (c_sm c')"
    by (auto simp: Kill_def command_step_def IsHealthy_iff)
qed

section \<open>Properties\<close>

text \<open>
  C15: the list of running pipelines. \<open>extractPipelines\<close> recovers from Ruby's rendering of a
  nonempty array of symbols exactly the pipelines' names, in their order, for all names of
  letters, digits, underscores, hyphens and dots, whichever of them Ruby puts in quotes. The
  rendering of a symbol is Ruby's; that it is a colon and the name, quoted or not, is assumed
  of such names only.
\<close>

theorem extractPipelines_roundtrip:
  assumes "names \<noteq> []" and "\<forall>n \<in> set names. plain_name n"
    and "\<forall>n. plain_name n \<longrightarrow> prints_symbol inspect n"
  shows "extractPipelines (''['' @ join '', '' (map inspect names) @ '']'') = Some names"
  using assms by (intro extracted_names) auto

text \<open>Quoted when the name has a hyphen or a dot.\<close>

definition sample_inspect :: "string \<Rightarrow> string" where
  "sample_inspect n =
     (if list_ex (\<lambda>c. c = CHR ''-'' \<or> c = CHR ''.'') n then '':'' @ [CHR 0x22] @ n @ [CHR 0x22] else '':'' @ n)"

theorem extractPipelines_roundtrip_witness:
  "extractPipelines (''[:output, :'' @ [CHR 0x22] @ ''lfv_main-test'' @ [CHR 0x22] @ '', :lfv_input_1]'')
     = Some [''output'', ''lfv_main-test'', ''lfv_input_1'']"
  using extractPipelines_roundtrip
    [of "[''output'', ''lfv_main-test'', ''lfv_input_1'']" sample_inspect]
  by (simp add: plain_name_def prints_symbol_def sample_inspect_def)

text \<open>
  The standard output of Logstash. From output made of lines that each fit the scanner's
  buffer, the reader hands the controller exactly the lines that start with an opening brace,
  in their order and unchanged, and the completion is started exactly if they make up the
  expected number; the end of the output leaves the state alone during a shutdown and makes
  the instance unhealthy, with its context cancelled, otherwise.
\<close>

lemma stdout_collects:
  assumes "\<forall>l \<in> set ls. fits l"
    and "run_calls io (stdoutProcessor True shutdown (unlines ls)) c = (new, c')"
  shows "events_get (c_events c') = events_get (c_events c) @ filter (\<lambda>l. has_prefix l ''{'') ls \<and>
    new = (if \<not> completeFirstTime (c_events c) \<and>
        int (length (events_get (c_events c))) < ev_expected (c_events c) \<and>
        ev_expected (c_events c) \<le> int (length (events_get (c_events c'))) then [Complete_wait] else []) \<and>
    (if shutdown then c_sm c' = c_sm c else \<not> IsHealthy c' \<and> sm_done (c_sm c'))"
proof -
  have scan: "fst (scan (unlines ls)) = ls" using scan_unlines [OF assms(1), of "[]"] by simp
  note run = run_stdout [OF assms(2), unfolded scan]
  let ?ls = "filter (\<lambda>l. has_prefix l ''{'') ls"
  from run(2) have "new = (if \<not> completeFirstTime (c_events c) \<and>
        int (length (events_get (c_events c))) < ev_expected (c_events c) \<and>
        ev_expected (c_events c) \<le> int (length (events_get (c_events c) @ ?ls)) then [Complete_wait] else [])"
    using ev.receive_all_facts [of ?ls 0 "c_events c"] by auto
  with run(1,3) show ?thesis by simp
qed

text \<open>
  C30: a line of the standard output that does not fit the scanner's buffer of 64 KiB ends the
  collection: that event and everything after it is lost, and unless the daemon is shutting down
  the instance is treated as crashed, though Logstash runs on.
\<close>

theorem oversized_line_crashes:
  assumes "\<forall>l \<in> set ls. fits l" and "newline \<notin> set long" and "max_token \<le> length long"
    and "run_calls io (stdoutProcessor True False (unlines ls @ long @ rest)) c = (new, c')"
  shows "events_get (c_events c') = events_get (c_events c) @ filter (\<lambda>l. has_prefix l ''{'') ls \<and>
    \<not> IsHealthy c'"
proof -
  have scan: "fst (scan (unlines ls @ long @ rest)) = ls"
    using scan_unlines [OF assms(1)] scan_oversized [OF assms(2,3)] by simp
  from run_stdout(1,3) [OF assms(4), unfolded scan] show ?thesis by simp
qed

theorem oversized_line_crashes_witness:
  "\<exists>new c'. run_calls calm_io (stdoutProcessor True False
        (unlines [''{}''] @ (CHR ''{'' # replicate max_token (CHR ''a'')) @ unlines [''{}'']))
      \<lparr>c_id = ''id'', c_workDir = ''/tmp'', c_sm = \<lparr>sm_done = False, currentState = stateRunningTest\<rparr>,
        c_ordered = False, c_events = newEvents\<lparr>ev_expected := 3\<rparr>, c_pipes = [],
        c_instanceReady = True, c_files = [], c_reloads = 0\<rparr> = (new, c') \<and>
    events_get (c_events c') = [''{}''] \<and> \<not> IsHealthy c'" (is "\<exists>new c'. ?run = _ \<and> _")
proof -
  obtain new c' where run: "?run = (new, c')" by fastforce
  have "\<forall>l \<in> set [''{}'']. fits l" "newline \<notin> set (CHR ''{'' # replicate max_token (CHR ''a''))"
    "max_token \<le> length (CHR ''{'' # replicate max_token (CHR ''a''))"
    by (simp_all add: fits_def newline_def max_token_def)
  from oversized_line_crashes [OF this run] show ?thesis
    using run by (simp add: has_prefix_def newEvents_def events_get_def)
qed

text \<open>
  The log line "Pipelines running" of a Logstash that has loaded what was registered with
  the last reload issues exactly one pipeline-ready command: whatever else Logstash runs, a
  controller that has reloaded for the set-up or for a test moves on to the next state, and
  starts no goroutine.
\<close>

theorem running_line_advances:
  assumes "gj_get gj line ''logEvent.message'' = ''Pipelines running''"
    and "gj_get gj line ''logEvent.running_pipelines.0.metaClass.metaClass.metaClass.running_pipelines''
      = ''['' @ join '', '' (map inspect names) @ '']''"
    and "names \<noteq> []" and "\<forall>n \<in> set names. plain_name n \<and> prints_symbol inspect n"
    and "c_pipes c = pipelines_reset registered p" and "set registered \<subseteq> set names"
    and "pipelines_running \<notin> set names"
    and "sm_step (c_state c) commandPipelineReady st"
  shows "\<exists>c'. run_calls io (log_line gj line) c = ([], c') \<and> c_state c' = st \<and>
    isReady (c_pipes c') \<and> c_events c' = c_events c"
proof -
  have calls: "log_line gj line = [PipelinesReady_set names, PipelinesReady_set [pipelines_running]]"
    using assms(1,2) extracted_names [OF assms(3,4)] by (simp add: log_line_def pipelines_running_def)
  let ?c1 = "c\<lparr>c_pipes := setReady names (c_pipes c)\<rparr>"
  let ?q = "setReady names (pipelines_reset registered p)"
  have wf: "mwf ?q" "mwf (setReady [pipelines_running] ?q)"
    by (intro mwf_setReady mwf_pipelines_reset)+
  have "\<not> isReady ?q"
    using assms(7) by (auto simp: isReady_mget [OF wf(1)] mget_setReady mget_pipelines_reset
        intro!: exI [of _ pipelines_running])
  then have s1: "run_thread 6 io (PipelinesReady_set names) c = (Finished (Returned None), [], ?c1)"
    using assms(5) by (simp add: eval_nat_numeral)
  have ready: "isReady (setReady [pipelines_running] ?q)"
    using assms(6) by (auto simp: isReady_mget [OF wf(2)] mget_setReady mget_pipelines_reset image_iff)
  then have s2: "run_thread 6 io (PipelinesReady_set [pipelines_running]) ?c1
     = (Finished (Returned None), [], ?c1\<lparr>c_pipes := setReady [pipelines_running] ?q,
         c_instanceReady := True, c_sm := (c_sm c)\<lparr>currentState := st\<rparr>\<rparr>)"
    using assms(5,8) by (auto simp: eval_nat_numeral command_step_def executeCommand_def sm_step_iff)
  show ?thesis
    unfolding calls by (simp only: run_calls_step [OF s1] run_calls_step [OF s2] run_calls.simps(1))
      (simp add: ready)
qed

theorem running_line_advances_witness:
  "\<exists>c'. run_calls calm_io
      (log_line \<lparr>gj_get = (\<lambda>line path. if path = ''logEvent.message'' then ''Pipelines running''
          else ''['' @ join '', '' (map sample_inspect [''output'', ''main-x'']) @ '']''), gj_array = (\<lambda>line path. [])\<rparr> [])
      \<lparr>c_id = ''id'', c_workDir = ''/tmp'', c_sm = \<lparr>sm_done = False, currentState = stateSettingUpTest\<rparr>,
        c_ordered = False, c_events = newEvents, c_pipes = pipelines_reset [''main-x''] [],
        c_instanceReady = True, c_files = [], c_reloads = 1\<rparr> = ([], c') \<and>
    c_state c' = stateReadyForTest \<and> isReady (c_pipes c') \<and> c_events c' = newEvents"
  (is "\<exists>c'. run_calls calm_io (log_line ?gj []) ?c = _ \<and> _")
  using running_line_advances [of ?gj "[]" sample_inspect "[''output'', ''main-x'']" ?c
      "[''main-x'']" "[]" stateReadyForTest calm_io]
  by (simp add: plain_name_def prints_symbol_def sample_inspect_def pipelines_running_def)

end
