(* ===== verification/Logstash_Config.thy ===== *)
theory Logstash_Config
  imports Pipeline_Type Go_Template
begin

text \<open>
  The rewriting of Logstash configuration files, \<open>internal/daemon/logstashconfig/file.go\<close>, and
  the plugin mocks, \<open>internal/daemon/pluginmock/pluginmock.go\<close>. The parser and the syntax tree
  come from the package \<open>breml/logstash-config\<close>, which is not part of the repository: they are
  the operations of a parameter, the record \<open>ast_lib\<close>. The random identifiers of \<open>idgen\<close> are
  a sequence, with the number of those already drawn threaded through the walks.
\<close>

section \<open>The library of the syntax tree\<close>

datatype plugin_type = Input | Filter | Output

text \<open>
  \<open>al_plugins\<close> lists the plugins of a section's blocks in the order in which \<open>ApplyPlugins\<close>
  visits them; \<open>al_update\<close> puts at each of these positions the plugin that is to stand there, or
  none. \<open>al_parse\<close> yields \<open>None\<close> when the parsed value is not a configuration; attributes may be nil.
\<close>

record ('cfg, 'pl, 'at) ast_lib =
  al_parse :: "string \<Rightarrow> string \<Rightarrow> 'cfg option result"
  al_render :: "'cfg \<Rightarrow> string"
  al_plugins :: "plugin_type \<Rightarrow> 'cfg \<Rightarrow> 'pl list"
  al_update :: "plugin_type \<Rightarrow> 'pl option list \<Rightarrow> 'cfg \<Rightarrow> 'cfg"
  al_Name :: "'pl \<Rightarrow> string"
  al_ID :: "'pl \<Rightarrow> string option"
  al_Attributes :: "'pl \<Rightarrow> 'at option list"
  al_setAttributes :: "'at option list \<Rightarrow> 'pl \<Rightarrow> 'pl"
  al_NewPlugin :: "string \<Rightarrow> 'at list \<Rightarrow> 'pl"
  al_attrName :: "'at \<Rightarrow> string"
  al_attrString :: "'at \<Rightarrow> string"
  al_NewString :: "string \<Rightarrow> string \<Rightarrow> 'at"
  al_NewArray :: "string \<Rightarrow> 'at list \<Rightarrow> 'at"

datatype 'pl edit = Keep | Replace 'pl | Delete

fun edited :: "'pl edit \<Rightarrow> 'pl \<Rightarrow> 'pl option" where
  "edited Keep p = Some p"
| "edited (Replace q) p = Some q"
| "edited Delete p = None"

fun walk_plugins :: "('pl \<Rightarrow> 's \<Rightarrow> 'pl edit \<times> 's) \<Rightarrow> 'pl list \<Rightarrow> 's \<Rightarrow> 'pl option list \<times> 's" where
  "walk_plugins walk [] s = ([], s)"
| "walk_plugins walk (p # ps) s =
     (let (e, s1) = walk p s; (qs, s2) = walk_plugins walk ps s1 in (edited e p # qs, s2))"

definition apply_plugins ::
    "('cfg, 'pl, 'at) ast_lib \<Rightarrow> plugin_type \<Rightarrow> ('pl \<Rightarrow> 's \<Rightarrow> 'pl edit \<times> 's) \<Rightarrow> 'cfg \<times> 's \<Rightarrow> 'cfg \<times> 's" where
  "apply_plugins al sec walk = (\<lambda>(cfg, s).
     let (qs, s') = walk_plugins walk (al_plugins al sec cfg) s in (al_update al sec qs cfg, s'))"

section \<open>Files\<close>

record 'cfg config_file =
  f_Name :: string
  f_Body :: string
  f_config :: "'cfg option"

text \<open>\<open>io\<close> gives the outcome of creating a directory and of writing a file.\<close>

definition Save :: "(string \<Rightarrow> gerror option) \<Rightarrow> string \<Rightarrow> 'cfg config_file \<Rightarrow> file_map \<Rightarrow> file_map result" where
  "Save io targetDir f files =
     rbind (check (io (path_join [targetDir, path_dir (f_Name f)])) ()) (\<lambda>_.
       (let name = path_join [targetDir, f_Name f]
        in check (io name) (mput name (f_Body f) files)))"

definition parse :: "('cfg, 'pl, 'at) ast_lib \<Rightarrow> 'cfg config_file \<Rightarrow> 'cfg result" where
  "parse al f =
     (case f_config f of
        Some cfg \<Rightarrow> Ok cfg
      | None \<Rightarrow> rbind (al_parse al (f_Name f) (f_Body f)) (\<lambda>r.
          (case r of None \<Rightarrow> Err (Errorf ''not a valid logstash config'' []) | Some cfg \<Rightarrow> Ok cfg)))"

definition with_config :: "('cfg, 'pl, 'at) ast_lib \<Rightarrow> 'cfg \<Rightarrow> 'cfg config_file \<Rightarrow> 'cfg config_file" where
  "with_config al cfg f = f\<lparr>f_config := Some cfg, f_Body := al_render al cfg\<rparr>"

definition is_alnum :: "char \<Rightarrow> bool" where
  "is_alnum c \<longleftrightarrow> (let n = (of_char c :: nat)
     in 65 \<le> n \<and> n \<le> 90 \<or> 97 \<le> n \<and> n \<le> 122 \<or> 48 \<le> n \<and> n \<le> 57)"

text \<open>\<open>strings.Map\<close> visits the string rune by rune: a character of several bytes becomes one underscore.\<close>

function pluginIDSave :: "string \<Rightarrow> string" where
  "pluginIDSave [] = []"
| "pluginIDSave (c # s) =
     (if is_alnum c then c else CHR ''_'') # pluginIDSave (drop (rune_width (c # s)) (c # s))"
  by pat_completeness auto
termination by (relation "measure length") (auto simp: rune_width_pos)

declare pluginIDSave.simps(2) [simp del]

section \<open>Inputs and outputs\<close>

definition plugin_id :: "('cfg, 'pl, 'at) ast_lib \<Rightarrow> (nat \<Rightarrow> string) \<Rightarrow> 'pl \<Rightarrow> nat \<Rightarrow> string \<times> nat" where
  "plugin_id al gen p n = (case al_ID al p of Some i \<Rightarrow> (i, n) | None \<Rightarrow> (gen n, Suc n))"

definition input_address :: "string \<Rightarrow> string \<Rightarrow> string" where
  "input_address idPrefix pid = ''__lfv_input'' @ ''_'' @ idPrefix @ ''_'' @ pid"

fun input_attrs :: "('cfg, 'pl, 'at) ast_lib \<Rightarrow> string \<Rightarrow> 'at option list \<Rightarrow> 'at list
    \<Rightarrow> (string, string) gmap \<Rightarrow> 'at list \<times> (string, string) gmap" where
  "input_attrs al pid [] attrs codecs = (attrs, codecs)"
| "input_attrs al pid (None # as) attrs codecs = input_attrs al pid as attrs codecs"
| "input_attrs al pid (Some a # as) attrs codecs =
     (if al_attrName al a \<in> {''add_field'', ''tags'', ''type''}
      then input_attrs al pid as (attrs @ [a]) codecs
      else if al_attrName al a = ''codec''
      then input_attrs al pid as attrs (mput pid (al_attrString al a) codecs)
      else input_attrs al pid as attrs codecs)"

definition replaceInputs :: "('cfg, 'pl, 'at) ast_lib \<Rightarrow> (nat \<Rightarrow> string) \<Rightarrow> string \<Rightarrow> 'pl
    \<Rightarrow> (string, string) gmap \<times> nat \<Rightarrow> 'pl edit \<times> (string, string) gmap \<times> nat" where
  "replaceInputs al gen idPrefix p = (\<lambda>(codecs, n).
     if al_Name al p = ''pipeline'' then (Keep, codecs, n)
     else let (pid, n') = plugin_id al gen p n;
              (attrs, codecs') = input_attrs al pid (al_Attributes al p)
                [al_NewString al ''address'' (input_address idPrefix pid)] codecs
          in (Replace (al_NewPlugin al ''pipeline'' attrs), codecs', n'))"

definition ReplaceInputs :: "('cfg, 'pl, 'at) ast_lib \<Rightarrow> (nat \<Rightarrow> string) \<Rightarrow> string \<Rightarrow> 'cfg config_file \<Rightarrow> nat
    \<Rightarrow> ((string, string) gmap \<times> 'cfg config_file \<times> nat) result" where
  "ReplaceInputs al gen idPrefix f n =
     rbind (parse al f) (\<lambda>cfg.
       (let (cfg', codecs, n') = apply_plugins al Input (replaceInputs al gen idPrefix) (cfg, [], n)
        in Ok (codecs, with_config al cfg' f, n')))"

definition output_name :: "string \<Rightarrow> string" where
  "output_name i = ''lfv_output_'' @ i"

definition replaceOutput :: "('cfg, 'pl, 'at) ast_lib \<Rightarrow> (nat \<Rightarrow> string) \<Rightarrow> 'pl
    \<Rightarrow> string list \<times> nat \<Rightarrow> 'pl edit \<times> string list \<times> nat" where
  "replaceOutput al gen p = (\<lambda>(outputs, n).
     if al_Name al p = ''pipeline'' then (Keep, outputs, n)
     else let (pid, n') = plugin_id al gen p n; pid = pluginIDSave pid
          in (Replace (al_NewPlugin al ''pipeline''
                [al_NewArray al ''send_to'' [al_NewString al [] (output_name pid)]]),
              outputs @ [pid], n'))"

definition ReplaceOutputs :: "('cfg, 'pl, 'at) ast_lib \<Rightarrow> (nat \<Rightarrow> string) \<Rightarrow> 'cfg config_file \<Rightarrow> nat
    \<Rightarrow> (string list \<times> 'cfg config_file \<times> nat) result" where
  "ReplaceOutputs al gen f n =
     rbind (parse al f) (\<lambda>cfg.
       (let (cfg', outputs, n') = apply_plugins al Output (replaceOutput al gen) (cfg, [], n)
        in Ok (outputs, with_config al cfg' f, n')))"

section \<open>Validation\<close>

record validator =
  v_noIDs :: "string list"
  v_pluginIDs :: "(string, nat) gmap"
  v_inputs :: "(string, nat) gmap"
  v_outputs :: "(string, nat) gmap"
  v_count :: nat

definition count_up :: "string \<Rightarrow> (string, nat) gmap \<Rightarrow> (string, nat) gmap" where
  "count_up k m = mput k (case mget m k of None \<Rightarrow> 1 | Some n \<Rightarrow> Suc n) m"

definition missing_id :: "string \<Rightarrow> nat \<Rightarrow> string" where
  "missing_id name n = ''id_missing_'' @ name @ ''_'' @ pad4 n"

definition count_plugin :: "plugin_type \<Rightarrow> string \<Rightarrow> string \<Rightarrow> validator \<Rightarrow> validator" where
  "count_plugin ty name pid v =
     v\<lparr>v_pluginIDs := count_up pid (v_pluginIDs v),
       v_inputs := (if ty = Input \<and> name \<noteq> ''pipeline'' then count_up pid (v_inputs v) else v_inputs v),
       v_outputs := (if ty = Output \<and> name \<noteq> ''pipeline'' then count_up pid (v_outputs v) else v_outputs v)\<rparr>"

definition validate_walk :: "('cfg, 'pl, 'at) ast_lib \<Rightarrow> string \<Rightarrow> bool \<Rightarrow> plugin_type \<Rightarrow> 'pl
    \<Rightarrow> validator \<Rightarrow> 'pl edit \<times> validator" where
  "validate_walk al vname addMissingID ty p v =
     (let v = v\<lparr>v_count := Suc (v_count v)\<rparr>; name = al_Name al p
      in case al_ID al p of
           Some pid \<Rightarrow> (Keep, count_plugin ty name pid v)
         | None \<Rightarrow>
             if addMissingID then
               (let pid = missing_id vname (v_count v)
                in (Replace (al_setAttributes al
                      (al_Attributes al p @ [Some (al_NewString al ''id'' pid)]) p),
                    count_plugin ty name pid v))
             else (Keep, v\<lparr>v_noIDs := v_noIDs v @ [name]\<rparr>))"

fun first_duplicate :: "(string, nat) gmap \<Rightarrow> (string \<times> nat) option" where
  "first_duplicate [] = None"
| "first_duplicate ((i, n) # m) = (if n \<noteq> 1 then Some (i, n) else first_duplicate m)"

definition Validate :: "('cfg, 'pl, 'at) ast_lib \<Rightarrow> bool \<Rightarrow> 'cfg config_file
    \<Rightarrow> ((string, nat) gmap \<times> (string, nat) gmap \<times> 'cfg config_file) result" where
  "Validate al addMissingID f =
     rbind (parse al f) (\<lambda>cfg.
       (let walk = validate_walk al (pluginIDSave (f_Name f)) addMissingID;
            start = \<lparr>v_noIDs = [], v_pluginIDs = [], v_inputs = [], v_outputs = [], v_count = 0\<rparr>;
            (cfg', v) = apply_plugins al Output (walk Output) (apply_plugins al Filter (walk Filter)
                          (apply_plugins al Input (walk Input) (cfg, start)))
        in if v_noIDs v \<noteq> [] then Err (Errorf ''%q no IDs found for %v'' (f_Name f # v_noIDs v))
           else (case first_duplicate (v_pluginIDs v) of
                   Some (i, n) \<Rightarrow> Err (Errorf ''plugin id must be unique, but %q appeared %d times'' [i, itoa n])
                 | None \<Rightarrow> Ok (v_inputs v, v_outputs v,
                     if addMissingID then with_config al cfg' f else f\<lparr>f_config := Some cfg'\<rparr>))))"

section \<open>Mocks\<close>

text \<open>
  The mocks map an id to the replacement plugin, \<open>None\<close> being the nil pointer. The replacement
  is shared: the walk appends to the attributes of the plugin that the map points to.
\<close>

type_synonym 'pl mocks = "(string, 'pl option) gmap"

definition mock_walk :: "('cfg, 'pl, 'at) ast_lib \<Rightarrow> 'pl \<Rightarrow> 'pl mocks \<Rightarrow> 'pl edit \<times> 'pl mocks" where
  "mock_walk al p m =
     (case al_ID al p of
        None \<Rightarrow> (Keep, m)
      | Some pid \<Rightarrow>
          (case mget m pid of
             None \<Rightarrow> (Keep, m)
           | Some None \<Rightarrow> (Delete, m)
           | Some (Some replacement) \<Rightarrow>
               (let r = al_setAttributes al
                          (al_Attributes al replacement @ [Some (al_NewString al ''id'' pid)]) replacement
                in (Replace r, mput pid (Some r) m))))"

definition ApplyMocks :: "('cfg, 'pl, 'at) ast_lib \<Rightarrow> 'pl mocks \<Rightarrow> 'cfg config_file \<Rightarrow> ('pl mocks \<times> 'cfg config_file) result" where
  "ApplyMocks al m f =
     rbind (parse al f) (\<lambda>cfg.
       (let (cfg', m') = apply_plugins al Output (mock_walk al) (apply_plugins al Filter (mock_walk al)
                           (apply_plugins al Input (mock_walk al) (cfg, m)))
        in Ok (m', with_config al cfg' f)))"

text \<open>
  \<open>FromFile\<close>: \<open>read\<close> is the outcome of reading and decoding the file, \<open>first_filter\<close> the first
  plugin of the first filter block, if the parsed text has one. A later entry replaces an earlier
  one with the same id.
\<close>

definition wrap_mock :: "string \<Rightarrow> string" where
  \<open>wrap_mock mock = ''filter {
'' @ mock @ ''
}''\<close>

definition add_mock :: "('cfg, 'pl, 'at) ast_lib \<Rightarrow> ('cfg \<Rightarrow> 'pl option) \<Rightarrow> string \<times> string
    \<Rightarrow> 'pl mocks \<Rightarrow> 'pl mocks result" where
  "add_mock al first_filter = (\<lambda>(i, mock) m.
     if mock = [] then Ok (mput i None m)
     else rbind (al_parse al [] (wrap_mock mock)) (\<lambda>r.
       (case Option.bind r first_filter of
          None \<Rightarrow> Err (Errorf ''failed to parse mock: %s'' [mock])
        | Some p \<Rightarrow> Ok (mput i (Some p) m))))"

definition FromFile :: "('cfg, 'pl, 'at) ast_lib \<Rightarrow> ('cfg \<Rightarrow> 'pl option) \<Rightarrow> (string \<Rightarrow> (string \<times> string) list result)
    \<Rightarrow> string \<Rightarrow> 'pl mocks result" where
  "FromFile al first_filter read filename =
     (if filename = [] then Ok []
      else rbind (read filename) (\<lambda>mocks. each (add_mock al first_filter) mocks []))"

section \<open>What the code relies on\<close>

text \<open>
  The documented behaviour of the library: an update of a section puts the given plugins in
  place of its plugins and leaves the other sections alone; a new plugin has the given name and
  attributes; setting the attributes keeps the name, and a plugin without an attribute of the name
  \<open>id\<close> to which one is appended has that id. (\<open>ID\<close> also fails for an \<open>id\<close> attribute that is not a
  string. Nothing is relied on for such a plugin.)
\<close>

definition present :: "'a option list \<Rightarrow> 'a list" where
  "present qs = map the (filter (\<lambda>q. q \<noteq> None) qs)"

definition lacks_id :: "('cfg, 'pl, 'at) ast_lib \<Rightarrow> 'pl \<Rightarrow> bool" where
  "lacks_id al p \<longleftrightarrow> (\<forall>a \<in> set (present (al_Attributes al p)). al_attrName al a \<noteq> ''id'')"

definition ast_ok :: "('cfg, 'pl, 'at) ast_lib \<Rightarrow> bool" where
  "ast_ok al \<longleftrightarrow>
     (\<forall>sec qs cfg. length qs = length (al_plugins al sec cfg) \<longrightarrow>
        al_plugins al sec (al_update al sec qs cfg) = present qs) \<and>
     (\<forall>sec sec' qs cfg. sec' \<noteq> sec \<longrightarrow> al_plugins al sec' (al_update al sec qs cfg) = al_plugins al sec' cfg) \<and>
     (\<forall>name attrs. al_Name al (al_NewPlugin al name attrs) = name \<and>
        al_Attributes al (al_NewPlugin al name attrs) = map Some attrs) \<and>
     (\<forall>as p. al_Name al (al_setAttributes al as p) = al_Name al p \<and>
        al_Attributes al (al_setAttributes al as p) = as) \<and>
     (\<forall>p i. al_ID al p = None \<and> lacks_id al p \<longrightarrow>
        al_ID al (al_setAttributes al (al_Attributes al p @ [Some (al_NewString al ''id'' i)]) p) = Some i)"

text \<open>An instance: a tree that lists the plugins of each section with their attributes.\<close>

type_synonym sample_plugin = "string \<times> (string \<times> string) option list"

definition sample_ast :: "(plugin_type \<Rightarrow> sample_plugin list, sample_plugin, string \<times> string) ast_lib" where
  "sample_ast = \<lparr>
     al_parse = (\<lambda>name body. Ok (Some (\<lambda>_. []))),
     al_render = (\<lambda>cfg. []),
     al_plugins = (\<lambda>sec cfg. cfg sec),
     al_update = (\<lambda>sec qs cfg. cfg(sec := present qs)),
     al_Name = fst,
     al_ID = (\<lambda>p. map_of (present (snd p)) ''id''),
     al_Attributes = snd,
     al_setAttributes = (\<lambda>as p. (fst p, as)),
     al_NewPlugin = (\<lambda>name attrs. (name, map Some attrs)),
     al_attrName = fst,
     al_attrString = snd,
     al_NewString = Pair,
     al_NewArray = (\<lambda>name as. (name, concat (map snd as)))\<rparr>"

lemma present_append [simp]: "present (xs @ ys) = present xs @ present ys"
  by (simp add: present_def)

lemma present_Some [simp]: "present (map Some xs) = xs"
  by (simp add: present_def)

lemma present_simps [simp]: "present [] = []" "present (Some x # qs) = x # present qs"
  "present (None # qs) = present qs"
  by (simp_all add: present_def)

lemma ast_ok_sample: "ast_ok sample_ast"
  by (simp add: ast_ok_def sample_ast_def map_add_def)

lemma ast_update:
  assumes "ast_ok al"
  shows "length qs = length (al_plugins al sec cfg) \<Longrightarrow> al_plugins al sec (al_update al sec qs cfg) = present qs"
    "sec' \<noteq> sec \<Longrightarrow> al_plugins al sec' (al_update al sec qs cfg) = al_plugins al sec' cfg"
  using assms by (simp_all add: ast_ok_def)

lemma length_walk_plugins [simp]: "length (fst (walk_plugins walk ps s)) = length ps"
  by (induction ps arbitrary: s) (simp_all add: split_beta Let_def)

lemma apply_plugins_same:
  assumes "ast_ok al"
  shows "al_plugins al sec (fst (apply_plugins al sec walk (cfg, s)))
    = present (fst (walk_plugins walk (al_plugins al sec cfg) s))"
  using ast_update(1) [OF assms] by (simp add: apply_plugins_def split_beta Let_def)

lemma apply_plugins_other:
  assumes "ast_ok al" and "sec' \<noteq> sec"
  shows "al_plugins al sec' (fst (apply_plugins al sec walk cs)) = al_plugins al sec' (fst cs)"
  using ast_update(2) [OF assms] by (cases cs) (simp add: apply_plugins_def split_beta Let_def)

lemma apply_plugins_state:
  "snd (apply_plugins al sec walk (cfg, s)) = snd (walk_plugins walk (al_plugins al sec cfg) s)"
  by (simp add: apply_plugins_def split_beta Let_def)

text \<open>A walk that decides each plugin by itself edits the plugins one by one.\<close>

lemma walk_map:
  assumes "\<And>p s. p \<in> set ps \<Longrightarrow> fst (walk p s) = ed p"
  shows "present (fst (walk_plugins walk ps s)) = concat (map (\<lambda>p. present [edited (ed p) p]) ps)"
  using assms
proof (induction ps arbitrary: s)
  case (Cons p ps)
  then show ?case by (cases "ed p") (auto simp: split_beta Let_def)
qed simp

lemma walk_state:
  assumes "\<And>p s. p \<in> set ps \<Longrightarrow> snd (walk p s) = g p s"
  shows "snd (walk_plugins walk ps s) = fold g ps s"
  using assms by (induction ps arbitrary: s) (simp_all add: split_beta Let_def)

lemma concat_singletons: "concat (map (\<lambda>x. [f x]) xs) = map f xs"
  by (induction xs) auto

section \<open>Safe identifiers\<close>

lemma pluginIDSave_chars: "c \<in> set (pluginIDSave s) \<Longrightarrow> is_alnum c \<or> c = CHR ''_''"
proof (induction s rule: pluginIDSave.induct)
  case (2 c' s)
  then show ?case by (auto simp: pluginIDSave.simps(2) split: if_splits)
qed simp

lemma pluginIDSave_alnum: "\<forall>c \<in> set s. is_alnum c \<or> c = CHR ''_'' \<Longrightarrow> pluginIDSave s = s"
proof (induction s rule: pluginIDSave.induct)
  case (2 c s)
  then have "(of_char c :: nat) < 128" by (auto simp: is_alnum_def Let_def)
  with 2 show ?case by (auto simp: pluginIDSave.simps(2) rune_width_ascii)
qed simp

lemma pluginIDSave_idem [simp]: "pluginIDSave (pluginIDSave s) = pluginIDSave s"
  by (rule pluginIDSave_alnum) (use pluginIDSave_chars in blast)

section \<open>Inputs and outputs after the replacement\<close>

definition is_pipeline :: "('cfg, 'pl, 'at) ast_lib \<Rightarrow> 'pl \<Rightarrow> bool" where
  "is_pipeline al p \<longleftrightarrow> al_Name al p = ''pipeline''"

definition the_id :: "('cfg, 'pl, 'at) ast_lib \<Rightarrow> 'pl \<Rightarrow> string" where
  "the_id al p = the (al_ID al p)"

definition has_ids :: "('cfg, 'pl, 'at) ast_lib \<Rightarrow> 'pl list \<Rightarrow> bool" where
  "has_ids al ps \<longleftrightarrow> (\<forall>p \<in> set ps. al_ID al p \<noteq> None)"

lemma plugin_id_some: "al_ID al p \<noteq> None \<Longrightarrow> plugin_id al gen p n = (the_id al p, n)"
  by (auto simp: plugin_id_def the_id_def)

lemma walk_outputs:
  assumes "has_ids al ps"
  shows "walk_plugins (replaceOutput al gen) ps (outputs, n) =
    (map (\<lambda>p. Some (if is_pipeline al p then p else al_NewPlugin al ''pipeline''
        [al_NewArray al ''send_to'' [al_NewString al [] (output_name (pluginIDSave (the_id al p)))]])) ps,
     outputs @ map (\<lambda>p. pluginIDSave (the_id al p)) (filter (\<lambda>p. \<not> is_pipeline al p) ps), n)"
  using assms
proof (induction ps arbitrary: outputs)
  case (Cons p ps)
  then have ids: "has_ids al ps" "al_ID al p \<noteq> None" by (simp_all add: has_ids_def)
  have "replaceOutput al gen p (outputs, n) =
      (if is_pipeline al p then (Keep, outputs, n)
       else (Replace (al_NewPlugin al ''pipeline''
          [al_NewArray al ''send_to'' [al_NewString al [] (output_name (pluginIDSave (the_id al p)))]]),
          outputs @ [pluginIDSave (the_id al p)], n))"
    by (simp add: replaceOutput_def plugin_id_some [OF ids(2)] is_pipeline_def Let_def)
  with Cons.IH [OF ids(1)] show ?case by simp
qed simp

definition kept_attr :: "('cfg, 'pl, 'at) ast_lib \<Rightarrow> 'at \<Rightarrow> bool" where
  "kept_attr al a \<longleftrightarrow> al_attrName al a \<in> {''add_field'', ''tags'', ''type''}"

definition codec_attrs :: "('cfg, 'pl, 'at) ast_lib \<Rightarrow> 'pl \<Rightarrow> 'at list" where
  "codec_attrs al p = filter (\<lambda>a. al_attrName al a = ''codec'') (present (al_Attributes al p))"

lemma input_attrs_eq:
  "input_attrs al pid as attrs codecs =
     (attrs @ filter (kept_attr al) (present as),
      fold (\<lambda>a. mput pid (al_attrString al a)) (filter (\<lambda>a. al_attrName al a = ''codec'') (present as)) codecs)"
proof (induction al pid as attrs codecs rule: input_attrs.induct)
  case (3 al pid a as attrs codecs)
  then show ?case by (auto simp: kept_attr_def)
qed simp_all

definition replaced_input :: "('cfg, 'pl, 'at) ast_lib \<Rightarrow> string \<Rightarrow> 'pl \<Rightarrow> 'pl" where
  "replaced_input al idPrefix p =
     (if is_pipeline al p then p else al_NewPlugin al ''pipeline''
        (al_NewString al ''address'' (input_address idPrefix (the_id al p))
         # filter (kept_attr al) (present (al_Attributes al p))))"

definition add_codecs :: "('cfg, 'pl, 'at) ast_lib \<Rightarrow> 'pl \<Rightarrow> (string, string) gmap \<Rightarrow> (string, string) gmap" where
  "add_codecs al p codecs =
     (if is_pipeline al p then codecs
      else fold (\<lambda>a. mput (the_id al p) (al_attrString al a)) (codec_attrs al p) codecs)"

lemma walk_inputs:
  assumes "has_ids al ps"
  shows "walk_plugins (replaceInputs al gen idPrefix) ps (codecs, n) =
    (map (\<lambda>p. Some (replaced_input al idPrefix p)) ps, fold (add_codecs al) ps codecs, n)"
  using assms
proof (induction ps arbitrary: codecs)
  case (Cons p ps)
  then have ids: "has_ids al ps" "al_ID al p \<noteq> None" by (simp_all add: has_ids_def)
  have "replaceInputs al gen idPrefix p (codecs, n) =
      (if is_pipeline al p then Keep else Replace (replaced_input al idPrefix p), add_codecs al p codecs, n)"
    by (simp add: replaceInputs_def plugin_id_some [OF ids(2)] is_pipeline_def input_attrs_eq
        replaced_input_def add_codecs_def codec_attrs_def)
  with Cons.IH [OF ids(1)] show ?case by (simp add: replaced_input_def)
qed simp

lemma mget_fold_same:
  "mget (fold (\<lambda>a. mput k (f a)) as m) k' =
     (if k' = k \<and> as \<noteq> [] then Some (f (last as)) else mget m k')"
  by (induction as arbitrary: m) (auto simp: map_simps)

lemma mget_add_codecs:
  "mget (add_codecs al p codecs) i =
     (if \<not> is_pipeline al p \<and> i = the_id al p \<and> codec_attrs al p \<noteq> []
      then Some (al_attrString al (last (codec_attrs al p))) else mget codecs i)"
  by (simp add: add_codecs_def mget_fold_same)

lemma mget_fold_codecs:
  assumes "distinct (map (the_id al) ps)" and "p \<in> set ps" and "\<not> is_pipeline al p"
  shows "mget (fold (add_codecs al) ps codecs) (the_id al p) =
    (if codec_attrs al p = [] then mget codecs (the_id al p)
     else Some (al_attrString al (last (codec_attrs al p))))"
proof -
  have other: "mget (fold (add_codecs al) qs m) i = mget m i" if "i \<notin> the_id al ` set qs" for qs m i
    using that by (induction qs arbitrary: m) (auto simp: mget_add_codecs)
  obtain us vs where ps: "ps = us @ p # vs" using assms(2) by (meson split_list)
  with assms(1) have "the_id al p \<notin> the_id al ` set us" "the_id al p \<notin> the_id al ` set vs" by auto
  with ps assms(3) show ?thesis by (simp add: other mget_add_codecs)
qed

lemma with_config_simps [simp]: "f_config (with_config al cfg f) = Some cfg"
  "f_Body (with_config al cfg f) = al_render al cfg" "f_Name (with_config al cfg f) = f_Name f"
  by (simp_all add: with_config_def)

lemma parse_config: "f_config f = Some cfg \<Longrightarrow> parse al f = Ok cfg"
  by (simp add: parse_def)

section \<open>Counting and checking ids\<close>

lemma mget_count_up: "mget (count_up k m) i =
    (if i = k then Some (case mget m k of None \<Rightarrow> 1 | Some n \<Rightarrow> Suc n) else mget m i)"
  by (simp add: count_up_def map_simps)

lemma mwf_fold_count_up: "mwf m \<Longrightarrow> mwf (fold count_up ks m)"
  by (induction ks arbitrary: m) (simp_all add: count_up_def mwf_mput)

lemma mget_fold_count_up:
  "mget (fold count_up ks m) i =
     (if i \<in> set ks then Some ((case mget m i of None \<Rightarrow> 0 | Some n \<Rightarrow> n) + count_list ks i) else mget m i)"
proof (induction ks arbitrary: m)
  case (Cons k ks)
  have "count_list ks i = 0" if "i \<notin> set ks" using that by (simp add: count_list_0_iff)
  with Cons show ?case by (auto simp: mget_count_up split: option.splits)
qed simp

lemma first_duplicate_None: "first_duplicate m = None \<longleftrightarrow> (\<forall>(i, n) \<in> set m. n = 1)"
  by (induction m rule: first_duplicate.induct) auto

lemma count_list_distinct: "(\<forall>i \<in> set ks. count_list ks i = 1) \<longleftrightarrow> distinct ks"
  by (induction ks) (auto simp: count_list_0_iff)

lemma first_duplicate_ids: "first_duplicate (fold count_up ks []) = None \<longleftrightarrow> distinct ks"
proof -
  have "mwf (fold count_up ks [])" by (rule mwf_fold_count_up) simp
  then have "first_duplicate (fold count_up ks []) = None \<longleftrightarrow>
      (\<forall>i n. mget (fold count_up ks []) i = Some n \<longrightarrow> n = 1)"
    unfolding first_duplicate_None by (auto simp: mget_in)
  also have "\<dots> \<longleftrightarrow> (\<forall>i \<in> set ks. count_list ks i = 1)" by (auto simp: mget_fold_count_up)
  also have "\<dots> \<longleftrightarrow> distinct ks" by (rule count_list_distinct)
  finally show ?thesis .
qed

text \<open>How a plugin comes out of the validation, and what the validator has counted by then.\<close>

definition validated :: "('cfg, 'pl, 'at) ast_lib \<Rightarrow> bool \<Rightarrow> 'pl \<Rightarrow> 'pl \<Rightarrow> bool" where
  "validated al addMissingID p q \<longleftrightarrow>
     (if al_ID al p = None \<and> addMissingID then al_ID al q \<noteq> None \<and> al_Name al q = al_Name al p else q = p)"

text \<open>No plugin has an \<open>id\<close> attribute from which no id can be read.\<close>

definition ids_readable :: "('cfg, 'pl, 'at) ast_lib \<Rightarrow> 'pl list \<Rightarrow> bool" where
  "ids_readable al ps \<longleftrightarrow> (\<forall>p \<in> set ps. al_ID al p = None \<longrightarrow> lacks_id al p)"

definition with_id :: "('cfg, 'pl, 'at) ast_lib \<Rightarrow> 'pl list \<Rightarrow> 'pl list" where
  "with_id al ps = filter (\<lambda>p. al_ID al p \<noteq> None) ps"

definition ext_ids :: "('cfg, 'pl, 'at) ast_lib \<Rightarrow> 'pl list \<Rightarrow> string list" where
  "ext_ids al ps = map (the_id al) (filter (\<lambda>p. \<not> is_pipeline al p) (with_id al ps))"

lemma walk_validate:
  assumes "ast_ok al" and "b \<longrightarrow> ids_readable al ps"
  shows "let (es, v') = walk_plugins (validate_walk al vname b ty) ps v; qs = present es in
    list_all2 (validated al b) ps qs \<and>
    v_noIDs v' = v_noIDs v @ map (al_Name al) (filter (\<lambda>p. al_ID al p = None) qs) \<and>
    v_pluginIDs v' = fold count_up (map (the_id al) (with_id al qs)) (v_pluginIDs v) \<and>
    v_inputs v' = fold count_up (if ty = Input then ext_ids al qs else []) (v_inputs v) \<and>
    v_outputs v' = fold count_up (if ty = Output then ext_ids al qs else []) (v_outputs v)"
  using assms(2)
proof (induction ps arbitrary: v)
  case Nil
  then show ?case by (simp add: with_id_def ext_ids_def)
next
  case (Cons p ps)
  have readable: "b \<longrightarrow> ids_readable al ps" using Cons.prems by (simp add: ids_readable_def)
  obtain e v1 where st: "validate_walk al vname b ty p v = (e, v1)" by fastforce
  obtain es v2 where rest: "walk_plugins (validate_walk al vname b ty) ps v1 = (es, v2)" by fastforce
  note IH = Cons.IH [OF readable, of v1, unfolded rest]
  consider (has) i where "al_ID al p = Some i" | (add) "al_ID al p = None" b | (no) "al_ID al p = None" "\<not> b"
    by (cases "al_ID al p") auto
  then show ?case
  proof cases
    case (has i)
    then have "e = Keep" "v1 = count_plugin ty (al_Name al p) i (v\<lparr>v_count := Suc (v_count v)\<rparr>)"
      using st by (simp_all add: validate_walk_def Let_def)
    with IH st rest has show ?thesis
      by (simp add: validated_def with_id_def ext_ids_def the_id_def is_pipeline_def count_plugin_def Let_def)
  next
    case add
    define q where "q = al_setAttributes al
        (al_Attributes al p @ [Some (al_NewString al ''id'' (missing_id vname (Suc (v_count v))))]) p"
    have q: "al_ID al q = Some (missing_id vname (Suc (v_count v)))" "al_Name al q = al_Name al p"
      using assms(1) add Cons.prems by (simp_all add: ast_ok_def q_def ids_readable_def)
    have "e = Replace q" "v1 = count_plugin ty (al_Name al p) (missing_id vname (Suc (v_count v)))
        (v\<lparr>v_count := Suc (v_count v)\<rparr>)"
      using st add by (simp_all add: validate_walk_def Let_def q_def)
    with IH st rest add q show ?thesis
      by (simp add: validated_def with_id_def ext_ids_def the_id_def is_pipeline_def count_plugin_def Let_def)
  next
    case no
    then have "e = Keep" "v1 = v\<lparr>v_count := Suc (v_count v), v_noIDs := v_noIDs v @ [al_Name al p]\<rparr>"
      using st by (simp_all add: validate_walk_def Let_def)
    with IH st rest no show ?thesis
      by (simp add: validated_def with_id_def ext_ids_def the_id_def is_pipeline_def Let_def)
  qed
qed

definition all_plugins :: "('cfg, 'pl, 'at) ast_lib \<Rightarrow> 'cfg \<Rightarrow> 'pl list" where
  "all_plugins al cfg = al_plugins al Input cfg @ al_plugins al Filter cfg @ al_plugins al Output cfg"

lemma apply_sections:
  assumes "ast_ok al"
    and "apply_plugins al Input fi (cfg, v0) = (c1, v1)"
    and "apply_plugins al Filter ff (c1, v1) = (c2, v2)"
    and "apply_plugins al Output fo (c2, v2) = (c3, v3)"
  shows "al_plugins al Input c3 = present (fst (walk_plugins fi (al_plugins al Input cfg) v0))"
    and "v1 = snd (walk_plugins fi (al_plugins al Input cfg) v0)"
    and "al_plugins al Filter c3 = present (fst (walk_plugins ff (al_plugins al Filter cfg) v1))"
    and "v2 = snd (walk_plugins ff (al_plugins al Filter cfg) v1)"
    and "al_plugins al Output c3 = present (fst (walk_plugins fo (al_plugins al Output cfg) v2))"
    and "v3 = snd (walk_plugins fo (al_plugins al Output cfg) v2)"
proof -
  note same = apply_plugins_same [OF assms(1)] and other = apply_plugins_other [OF assms(1)]
  note ap = same [of Input fi cfg v0] same [of Filter ff c1 v1] same [of Output fo c2 v2]
    other [of Input Filter ff "(c1, v1)"] other [of Filter Input fi "(cfg, v0)"]
    other [of Input Output fo "(c2, v2)"] other [of Output Input fi "(cfg, v0)"]
    other [of Filter Output fo "(c2, v2)"] other [of Output Filter ff "(c1, v1)"]
    apply_plugins_state [of al Input fi cfg v0] apply_plugins_state [of al Filter ff c1 v1]
    apply_plugins_state [of al Output fo c2 v2]
  show "al_plugins al Input c3 = present (fst (walk_plugins fi (al_plugins al Input cfg) v0))"
    "v1 = snd (walk_plugins fi (al_plugins al Input cfg) v0)"
    "al_plugins al Filter c3 = present (fst (walk_plugins ff (al_plugins al Filter cfg) v1))"
    "v2 = snd (walk_plugins ff (al_plugins al Filter cfg) v1)"
    "al_plugins al Output c3 = present (fst (walk_plugins fo (al_plugins al Output cfg) v2))"
    "v3 = snd (walk_plugins fo (al_plugins al Output cfg) v2)"
    using ap assms(2-4) by simp_all
qed

text \<open>The three walks of a validation together.\<close>

lemma validate_walks:
  assumes "ast_ok al" and "apply_plugins al Output (validate_walk al vname b Output)
      (apply_plugins al Filter (validate_walk al vname b Filter)
        (apply_plugins al Input (validate_walk al vname b Input)
          (cfg, \<lparr>v_noIDs = [], v_pluginIDs = [], v_inputs = [], v_outputs = [], v_count = 0\<rparr>))) = (cfg', v)"
    and "b \<longrightarrow> ids_readable al (all_plugins al cfg)"
  shows "\<And>sec. list_all2 (validated al b) (al_plugins al sec cfg) (al_plugins al sec cfg')"
    and "v_noIDs v = map (al_Name al) (filter (\<lambda>p. al_ID al p = None) (all_plugins al cfg'))"
    and "v_pluginIDs v = fold count_up (map (the_id al) (with_id al (all_plugins al cfg'))) []"
    and "v_inputs v = fold count_up (ext_ids al (al_plugins al Input cfg')) []"
    and "v_outputs v = fold count_up (ext_ids al (al_plugins al Output cfg')) []"
proof -
  let ?walk = "validate_walk al vname b"
  let ?v0 = "\<lparr>v_noIDs = [], v_pluginIDs = [], v_inputs = [], v_outputs = [], v_count = 0\<rparr>"
  obtain c1 v1 where 1: "apply_plugins al Input (?walk Input) (cfg, ?v0) = (c1, v1)" by fastforce
  obtain c2 v2 where 2: "apply_plugins al Filter (?walk Filter) (c1, v1) = (c2, v2)" by fastforce
  from assms(2) 1 2 have 3: "apply_plugins al Output (?walk Output) (c2, v2) = (cfg', v)" by simp
  note sections = apply_sections [OF assms(1) 1 2 3]
  note I = sections(1,2) and F = sections(3,4) and O = sections(5,6)
  have readable: "b \<longrightarrow> ids_readable al (al_plugins al sec cfg)" for sec
    using assms(3) by (cases sec) (simp_all add: all_plugins_def ids_readable_def)
  note w = walk_validate [OF assms(1) readable, of vname, unfolded split_beta Let_def]
  note wi = w [of Input Input ?v0, folded I]
  note wf = w [of Filter Filter v1, folded F]
  note wo = w [of Output Output v2, folded O]
  show "list_all2 (validated al b) (al_plugins al sec cfg) (al_plugins al sec cfg')" for sec
    using wi wf wo by (cases sec) simp_all
  show "v_noIDs v = map (al_Name al) (filter (\<lambda>p. al_ID al p = None) (all_plugins al cfg'))"
    using wi wf wo by (simp add: all_plugins_def)
  show "v_pluginIDs v = fold count_up (map (the_id al) (with_id al (all_plugins al cfg'))) []"
    using wi wf wo by (simp add: all_plugins_def with_id_def)
  show "v_inputs v = fold count_up (ext_ids al (al_plugins al Input cfg')) []"
    using wi wf wo by simp
  show "v_outputs v = fold count_up (ext_ids al (al_plugins al Output cfg')) []"
    using wi wf wo by simp
qed

lemma validated_False: "list_all2 (validated al False) ps qs \<Longrightarrow> qs = ps"
  by (induction rule: list_all2_induct) (simp_all add: validated_def)

lemma validated_True: "list_all2 (validated al True) ps qs \<Longrightarrow>
    has_ids al qs \<and> map (al_Name al) qs = map (al_Name al) ps"
  by (induction rule: list_all2_induct) (auto simp: validated_def has_ids_def split: if_splits)

lemma with_id_all: "has_ids al ps \<Longrightarrow> with_id al ps = ps"
  by (simp add: has_ids_def with_id_def)

text \<open>What a validation returns, in terms of the plugins as they come out of the walks.\<close>

lemma Validate_eq:
  assumes "ast_ok al" and "parse al f = Ok cfg" and "b \<longrightarrow> ids_readable al (all_plugins al cfg)"
  obtains cfg' where "\<And>sec. list_all2 (validated al b) (al_plugins al sec cfg) (al_plugins al sec cfg')"
    "has_ids al (all_plugins al cfg') \<and> distinct (map (the_id al) (all_plugins al cfg')) \<Longrightarrow>
      Validate al b f = Ok (fold count_up (ext_ids al (al_plugins al Input cfg')) [],
        fold count_up (ext_ids al (al_plugins al Output cfg')) [],
        if b then with_config al cfg' f else f\<lparr>f_config := Some cfg'\<rparr>)"
    "\<not> (has_ids al (all_plugins al cfg') \<and> distinct (map (the_id al) (all_plugins al cfg'))) \<Longrightarrow>
      \<exists>e. Validate al b f = Err e"
proof -
  let ?walk = "validate_walk al (pluginIDSave (f_Name f)) b"
  let ?v0 = "\<lparr>v_noIDs = [], v_pluginIDs = [], v_inputs = [], v_outputs = [], v_count = 0\<rparr>"
  obtain cfg' v where r: "apply_plugins al Output (?walk Output) (apply_plugins al Filter (?walk Filter)
      (apply_plugins al Input (?walk Input) (cfg, ?v0))) = (cfg', v)" by fastforce
  note facts = validate_walks [OF assms(1) r assms(3)]
  have ids: "v_noIDs v = [] \<longleftrightarrow> has_ids al (all_plugins al cfg')"
    unfolding facts(2) by (auto simp: has_ids_def filter_empty_conv)
  have V: "Validate al b f = (if v_noIDs v \<noteq> [] then Err (Errorf ''%q no IDs found for %v'' (f_Name f # v_noIDs v))
     else (case first_duplicate (v_pluginIDs v) of
             Some (i, n) \<Rightarrow> Err (Errorf ''plugin id must be unique, but %q appeared %d times'' [i, itoa n])
           | None \<Rightarrow> Ok (v_inputs v, v_outputs v,
               if b then with_config al cfg' f else f\<lparr>f_config := Some cfg'\<rparr>)))"
    using assms(2) r by (simp add: Validate_def)
  show thesis
  proof (rule that [OF facts(1)])
    assume *: "has_ids al (all_plugins al cfg') \<and> distinct (map (the_id al) (all_plugins al cfg'))"
    then have "first_duplicate (v_pluginIDs v) = None"
      unfolding facts(3) first_duplicate_ids by (simp add: with_id_all)
    with * ids V facts(4,5) show "Validate al b f = Ok (fold count_up (ext_ids al (al_plugins al Input cfg')) [],
        fold count_up (ext_ids al (al_plugins al Output cfg')) [],
        if b then with_config al cfg' f else f\<lparr>f_config := Some cfg'\<rparr>)" by simp
  next
    assume *: "\<not> (has_ids al (all_plugins al cfg') \<and> distinct (map (the_id al) (all_plugins al cfg')))"
    show "\<exists>e. Validate al b f = Err e"
    proof (cases "v_noIDs v = []")
      case True
      with * ids have "\<not> distinct (map (the_id al) (with_id al (all_plugins al cfg')))" by (simp add: with_id_all)
      then have "first_duplicate (v_pluginIDs v) \<noteq> None" unfolding facts(3) first_duplicate_ids .
      with True V show ?thesis by auto
    qed (simp add: V)
  qed
qed

section \<open>Mocked plugins\<close>

definition mock_with_id :: "('cfg, 'pl, 'at) ast_lib \<Rightarrow> string \<Rightarrow> 'pl \<Rightarrow> 'pl" where
  "mock_with_id al i r = al_setAttributes al (al_Attributes al r @ [Some (al_NewString al ''id'' i)]) r"

definition mocked :: "('cfg, 'pl, 'at) ast_lib \<Rightarrow> 'pl mocks \<Rightarrow> 'pl \<Rightarrow> 'pl list" where
  "mocked al m p =
     (case al_ID al p of
        None \<Rightarrow> [p]
      | Some i \<Rightarrow> (case mget m i of None \<Rightarrow> [p] | Some None \<Rightarrow> [] | Some (Some r) \<Rightarrow> [mock_with_id al i r]))"

definition ids_of :: "('cfg, 'pl, 'at) ast_lib \<Rightarrow> 'pl list \<Rightarrow> string list" where
  "ids_of al ps = map (the_id al) (with_id al ps)"

definition used_mocks :: "('cfg, 'pl, 'at) ast_lib \<Rightarrow> string list \<Rightarrow> 'pl mocks \<Rightarrow> string \<Rightarrow> 'pl option option" where
  "used_mocks al is m i =
     (if i \<in> set is then map_option (map_option (mock_with_id al i)) (mget m i) else mget m i)"

lemma mock_walk_eq:
  "mock_walk al p m = (e, m') \<Longrightarrow> present [edited e p] = mocked al m p \<and>
     mget m' = used_mocks al (ids_of al [p]) m"
  by (auto simp: mock_walk_def mocked_def used_mocks_def ids_of_def with_id_def the_id_def mock_with_id_def
      mget_mput Let_def fun_eq_iff split: option.splits)

lemma walk_mocks:
  assumes "distinct (ids_of al ps)"
  shows "present (fst (walk_plugins (mock_walk al) ps m)) = concat (map (mocked al m) ps) \<and>
    mget (snd (walk_plugins (mock_walk al) ps m)) = used_mocks al (ids_of al ps) m"
  using assms
proof (induction ps arbitrary: m)
  case Nil
  then show ?case by (simp add: used_mocks_def ids_of_def with_id_def fun_eq_iff)
next
  case (Cons p ps)
  obtain e m1 where st: "mock_walk al p m = (e, m1)" by fastforce
  note p = mock_walk_eq [OF st]
  have ids: "ids_of al (p # ps) = ids_of al [p] @ ids_of al ps" by (simp add: ids_of_def with_id_def)
  have later: "mocked al m1 q = mocked al m q" if "q \<in> set ps" for q
  proof (cases "al_ID al q")
    case (Some i)
    then have "i \<in> set (ids_of al ps)" using that by (force simp: ids_of_def with_id_def the_id_def)
    then have "i \<notin> set (ids_of al [p])" using Cons.prems ids by auto
    with p Some show ?thesis by (simp add: mocked_def used_mocks_def fun_eq_iff)
  qed (simp add: mocked_def)
  have "distinct (ids_of al ps)" using Cons.prems ids by simp
  note IH = Cons.IH [OF this, of m1]
  have "present (fst (walk_plugins (mock_walk al) (p # ps) m)) =
      present [edited e p] @ present (fst (walk_plugins (mock_walk al) ps m1))"
    using st by (cases "edited e p") (simp_all add: split_beta Let_def)
  also have "\<dots> = concat (map (mocked al m) (p # ps))"
    using p IH later by (simp cong: map_cong)
  finally have 1: "present (fst (walk_plugins (mock_walk al) (p # ps) m)) = concat (map (mocked al m) (p # ps))" .
  have "used_mocks al (ids_of al ps) m1 = used_mocks al (ids_of al (p # ps)) m"
    using p Cons.prems unfolding ids by (auto simp: used_mocks_def fun_eq_iff)
  with IH st have "mget (snd (walk_plugins (mock_walk al) (p # ps) m)) = used_mocks al (ids_of al (p # ps)) m"
    by (simp add: split_beta Let_def)
  with 1 show ?case by blast
qed

lemma mocked_later:
  assumes "mget m1 = used_mocks al is m" and "set is \<inter> set (ids_of al ps) = {}"
  shows "map (mocked al m1) ps = map (mocked al m) ps"
proof (rule map_cong [OF refl])
  fix q
  assume q: "q \<in> set ps"
  show "mocked al m1 q = mocked al m q"
  proof (cases "al_ID al q")
    case (Some i)
    then have "i \<in> set (ids_of al ps)" using q by (force simp: ids_of_def with_id_def the_id_def)
    with assms Some show ?thesis by (auto simp: mocked_def used_mocks_def fun_eq_iff)
  qed (simp add: mocked_def)
qed

lemma used_mocks_trans:
  assumes "mget m1 = used_mocks al is m" and "set is \<inter> set js = {}"
  shows "used_mocks al js m1 = used_mocks al (is @ js) m"
  using assms by (auto simp: used_mocks_def fun_eq_iff)

lemma ids_of_all: "ids_of al (all_plugins al cfg) = ids_of al (al_plugins al Input cfg) @
    ids_of al (al_plugins al Filter cfg) @ ids_of al (al_plugins al Output cfg)"
  by (simp add: ids_of_def with_id_def all_plugins_def)

lemma ApplyMocks_eq:
  assumes "ast_ok al" and "parse al f = Ok cfg" and "distinct (ids_of al (all_plugins al cfg))"
  obtains cfg' m' where "ApplyMocks al m f = Ok (m', with_config al cfg' f)"
    "\<And>sec. al_plugins al sec cfg' = concat (map (mocked al m) (al_plugins al sec cfg))"
    "mget m' = used_mocks al (ids_of al (all_plugins al cfg)) m"
proof -
  let ?w = "mock_walk al"
  obtain c1 m1 where 1: "apply_plugins al Input ?w (cfg, m) = (c1, m1)" by fastforce
  obtain c2 m2 where 2: "apply_plugins al Filter ?w (c1, m1) = (c2, m2)" by fastforce
  obtain c3 m3 where 3: "apply_plugins al Output ?w (c2, m2) = (c3, m3)" by fastforce
  note ap = apply_plugins_same [OF assms(1)] apply_plugins_other [OF assms(1)] apply_plugins_state
  let ?I = "al_plugins al Input cfg" and ?F = "al_plugins al Filter cfg" and ?O = "al_plugins al Output cfg"
  have d: "distinct (ids_of al ?I)" "distinct (ids_of al ?F)" "distinct (ids_of al ?O)"
    "set (ids_of al ?I) \<inter> set (ids_of al ?F) = {}" "set (ids_of al ?I @ ids_of al ?F) \<inter> set (ids_of al ?O) = {}"
    using assms(3) unfolding ids_of_all by auto
  have I: "al_plugins al Input c3 = concat (map (mocked al m) ?I)" "mget m1 = used_mocks al (ids_of al ?I) m"
    using walk_mocks [OF d(1), of m] ap(1) [of Input ?w cfg m] ap(3) [of al Input ?w cfg m]
      ap(2) [of Input Filter ?w "(c1, m1)"] ap(2) [of Input Output ?w "(c2, m2)"] 1 2 3 by simp_all
  have F0: "al_plugins al Filter c3 = concat (map (mocked al m1) ?F)" "mget m2 = used_mocks al (ids_of al ?F) m1"
    using walk_mocks [OF d(2), of m1] ap(1) [of Filter ?w c1 m1] ap(3) [of al Filter ?w c1 m1]
      ap(2) [of Filter Input ?w "(cfg, m)"] ap(2) [of Filter Output ?w "(c2, m2)"] 1 2 3 by simp_all
  have O0: "al_plugins al Output c3 = concat (map (mocked al m2) ?O)" "mget m3 = used_mocks al (ids_of al ?O) m2"
    using walk_mocks [OF d(3), of m2] ap(1) [of Output ?w c2 m2] ap(3) [of al Output ?w c2 m2]
      ap(2) [of Output Input ?w "(cfg, m)"] ap(2) [of Output Filter ?w "(c1, m1)"] 1 2 3 by simp_all
  have F: "al_plugins al Filter c3 = concat (map (mocked al m) ?F)"
    and m2: "mget m2 = used_mocks al (ids_of al ?I @ ids_of al ?F) m"
    using F0 mocked_later [OF I(2) d(4)] used_mocks_trans [OF I(2) d(4)] by simp_all
  have O: "al_plugins al Output c3 = concat (map (mocked al m) ?O)"
    and m3: "mget m3 = used_mocks al (ids_of al (all_plugins al cfg)) m"
    using O0 mocked_later [OF m2 d(5)] used_mocks_trans [OF m2 d(5)] by (simp_all add: ids_of_all)
  show thesis
  proof (rule that)
    show "ApplyMocks al m f = Ok (m3, with_config al c3 f)"
      using assms(2) 1 2 3 by (simp add: ApplyMocks_def)
    show "al_plugins al sec c3 = concat (map (mocked al m) (al_plugins al sec cfg))" for sec
      using I(1) F O by (cases sec) simp_all
    show "mget m3 = used_mocks al (ids_of al (all_plugins al cfg)) m" by (rule m3)
  qed
qed

section \<open>Properties\<close>

text \<open>
  C23: the outputs of a configuration. In a file whose output plugins all have an id,
  \<open>ReplaceOutputs\<close> puts in the place of each one that is not a pipeline output a pipeline
  output that sends to \<open>lfv_output_\<close> and the plugin's id made safe, keeps the pipeline outputs
  and the other sections, reports exactly the safe ids in the order of the plugins, draws no
  random id, and leaves the rewritten text in the body.
\<close>

theorem replace_outputs_correct:
  assumes "ast_ok al" and "parse al f = Ok cfg" and "has_ids al (al_plugins al Output cfg)"
  shows "\<exists>cfg'. ReplaceOutputs al gen f n =
      Ok (map (\<lambda>p. pluginIDSave (the_id al p)) (filter (\<lambda>p. \<not> is_pipeline al p) (al_plugins al Output cfg)),
          f\<lparr>f_config := Some cfg', f_Body := al_render al cfg'\<rparr>, n) \<and>
    al_plugins al Output cfg' = map (\<lambda>p. if is_pipeline al p then p else al_NewPlugin al ''pipeline''
        [al_NewArray al ''send_to'' [al_NewString al [] (output_name (pluginIDSave (the_id al p)))]])
      (al_plugins al Output cfg) \<and>
    (\<forall>p \<in> set (al_plugins al Output cfg'). is_pipeline al p) \<and>
    (\<forall>sec. sec \<noteq> Output \<longrightarrow> al_plugins al sec cfg' = al_plugins al sec cfg)"
proof -
  let ?ps = "al_plugins al Output cfg" and ?walk = "replaceOutput al gen"
  let ?cfg = "fst (apply_plugins al Output ?walk (cfg, [], n))"
  note walk = walk_outputs [OF assms(3), of gen "[]" n]
  have "ReplaceOutputs al gen f n = Ok (fst (snd (apply_plugins al Output ?walk (cfg, [], n))),
      with_config al ?cfg f, snd (snd (apply_plugins al Output ?walk (cfg, [], n))))"
    using assms(2) by (simp add: ReplaceOutputs_def split_beta Let_def)
  then have 1: "ReplaceOutputs al gen f n =
      Ok (map (\<lambda>p. pluginIDSave (the_id al p)) (filter (\<lambda>p. \<not> is_pipeline al p) ?ps),
          f\<lparr>f_config := Some ?cfg, f_Body := al_render al ?cfg\<rparr>, n)"
    by (simp add: apply_plugins_state walk with_config_def)
  have 2: "al_plugins al Output ?cfg = map (\<lambda>p. if is_pipeline al p then p else al_NewPlugin al ''pipeline''
      [al_NewArray al ''send_to'' [al_NewString al [] (output_name (pluginIDSave (the_id al p)))]]) ?ps"
    unfolding apply_plugins_same [OF assms(1)] walk fst_conv
    by (simp add: present_def comp_def)
  have 3: "\<forall>p \<in> set (al_plugins al Output ?cfg). is_pipeline al p"
    unfolding 2 using assms(1) by (auto simp: is_pipeline_def ast_ok_def)
  have 4: "\<forall>sec. sec \<noteq> Output \<longrightarrow> al_plugins al sec ?cfg = al_plugins al sec cfg"
    by (simp add: apply_plugins_other [OF assms(1)])
  show ?thesis by (rule exI [of _ ?cfg]) (intro conjI 1 2 3 4)
qed

theorem replace_outputs_correct_witness:
  "\<exists>cfg'. ReplaceOutputs sample_ast (\<lambda>n. []) \<lparr>f_Name = ''main.conf'', f_Body = [],
      f_config = Some (\<lambda>sec. if sec = Output then [(''stdout'', [Some (''id'', ''a-b'')])] else [])\<rparr> 0
    = Ok ([''a_b''], \<lparr>f_Name = ''main.conf'', f_Body = [], f_config = Some cfg'\<rparr>, 0) \<and>
    al_plugins sample_ast Output cfg' = [(''pipeline'', [Some (''send_to'', ''lfv_output_a_b'')])]"
  (is "\<exists>cfg'. ReplaceOutputs _ _ ?f _ = _ \<and> _")
proof -
  let ?cfg = "\<lambda>sec. if sec = Output then [(''stdout'', [Some (''id'', ''a-b'')])] else []"
  have p: "parse sample_ast ?f = Ok ?cfg" by (rule parse_config) simp
  have h: "has_ids sample_ast (al_plugins sample_ast Output ?cfg)"
    by (simp add: has_ids_def sample_ast_def)
  obtain cfg' where cfg': "ReplaceOutputs sample_ast (\<lambda>n. []) ?f 0 =
      Ok (map (\<lambda>p. pluginIDSave (the_id sample_ast p)) (filter (\<lambda>p. \<not> is_pipeline sample_ast p)
          (al_plugins sample_ast Output ?cfg)),
        ?f\<lparr>f_config := Some cfg', f_Body := al_render sample_ast cfg'\<rparr>, 0)"
    "al_plugins sample_ast Output cfg' = map (\<lambda>p. if is_pipeline sample_ast p then p
      else al_NewPlugin sample_ast ''pipeline'' [al_NewArray sample_ast ''send_to''
        [al_NewString sample_ast [] (output_name (pluginIDSave (the_id sample_ast p)))]])
      (al_plugins sample_ast Output ?cfg)"
    using replace_outputs_correct [OF ast_ok_sample p h, of "\<lambda>n. []" 0] by (elim exE conjE) (rule that)
  have save: "pluginIDSave ''a-b'' = ''a_b''"
    by (simp add: pluginIDSave.simps(2) rune_width_ascii is_alnum_def)
  have ev: "al_plugins sample_ast Output ?cfg = [(''stdout'', [Some (''id'', ''a-b'')])]"
    "the_id sample_ast (''stdout'', [Some (''id'', ''a-b'')]) = ''a-b''"
    "\<not> is_pipeline sample_ast (''stdout'', [Some (''id'', ''a-b'')])"
    by (simp_all add: sample_ast_def the_id_def is_pipeline_def)
  have "map (\<lambda>p. pluginIDSave (the_id sample_ast p)) (filter (\<lambda>p. \<not> is_pipeline sample_ast p)
      (al_plugins sample_ast Output ?cfg)) = [''a_b'']" unfolding ev by (simp add: ev(2,3) save)
  moreover have "map (\<lambda>p. if is_pipeline sample_ast p then p
      else al_NewPlugin sample_ast ''pipeline'' [al_NewArray sample_ast ''send_to''
        [al_NewString sample_ast [] (output_name (pluginIDSave (the_id sample_ast p)))]])
      (al_plugins sample_ast Output ?cfg) = [(''pipeline'', [Some (''send_to'', ''lfv_output_a_b'')])]"
    unfolding ev by (simp add: ev(2,3) save) (simp add: sample_ast_def output_name_def)
  moreover have "al_render sample_ast c = []" for c by (simp add: sample_ast_def)
  ultimately show ?thesis using cfg' by (intro exI [of _ cfg']) simp
qed

text \<open>
  C24: the inputs of a configuration. In a file whose input plugins have distinct ids,
  \<open>ReplaceInputs\<close> puts in the place of each one that is not a pipeline input a pipeline input
  whose address is made of the session and the plugin's id, followed by the plugin's own
  \<open>add_field\<close>, \<open>tags\<close> and \<open>type\<close> attributes in their order; the reported codec of an input is
  its last codec attribute, and there is none for an input without one; the other sections are
  kept.
\<close>

theorem replace_inputs_correct:
  assumes "ast_ok al" and "parse al f = Ok cfg" and "has_ids al (al_plugins al Input cfg)"
    and "distinct (map (the_id al) (al_plugins al Input cfg))"
  shows "\<exists>codecs cfg'. ReplaceInputs al gen idPrefix f n =
      Ok (codecs, f\<lparr>f_config := Some cfg', f_Body := al_render al cfg'\<rparr>, n) \<and>
    al_plugins al Input cfg' = map (\<lambda>p. if is_pipeline al p then p else al_NewPlugin al ''pipeline''
        (al_NewString al ''address'' (''__lfv_input_'' @ idPrefix @ ''_'' @ the_id al p)
         # filter (kept_attr al) (present (al_Attributes al p)))) (al_plugins al Input cfg) \<and>
    (\<forall>p \<in> set (al_plugins al Input cfg). \<not> is_pipeline al p \<longrightarrow>
      mget codecs (the_id al p) = (if codec_attrs al p = [] then None
        else Some (al_attrString al (last (codec_attrs al p))))) \<and>
    (\<forall>sec. sec \<noteq> Input \<longrightarrow> al_plugins al sec cfg' = al_plugins al sec cfg)"
proof -
  let ?ps = "al_plugins al Input cfg" and ?walk = "replaceInputs al gen idPrefix"
  let ?cfg = "fst (apply_plugins al Input ?walk (cfg, [], n))"
  let ?codecs = "fold (add_codecs al) ?ps []"
  note walk = walk_inputs [OF assms(3), of gen idPrefix "[]" n]
  have "ReplaceInputs al gen idPrefix f n = Ok (fst (snd (apply_plugins al Input ?walk (cfg, [], n))),
      with_config al ?cfg f, snd (snd (apply_plugins al Input ?walk (cfg, [], n))))"
    using assms(2) by (simp add: ReplaceInputs_def split_beta Let_def)
  then have 1: "ReplaceInputs al gen idPrefix f n =
      Ok (?codecs, f\<lparr>f_config := Some ?cfg, f_Body := al_render al ?cfg\<rparr>, n)"
    by (simp add: apply_plugins_state walk with_config_def)
  have 2: "al_plugins al Input ?cfg = map (\<lambda>p. if is_pipeline al p then p else al_NewPlugin al ''pipeline''
        (al_NewString al ''address'' (''__lfv_input_'' @ idPrefix @ ''_'' @ the_id al p)
         # filter (kept_attr al) (present (al_Attributes al p)))) ?ps"
    unfolding apply_plugins_same [OF assms(1)] walk fst_conv
    by (simp add: present_def comp_def replaced_input_def input_address_def cong: if_cong)
  have 3: "\<forall>p \<in> set ?ps. \<not> is_pipeline al p \<longrightarrow> mget ?codecs (the_id al p) =
      (if codec_attrs al p = [] then None else Some (al_attrString al (last (codec_attrs al p))))"
    using mget_fold_codecs [OF assms(4)] by simp
  have 4: "\<forall>sec. sec \<noteq> Input \<longrightarrow> al_plugins al sec ?cfg = al_plugins al sec cfg"
    by (simp add: apply_plugins_other [OF assms(1)])
  show ?thesis by (rule exI [of _ ?codecs], rule exI [of _ ?cfg]) (intro conjI 1 2 3 4)
qed

theorem replace_inputs_correct_witness:
  "\<exists>codecs cfg'. ReplaceInputs sample_ast (\<lambda>n. []) ''s1'' \<lparr>f_Name = ''main.conf'', f_Body = [],
      f_config = Some (\<lambda>sec. if sec = Input
        then [(''stdin'', [Some (''id'', ''in''), Some (''codec'', ''json''), None, Some (''type'', ''t'')])] else [])\<rparr> 0
    = Ok (codecs, \<lparr>f_Name = ''main.conf'', f_Body = al_render sample_ast cfg', f_config = Some cfg'\<rparr>, 0) \<and>
    mget codecs ''in'' = Some ''json''"
  (is "\<exists>codecs cfg'. ReplaceInputs _ _ _ ?f _ = _ \<and> _")
proof -
  let ?p = "(''stdin'', [Some (''id'', ''in''), Some (''codec'', ''json''), None, Some (''type'', ''t'')])"
  let ?cfg = "\<lambda>sec. if sec = Input then [?p] else []"
  have p: "parse sample_ast ?f = Ok ?cfg" by (rule parse_config) simp
  have ps: "al_plugins sample_ast Input ?cfg = [?p]" by (simp add: sample_ast_def)
  have h: "has_ids sample_ast (al_plugins sample_ast Input ?cfg)"
    unfolding ps by (simp add: has_ids_def sample_ast_def)
  have d: "distinct (map (the_id sample_ast) (al_plugins sample_ast Input ?cfg))" unfolding ps by simp
  have ev: "\<not> is_pipeline sample_ast ?p" "the_id sample_ast ?p = ''in''"
    "codec_attrs sample_ast ?p = [(''codec'', ''json'')]" "al_attrString sample_ast (''codec'', ''json'') = ''json''"
    by (simp_all add: sample_ast_def the_id_def is_pipeline_def codec_attrs_def)
  from replace_inputs_correct [OF ast_ok_sample p h d, of "\<lambda>n. []" "''s1''" 0]
  obtain codecs cfg' where r: "ReplaceInputs sample_ast (\<lambda>n. []) ''s1'' ?f 0 =
      Ok (codecs, ?f\<lparr>f_config := Some cfg', f_Body := al_render sample_ast cfg'\<rparr>, 0)"
    and c: "\<forall>p \<in> set (al_plugins sample_ast Input ?cfg). \<not> is_pipeline sample_ast p \<longrightarrow>
      mget codecs (the_id sample_ast p) = (if codec_attrs sample_ast p = [] then None
        else Some (al_attrString sample_ast (last (codec_attrs sample_ast p))))"
    by (elim exE conjE) (rule that)
  from c have "mget codecs ''in'' = Some ''json''" unfolding ps by (simp add: ev)
  with r show ?thesis by (intro exI [of _ codecs] exI [of _ cfg']) simp
qed

lemma ext_ids_once:
  assumes "has_ids al ps" and "distinct (map (the_id al) ps)"
  shows "mget (fold count_up (ext_ids al ps) []) i =
    (if \<exists>p \<in> set ps. \<not> is_pipeline al p \<and> the_id al p = i then Some 1 else None)"
proof -
  have "ext_ids al ps = map (the_id al) (filter (\<lambda>p. \<not> is_pipeline al p) ps)"
    using assms(1) by (simp add: ext_ids_def with_id_all)
  moreover from this have "distinct (ext_ids al ps)" using assms(2) by (simp add: distinct_map_filter)
  ultimately show ?thesis
    using count_list_distinct [of "ext_ids al ps"] by (auto simp: mget_fold_count_up image_iff)
qed

text \<open>
  C26: the validation without ids being added. It succeeds exactly on a file all of whose
  plugins, in all sections, have an id and no two the same one; it then reports each input and
  each output that is not a pipeline plugin once, and nothing else, and leaves the text as it is.
\<close>

theorem validate_correct:
  assumes "ast_ok al" and "parse al f = Ok cfg"
  shows "((\<exists>r. Validate al False f = Ok r) \<longleftrightarrow>
      has_ids al (all_plugins al cfg) \<and> distinct (map (the_id al) (all_plugins al cfg))) \<and>
    Validate al False f \<noteq> Panic \<and>
    (\<forall>ins outs f'. Validate al False f = Ok (ins, outs, f') \<longrightarrow>
      (\<forall>i. mget ins i = (if \<exists>p \<in> set (al_plugins al Input cfg). \<not> is_pipeline al p \<and> the_id al p = i
        then Some 1 else None)) \<and>
      (\<forall>i. mget outs i = (if \<exists>p \<in> set (al_plugins al Output cfg). \<not> is_pipeline al p \<and> the_id al p = i
        then Some 1 else None)) \<and>
      f_Body f' = f_Body f)"
proof -
  obtain cfg' where v: "\<And>sec. list_all2 (validated al False) (al_plugins al sec cfg) (al_plugins al sec cfg')"
    "has_ids al (all_plugins al cfg') \<and> distinct (map (the_id al) (all_plugins al cfg')) \<Longrightarrow>
      Validate al False f = Ok (fold count_up (ext_ids al (al_plugins al Input cfg')) [],
        fold count_up (ext_ids al (al_plugins al Output cfg')) [], f\<lparr>f_config := Some cfg'\<rparr>)"
    "\<not> (has_ids al (all_plugins al cfg') \<and> distinct (map (the_id al) (all_plugins al cfg'))) \<Longrightarrow>
      \<exists>e. Validate al False f = Err e"
    using Validate_eq [OF assms, of False] by (metis (full_types))
  have same: "al_plugins al sec cfg' = al_plugins al sec cfg" for sec by (rule validated_False [OF v(1)])
  then have all: "all_plugins al cfg' = all_plugins al cfg" by (simp add: all_plugins_def)
  show ?thesis
  proof (cases "has_ids al (all_plugins al cfg) \<and> distinct (map (the_id al) (all_plugins al cfg))")
    case False
    with v(3) all show ?thesis by auto
  next
    case True
    have "has_ids al (al_plugins al Input cfg)" "distinct (map (the_id al) (al_plugins al Input cfg))"
      "has_ids al (al_plugins al Output cfg)" "distinct (map (the_id al) (al_plugins al Output cfg))"
      using True by (auto simp: all_plugins_def has_ids_def)
    note ins = ext_ids_once [OF this(1,2)] and outs = ext_ids_once [OF this(3,4)]
    from v(2) True all same have "Validate al False f = Ok (fold count_up (ext_ids al (al_plugins al Input cfg)) [],
        fold count_up (ext_ids al (al_plugins al Output cfg)) [], f\<lparr>f_config := Some cfg'\<rparr>)" by simp
    with True show ?thesis by (simp add: ins outs)
  qed
qed

theorem validate_correct_witness:
  "Validate sample_ast False \<lparr>f_Name = ''main.conf'', f_Body = ''text'',
      f_config = Some (\<lambda>sec. if sec = Input then [(''stdin'', [Some (''id'', ''a'')])]
        else if sec = Output then [(''stdout'', [Some (''id'', ''a'')])] else [])\<rparr> \<noteq> Panic"
  (is "Validate _ _ ?f \<noteq> _")
proof -
  let ?cfg = "\<lambda>sec. if sec = Input then [(''stdin'', [Some (''id'', ''a'')])]
      else if sec = Output then [(''stdout'', [Some (''id'', ''a'')])] else []"
  have "parse sample_ast ?f = Ok ?cfg" by (rule parse_config) simp
  from validate_correct [OF ast_ok_sample this] show ?thesis by (elim conjE)
qed

text \<open>
  C27: the validation that adds missing ids, of a file in which every attribute called \<open>id\<close> is
  one an id can be read from. When it succeeds, every plugin of the file has an id, no two the
  same one, plugins that had an id are untouched, the others keep their name and position, and
  the body is the rewritten text.
\<close>

theorem validate_adds_ids:
  assumes "ast_ok al" and "parse al f = Ok cfg" and "ids_readable al (all_plugins al cfg)"
    and "Validate al True f = Ok (ins, outs, f')"
  shows "\<exists>cfg'. f_config f' = Some cfg' \<and> f_Body f' = al_render al cfg' \<and>
    has_ids al (all_plugins al cfg') \<and> distinct (map (the_id al) (all_plugins al cfg')) \<and>
    (\<forall>sec. list_all2 (\<lambda>p q. al_Name al q = al_Name al p \<and> (al_ID al p \<noteq> None \<longrightarrow> q = p))
      (al_plugins al sec cfg) (al_plugins al sec cfg'))"
proof -
  obtain cfg' where v: "\<And>sec. list_all2 (validated al True) (al_plugins al sec cfg) (al_plugins al sec cfg')"
    "has_ids al (all_plugins al cfg') \<and> distinct (map (the_id al) (all_plugins al cfg')) \<Longrightarrow>
      Validate al True f = Ok (fold count_up (ext_ids al (al_plugins al Input cfg')) [],
        fold count_up (ext_ids al (al_plugins al Output cfg')) [], with_config al cfg' f)"
    "\<not> (has_ids al (all_plugins al cfg') \<and> distinct (map (the_id al) (all_plugins al cfg'))) \<Longrightarrow>
      \<exists>e. Validate al True f = Err e"
    using Validate_eq [OF assms(1,2), of True] assms(3) by (metis (full_types))
  from v(3) assms(4) have d: "has_ids al (all_plugins al cfg') \<and> distinct (map (the_id al) (all_plugins al cfg'))"
    by auto
  with v(2) assms(4) have f': "f' = with_config al cfg' f" by simp
  have "list_all2 (\<lambda>p q. al_Name al q = al_Name al p \<and> (al_ID al p \<noteq> None \<longrightarrow> q = p))
      (al_plugins al sec cfg) (al_plugins al sec cfg')" for sec
    by (rule list.rel_mono_strong [OF v(1)]) (auto simp: validated_def split: if_splits)
  with d f' show ?thesis by simp
qed

theorem validate_adds_ids_witness:
  "\<exists>ins outs f'. Validate sample_ast True \<lparr>f_Name = ''a.b'', f_Body = ''text'',
      f_config = Some (\<lambda>sec. if sec = Input then [(''stdin'', [])] else [])\<rparr> = Ok (ins, outs, f') \<and>
    (\<exists>cfg'. f_config f' = Some cfg' \<and> has_ids sample_ast (all_plugins sample_ast cfg'))"
  (is "\<exists>ins outs f'. ?V = _ \<and> _")
proof -
  let ?f = "\<lparr>f_Name = ''a.b'', f_Body = ''text'',
      f_config = Some (\<lambda>sec. if sec = Input then [(''stdin'', [])] else [])\<rparr>"
  have p: "parse sample_ast ?f = Ok (\<lambda>sec. if sec = Input then [(''stdin'', [])] else [])"
    by (rule parse_config) simp
  let ?cfg = "\<lambda>sec. if sec = Input then [(''stdin'', [])] else []"
  have readable: "ids_readable sample_ast (all_plugins sample_ast ?cfg)"
    by (simp add: ids_readable_def lacks_id_def all_plugins_def sample_ast_def)
  show ?thesis
  proof (rule Validate_eq [OF ast_ok_sample p, of True])
    fix cfg'
    assume v: "\<And>sec. list_all2 (validated sample_ast True)
        (al_plugins sample_ast sec ?cfg) (al_plugins sample_ast sec cfg')"
      and ok: "has_ids sample_ast (all_plugins sample_ast cfg') \<and>
          distinct (map (the_id sample_ast) (all_plugins sample_ast cfg')) \<Longrightarrow>
        ?V = Ok (fold count_up (ext_ids sample_ast (al_plugins sample_ast Input cfg')) [],
          fold count_up (ext_ids sample_ast (al_plugins sample_ast Output cfg')) [],
          if True then with_config sample_ast cfg' ?f else ?f\<lparr>f_config := Some cfg'\<rparr>)"
    have ps: "al_plugins sample_ast sec ?cfg = (if sec = Input then [(''stdin'', [])] else [])" for sec
      by (simp add: sample_ast_def)
    obtain q where q: "al_plugins sample_ast Input cfg' = [q]" "validated sample_ast True (''stdin'', []) q"
      using v [of Input] unfolding ps by (auto simp: list_all2_Cons1)
    have "al_plugins sample_ast Filter cfg' = []" "al_plugins sample_ast Output cfg' = []"
      using v [of Filter] v [of Output] unfolding ps by simp_all
    then have all: "all_plugins sample_ast cfg' = [q]" by (simp add: all_plugins_def q(1))
    have "al_ID sample_ast (''stdin'', []) = None" by (simp add: sample_ast_def)
    then have "has_ids sample_ast [q]" using q(2) by (simp add: validated_def has_ids_def)
    with ok all obtain ins outs f' where V: "?V = Ok (ins, outs, f')" by simp
    from validate_adds_ids [OF ast_ok_sample p readable V] obtain cfg2 where
      "f_config f' = Some cfg2" "has_ids sample_ast (all_plugins sample_ast cfg2)" by (elim exE conjE) (rule that)
    with V show ?thesis by (intro exI conjI)
  qed (use readable in simp)
qed

text \<open>
  C28: the mocks. In a file in which no id occurs twice, the plugin with a mocked id is replaced
  by its mock, which gets that id, or is removed when the mock is empty; every other plugin, with
  or without an id, stays, in all sections and in the order of the file.
\<close>

theorem apply_mocks_correct:
  assumes "ast_ok al" and "parse al f = Ok cfg" and "distinct (ids_of al (all_plugins al cfg))"
  shows "\<exists>cfg' m'. ApplyMocks al m f = Ok (m', f\<lparr>f_config := Some cfg', f_Body := al_render al cfg'\<rparr>) \<and>
    (\<forall>sec. al_plugins al sec cfg' = concat (map (\<lambda>p.
       (case al_ID al p of
          None \<Rightarrow> [p]
        | Some i \<Rightarrow>
            (case mget m i of
               None \<Rightarrow> [p]
             | Some None \<Rightarrow> []
             | Some (Some r) \<Rightarrow> [al_setAttributes al (al_Attributes al r @ [Some (al_NewString al ''id'' i)]) r])))
       (al_plugins al sec cfg)))"
proof -
  obtain cfg' m' where r: "ApplyMocks al m f = Ok (m', with_config al cfg' f)"
    "\<And>sec. al_plugins al sec cfg' = concat (map (mocked al m) (al_plugins al sec cfg))"
    using ApplyMocks_eq [OF assms, of m] by (metis (full_types))
  have "mocked al m = (\<lambda>p. case al_ID al p of
      None \<Rightarrow> [p]
    | Some i \<Rightarrow>
        (case mget m i of
           None \<Rightarrow> [p]
         | Some None \<Rightarrow> []
         | Some (Some r) \<Rightarrow> [al_setAttributes al (al_Attributes al r @ [Some (al_NewString al ''id'' i)]) r]))"
    unfolding mocked_def mock_with_id_def by (rule refl)
  note r' = r [unfolded with_config_def this]
  show ?thesis
    by (rule exI [of _ cfg'], rule exI [of _ m'], rule conjI, rule r'(1), rule allI, rule r'(2))
qed

theorem apply_mocks_correct_witness:
  "\<exists>cfg' m'. ApplyMocks sample_ast [(''a'', Some (''mutate'', [])), (''b'', None)] \<lparr>f_Name = [], f_Body = [],
      f_config = Some (\<lambda>sec. if sec = Filter
        then [(''dns'', [Some (''id'', ''a'')]), (''drop'', [Some (''id'', ''b'')])] else [])\<rparr>
    = Ok (m', \<lparr>f_Name = [], f_Body = [], f_config = Some cfg'\<rparr>) \<and>
    al_plugins sample_ast Filter cfg' = [(''mutate'', [Some (''id'', ''a'')])]"
  (is "\<exists>cfg' m'. ApplyMocks _ ?m ?f = _ \<and> _")
proof -
  let ?ps = "[(''dns'', [Some (''id'', ''a'')]), (''drop'', [Some (''id'', ''b'')])]"
  let ?cfg = "\<lambda>sec. if sec = Filter then ?ps else []"
  have p: "parse sample_ast ?f = Ok ?cfg" by (rule parse_config) simp
  have d: "distinct (ids_of sample_ast (all_plugins sample_ast ?cfg))"
    by (simp add: ids_of_def with_id_def all_plugins_def sample_ast_def the_id_def)
  from apply_mocks_correct [OF ast_ok_sample p d, of ?m] obtain cfg' m' where
    r: "ApplyMocks sample_ast ?m ?f = Ok (m', ?f\<lparr>f_config := Some cfg', f_Body := al_render sample_ast cfg'\<rparr>)"
    and ps: "\<forall>sec. al_plugins sample_ast sec cfg' = concat (map (\<lambda>p.
       (case al_ID sample_ast p of
          None \<Rightarrow> [p]
        | Some i \<Rightarrow>
            (case mget ?m i of
               None \<Rightarrow> [p]
             | Some None \<Rightarrow> []
             | Some (Some r) \<Rightarrow> [al_setAttributes sample_ast
                 (al_Attributes sample_ast r @ [Some (al_NewString sample_ast ''id'' i)]) r])))
       (al_plugins sample_ast sec ?cfg))" by (elim exE conjE) (rule that)
  have "al_plugins sample_ast Filter cfg' = [(''mutate'', [Some (''id'', ''a'')])]"
    using ps [rule_format, of Filter] by (simp add: sample_ast_def)
  moreover have "al_render sample_ast cfg' = []" by (simp add: sample_ast_def)
  ultimately show ?thesis using r by (intro exI [of _ cfg'] exI [of _ m']) simp
qed

text \<open>
  The mock that is put into a file is the shared one, and the walk appends the id to it in
  place: when the same mocks are applied to a second file with a plugin of that id, as the
  preprocessor does for every file of an archive, the plugin gets the id attribute twice.
\<close>

theorem mock_ids_accumulate:
  assumes "ast_ok al" and "parse al f1 = Ok cfg1" and "parse al f2 = Ok cfg2"
    and "distinct (ids_of al (all_plugins al cfg1))" and "distinct (ids_of al (all_plugins al cfg2))"
    and "p1 \<in> set (al_plugins al Filter cfg1)" and "p2 \<in> set (al_plugins al Filter cfg2)"
    and "al_ID al p1 = Some i" and "al_ID al p2 = Some i" and "mget m i = Some (Some r)"
    and "ApplyMocks al m f1 = Ok (m1, f1')" and "ApplyMocks al m1 f2 = Ok (m2, f2')"
  shows "\<exists>cfg. f_config f2' = Some cfg \<and> (\<exists>q \<in> set (al_plugins al Filter cfg).
    al_Attributes al q = al_Attributes al r @
      [Some (al_NewString al ''id'' i), Some (al_NewString al ''id'' i)])"
proof -
  obtain c1 m1' where 1: "ApplyMocks al m f1 = Ok (m1', with_config al c1 f1)"
    "mget m1' = used_mocks al (ids_of al (all_plugins al cfg1)) m"
    using ApplyMocks_eq [OF assms(1,2,4), of m] by (metis (full_types))
  obtain c2 m2' where 2: "ApplyMocks al m1 f2 = Ok (m2', with_config al c2 f2)"
    "\<And>sec. al_plugins al sec c2 = concat (map (mocked al m1) (al_plugins al sec cfg2))"
    using ApplyMocks_eq [OF assms(1,3,5), of m1] by (metis (full_types))
  have "i \<in> set (ids_of al (all_plugins al cfg1))"
    using assms(6,8) by (force simp: ids_of_def with_id_def all_plugins_def the_id_def)
  with 1 assms(10,11) have "mget m1 i = Some (Some (mock_with_id al i r))" by (simp add: used_mocks_def)
  with assms(9) have "mocked al m1 p2 = [mock_with_id al i (mock_with_id al i r)]" by (simp add: mocked_def)
  with assms(7) have "mock_with_id al i (mock_with_id al i r) \<in> set (al_plugins al Filter c2)"
    unfolding 2(2) by force
  moreover have "al_Attributes al (mock_with_id al i (mock_with_id al i r)) = al_Attributes al r @
      [Some (al_NewString al ''id'' i), Some (al_NewString al ''id'' i)]"
    using assms(1) by (simp add: mock_with_id_def ast_ok_def)
  moreover have "f_config f2' = Some c2" using 2(1) assms(12) by simp
  ultimately show ?thesis by blast
qed

theorem mock_ids_accumulate_witness:
  "\<exists>m1 f1' m2 f2' cfg q. ApplyMocks sample_ast [(''a'', Some (''mutate'', []))] \<lparr>f_Name = ''x'', f_Body = [],
      f_config = Some (\<lambda>sec. if sec = Filter then [(''dns'', [Some (''id'', ''a'')])] else [])\<rparr> = Ok (m1, f1') \<and>
    ApplyMocks sample_ast m1 \<lparr>f_Name = ''y'', f_Body = [],
      f_config = Some (\<lambda>sec. if sec = Filter then [(''dns'', [Some (''id'', ''a'')])] else [])\<rparr> = Ok (m2, f2') \<and>
    f_config f2' = Some cfg \<and> q \<in> set (al_plugins sample_ast Filter cfg) \<and>
    al_Attributes sample_ast q = [Some (''id'', ''a''), Some (''id'', ''a'')]"
  (is "\<exists>m1 f1' m2 f2' cfg q. ApplyMocks _ ?m ?f1 = _ \<and> ApplyMocks _ _ ?f2 = _ \<and> _")
proof -
  let ?p = "(''dns'', [Some (''id'', ''a'')])"
  let ?cfg = "\<lambda>sec. if sec = Filter then [?p] else []"
  have p: "parse sample_ast ?f1 = Ok ?cfg" "parse sample_ast ?f2 = Ok ?cfg" by (rule parse_config, simp)+
  have d: "distinct (ids_of sample_ast (all_plugins sample_ast ?cfg))"
    by (simp add: ids_of_def with_id_def all_plugins_def sample_ast_def)
  have mem: "?p \<in> set (al_plugins sample_ast Filter ?cfg)" by (simp add: sample_ast_def)
  have ids: "al_ID sample_ast ?p = Some ''a''" by (simp add: sample_ast_def)
  have mock: "mget ?m ''a'' = Some (Some (''mutate'', []))" by simp
  obtain m1 f1' where 1: "ApplyMocks sample_ast ?m ?f1 = Ok (m1, f1')"
    using ApplyMocks_eq [OF ast_ok_sample p(1) d, of ?m] by (metis (full_types))
  obtain m2 f2' where 2: "ApplyMocks sample_ast m1 ?f2 = Ok (m2, f2')"
    using ApplyMocks_eq [OF ast_ok_sample p(2) d, of m1] by (metis (full_types))
  have "al_NewString sample_ast = Pair" by (simp add: sample_ast_def)
  then show ?thesis
    using mock_ids_accumulate [OF ast_ok_sample p d d mem mem ids ids mock 1 2] 1 2
    by (auto simp: sample_ast_def)
qed

text \<open>
  Two outputs whose ids differ only in characters that are made safe become the same output
  pipeline: the reported list then names it twice, though the ids of the file are distinct and the
  validation has accepted it.
\<close>

theorem output_ids_collide:
  assumes "ast_ok al" and "parse al f = Ok cfg" and "has_ids al (al_plugins al Output cfg)"
    and "al_plugins al Output cfg = us @ p # vs @ q # ws"
    and "\<not> is_pipeline al p" and "\<not> is_pipeline al q"
    and "pluginIDSave (the_id al p) = pluginIDSave (the_id al q)"
  shows "\<exists>outputs f' n'. ReplaceOutputs al gen f n = Ok (outputs, f', n') \<and> \<not> distinct outputs"
proof -
  obtain f' where "ReplaceOutputs al gen f n = Ok (map (\<lambda>p. pluginIDSave (the_id al p))
      (filter (\<lambda>p. \<not> is_pipeline al p) (al_plugins al Output cfg)), f', n)"
    using assms(2) walk_outputs [OF assms(3), of gen "[]" n]
    by (auto simp: ReplaceOutputs_def apply_plugins_def)
  then show ?thesis using assms(4-7) by simp
qed

theorem output_ids_collide_witness:
  "\<exists>outputs f' n'. ReplaceOutputs sample_ast (\<lambda>n. []) \<lparr>f_Name = ''x'', f_Body = [],
      f_config = Some (\<lambda>sec. if sec = Output then [(''stdout'', [Some (''id'', ''a-b'')]),
        (''file'', [Some (''id'', ''a.b'')])] else [])\<rparr> 0 = Ok (outputs, f', n') \<and> \<not> distinct outputs"
  (is "\<exists>outputs f' n'. ReplaceOutputs _ _ ?f _ = _ \<and> _")
proof -
  let ?p = "(''stdout'', [Some (''id'', ''a-b'')])" and ?q = "(''file'', [Some (''id'', ''a.b'')])"
  let ?cfg = "\<lambda>sec. if sec = Output then [?p, ?q] else []"
  have p: "parse sample_ast ?f = Ok ?cfg" by (rule parse_config) simp
  have ps: "al_plugins sample_ast Output ?cfg = [] @ ?p # [] @ ?q # []" by (simp add: sample_ast_def)
  have h: "has_ids sample_ast (al_plugins sample_ast Output ?cfg)"
    unfolding ps by (simp add: has_ids_def sample_ast_def)
  have ev: "\<not> is_pipeline sample_ast ?p" "\<not> is_pipeline sample_ast ?q"
    by (simp_all add: sample_ast_def is_pipeline_def)
  have "the_id sample_ast ?p = ''a-b''" "the_id sample_ast ?q = ''a.b''"
    by (simp_all add: sample_ast_def the_id_def)
  then have eq: "pluginIDSave (the_id sample_ast ?p) = pluginIDSave (the_id sample_ast ?q)"
    by (simp add: pluginIDSave.simps(2) rune_width_ascii is_alnum_def)
  show ?thesis by (rule output_ids_collide [OF ast_ok_sample p h ps ev eq])
qed

end
