(* ===== verification/Test_Case.thy ===== *)
theory Test_Case
  imports Bracket_Fields Field_Set Go_Template
begin

text \<open>
  \<open>internal/testcase/testcase.go\<close> and \<open>internal/testcase/discover.go\<close>: the test case set read from a
  file, its conversion into the lines, fields and expected events of one Logstash run, and the
  comparison of the events that Logstash returns. The decoders, \<open>encoding/json\<close>, the file system
  and the diff command are parameters.
\<close>

section \<open>The data\<close>

text \<open>A Go map that may be nil: a field set or an event. Reading a nil map finds nothing.\<close>

type_synonym event = "fields option"

definition entries :: "event \<Rightarrow> fields" where
  "entries e = (case e of None \<Rightarrow> [] | Some m \<Rightarrow> m)"

lemma entries_simps [simp]: "entries None = []" "entries (Some m) = m"
  by (simp_all add: entries_def)

record test_case =
  tc_InputLines :: "string list"
  tc_InputFields :: event
  tc_ExpectedEvents :: "event list"
  tc_Description :: string

record test_case_set =
  t_File :: string
  t_InputPlugin :: string
  t_Codec :: string
  t_IgnoredFields :: "string list"
  t_InputFields :: event
  t_LegacyInputLines :: "string list"
  t_InputLines :: "string list"
  t_LegacyExpectedEvents :: "event list"
  t_ExpectedEvents :: "event list"
  t_ExportMetadata :: bool
  t_ExportOutputs :: bool
  t_TestCases :: "test_case list"
  t_Events :: "event list"
  t_descriptions :: "string list"

record comparison_result =
  r_Name :: string
  r_Status :: bool
  r_Explain :: string
  r_Path :: string
  r_EventIndex :: nat

definition DummyEventInputIndicator :: string where
  "DummyEventInputIndicator = ''__lfv_dummy_event''"

definition defaultIgnoredFields :: "string list" where
  "defaultIgnoredFields = [''@version'']"

section \<open>Reading a test case set\<close>

text \<open>
  The decoders of a file into the struct, which get the struct with its defaults, and the JSON
  functions applied to an input line.
\<close>

record tc_env =
  te_unjson :: "string \<Rightarrow> test_case_set \<Rightarrow> test_case_set result"
  te_unyaml :: "string \<Rightarrow> test_case_set \<Rightarrow> test_case_set result"
  te_unmarshal :: "string \<Rightarrow> fields result"
  te_marshal :: "fields \<Rightarrow> string result"

definition convert_fields :: "event \<Rightarrow> event result" where
  "convert_fields e = rbind (parseAllBracketProperties (entries e)) (\<lambda>m. Ok (Some m))"

definition convert_case_fields :: "test_case \<Rightarrow> test_case result" where
  "convert_case_fields tc =
     rbind (convert_fields (tc_InputFields tc)) (\<lambda>m. Ok (tc\<lparr>tc_InputFields := m\<rparr>))"

definition convert_line :: "tc_env \<Rightarrow> string \<Rightarrow> string result" where
  "convert_line env = parseAllBracketPropertiesInJSON (te_unmarshal env) (te_marshal env)"

definition convert_case_lines :: "tc_env \<Rightarrow> test_case \<Rightarrow> test_case result" where
  "convert_case_lines env tc =
     rbind (rmap (convert_line env) (tc_InputLines tc)) (\<lambda>ls. Ok (tc\<lparr>tc_InputLines := ls\<rparr>))"

definition convertBracketFields :: "tc_env \<Rightarrow> test_case_set \<Rightarrow> test_case_set result" where
  "convertBracketFields env t =
     rbind (convert_fields (t_InputFields t)) (\<lambda>inputFields.
     rbind (rmap convert_case_fields (t_TestCases t)) (\<lambda>cases.
     rbind (rmap convert_fields (t_ExpectedEvents t)) (\<lambda>expected.
       (let t = t\<lparr>t_InputFields := inputFields, t_TestCases := cases, t_ExpectedEvents := expected\<rparr>
        in if t_Codec t = ''json_lines'' then
             rbind (rmap (convert_line env) (t_InputLines t)) (\<lambda>ls.
             rbind (rmap (convert_case_lines env) cases) (\<lambda>cases.
               Ok (t\<lparr>t_InputLines := ls, t_TestCases := cases\<rparr>)))
           else Ok t))))"

text \<open>\<open>for k, v := range from { to[k] = v }\<close>: storing into a nil map panics.\<close>

definition set_fields :: "fields \<Rightarrow> event \<Rightarrow> event result" where
  "set_fields from to =
     (case to of
        None \<Rightarrow> if from = [] then Ok None else Panic
      | Some m \<Rightarrow> Ok (Some (fold (\<lambda>(k, v). mput k v) from m)))"

definition case_lines :: "test_case \<Rightarrow> string list" where
  "case_lines tc = (if tc_InputLines tc = [] then [DummyEventInputIndicator] else tc_InputLines tc)"

text \<open>The clone of the global fields is a deep copy, so the store does not reach them.\<close>

definition add_event :: "test_case \<Rightarrow> string \<Rightarrow> test_case_set \<Rightarrow> test_case_set result" where
  "add_event tc line t =
     rbind (set_fields (entries (tc_InputFields tc)) (t_InputFields t)) (\<lambda>e.
       Ok (t\<lparr>t_Events := t_Events t @ [e]\<rparr>))"

definition add_case :: "test_case \<Rightarrow> test_case_set \<Rightarrow> test_case_set result" where
  "add_case tc t =
     (let t = t\<lparr>t_InputLines := t_InputLines t @ case_lines tc,
                t_ExpectedEvents := t_ExpectedEvents t @ tc_ExpectedEvents tc\<rparr>
      in rbind (each (add_event tc) (case_lines tc) t) (\<lambda>t.
           Ok (t\<lparr>t_descriptions := t_descriptions t
                   @ replicate (length (tc_ExpectedEvents tc)) (tc_Description tc)\<rparr>)))"

definition default_set :: test_case_set where
  "default_set =
     \<lparr>t_File = [], t_InputPlugin = [], t_Codec = ''line'', t_IgnoredFields = [],
      t_InputFields = Some [], t_LegacyInputLines = [], t_InputLines = [],
      t_LegacyExpectedEvents = [], t_ExpectedEvents = [], t_ExportMetadata = False,
      t_ExportOutputs = False, t_TestCases = [], t_Events = [], t_descriptions = []\<rparr>"

definition decode_set :: "tc_env \<Rightarrow> string \<Rightarrow> string \<Rightarrow> test_case_set result" where
  "decode_set env configType buf =
     (if configType = ''json'' then te_unjson env buf default_set else te_unyaml env buf default_set)"

text \<open>\<open>input\<close> is what reading all of the reader yields.\<close>

definition New_set :: "tc_env \<Rightarrow> string result \<Rightarrow> string \<Rightarrow> test_case_set result" where
  "New_set env input configType =
     (if configType \<notin> {''json'', ''yaml'', ''yml''}
      then Err (Errorf ''Config type must be json or yaml or yml'' [])
      else rbind input (\<lambda>buf.
        rbind (decode_set env configType buf) (\<lambda>t.
          if t_LegacyExpectedEvents t \<noteq> [] then
            Err (Errorf ''testcase file contained deprecated \"expected\" key; specify an array of testcase objects under the \"testcases\" key instead'' [])
          else if t_LegacyInputLines t \<noteq> [] then
            Err (Errorf ''testcase file contained deprecated \"input\" key; specify an array of testcase objects under the \"testcases\" key instead'' [])
          else rbind (IsValid (t_InputFields t)) (\<lambda>_.
            rbind (convertBracketFields env t) (\<lambda>t.
              (let t = t\<lparr>t_IgnoredFields := sort_strings (t_IgnoredFields t @ defaultIgnoredFields),
                         t_descriptions := []\<rparr>
               in each add_case (t_TestCases t) t))))))"

text \<open>The file system as this package uses it.\<close>

record tc_files =
  tf_abs :: "string \<Rightarrow> string result"
  tf_open :: "string \<Rightarrow> gerror option"
  tf_read :: "string \<Rightarrow> string result"
  tf_isdir :: "string \<Rightarrow> bool result"
  tf_readdir :: "string \<Rightarrow> (string \<times> bool) list result"

definition NewFromFile :: "tc_files \<Rightarrow> tc_env \<Rightarrow> string \<Rightarrow> test_case_set result" where
  "NewFromFile fs env path =
     rbind (tf_abs fs path) (\<lambda>abspath.
       (let ext = trim_prefix (path_ext abspath) ''.''
        in rbind (check (tf_open fs path) ()) (\<lambda>_.
          rbind (map_err (Wrap (''Error reading/unmarshalling '' @ path)) (New_set env (tf_read fs path) ext))
            (\<lambda>t. Ok (t\<lparr>t_File := abspath\<rparr>)))))"

definition is_test_file :: "string \<times> bool \<Rightarrow> bool" where
  "is_test_file = (\<lambda>(name, isdir).
     \<not> (isdir \<or> (\<not> has_suffix name ''.json'' \<and> \<not> has_suffix name ''.yaml'' \<and> \<not> has_suffix name ''.yml'')))"

definition discoverTestDirectory :: "tc_files \<Rightarrow> tc_env \<Rightarrow> string \<Rightarrow> test_case_set list result" where
  "discoverTestDirectory fs env path =
     rbind (map_err (Wrap ''Error discovering test case files'') (tf_readdir fs path)) (\<lambda>files.
       each (\<lambda>f result.
           if \<not> is_test_file f then Ok result
           else rbind (NewFromFile fs env (path_join [path, fst f])) (\<lambda>t. Ok (result @ [t])))
         files [])"

definition discoverTestFile :: "tc_files \<Rightarrow> tc_env \<Rightarrow> string \<Rightarrow> test_case_set list result" where
  "discoverTestFile fs env path = rbind (NewFromFile fs env path) (\<lambda>t. Ok [t])"

definition DiscoverTests :: "tc_files \<Rightarrow> tc_env \<Rightarrow> string \<Rightarrow> test_case_set list result" where
  "DiscoverTests fs env path =
     rbind (tf_isdir fs path) (\<lambda>isdir.
       if isdir then discoverTestDirectory fs env path else discoverTestFile fs env path)"

section \<open>Comparing the events\<close>

text \<open>
  What the comparison gets from outside: the temporary directory, the JSON encoder, the outcome
  of creating a directory or writing a file, and the diff command, which reads the files: it
  ends with an exit code or does not run at all.
\<close>

datatype exec_outcome = Exited int string | NotRun gerror string

record cmp_env =
  ce_MkdirTemp :: "string result"
  ce_MarshalIndent :: "event \<Rightarrow> string result"
  ce_MarshalAll :: "event list \<Rightarrow> string result"
  ce_io :: "string \<Rightarrow> gerror option"
  ce_exec :: "string list \<Rightarrow> file_map \<Rightarrow> exec_outcome"

definition marshalToFile :: "cmp_env \<Rightarrow> event \<Rightarrow> string \<Rightarrow> file_map \<Rightarrow> file_map result" where
  "marshalToFile env ev filename files =
     rbind (map_err (Wrap ''Failed to marshal %+v as JSON'') (ce_MarshalIndent env ev)) (\<lambda>buf.
     rbind (check (ce_io env (path_dir filename)) ()) (\<lambda>_.
       check (ce_io env filename) (mput filename (buf @ [CHR 0x0A]) files)))"

text \<open>Exit code 1 is the diff command's way of saying that the files differ.\<close>

definition runDiffCommand :: "cmp_env \<Rightarrow> string list \<Rightarrow> string \<Rightarrow> string \<Rightarrow> file_map
    \<Rightarrow> bool \<times> string \<times> gerror option" where
  "runDiffCommand env command file1 file2 files =
     (case ce_exec env (command @ [file1, file2]) files of
        Exited code out \<Rightarrow>
          (code = 0, out, if code = 0 \<or> code = 1 then None else Some (Ext ''exit status''))
      | NotRun e out \<Rightarrow> (False, out, Some e))"

text \<open>\<open>removeFields\<close> for every ignored field; deleting from a nil map does nothing.\<close>

definition remove_ignored :: "string list \<Rightarrow> event \<Rightarrow> event result" where
  "remove_ignored ignored ev =
     (case ev of
        None \<Rightarrow> Ok None
      | Some m \<Rightarrow> rbind (each removeFields ignored m) (\<lambda>m. Ok (Some m)))"

definition result_name :: "test_case_set \<Rightarrow> nat \<Rightarrow> nat \<Rightarrow> string" where
  "result_name t i n =
     (let name = ''Comparing message '' @ itoa (i + 1) @ '' of '' @ itoa n
      in if i < length (t_descriptions t) \<and> t_descriptions t ! i \<noteq> []
         then name @ '' ('' @ t_descriptions t ! i @ '')'' else name)"

definition result_dir :: "test_case_set \<Rightarrow> string \<Rightarrow> nat \<Rightarrow> string" where
  "result_dir t tempdir i = path_join [tempdir, path_base (t_File t), itoa (i + 1)]"

text \<open>
  One round of the loop: the result for the observer and the files written. \<open>t_ExpectedEvents t ! i\<close>
  is in range, the two lists being of one length.
\<close>

definition compare_event :: "cmp_env \<Rightarrow> test_case_set \<Rightarrow> string list \<Rightarrow> string \<Rightarrow> nat \<Rightarrow> nat \<Rightarrow> event
    \<Rightarrow> file_map \<Rightarrow> (comparison_result \<times> file_map) result" where
  "compare_event env t diffCommand tempdir n i actualEvent files =
     rbind (remove_ignored (t_IgnoredFields t) actualEvent) (\<lambda>actualEvent.
       (let resultDir = result_dir t tempdir i;
            actualFilePath = path_join [resultDir, ''actual''];
            expectedFilePath = path_join [resultDir, ''expected'']
        in rbind (marshalToFile env actualEvent actualFilePath files) (\<lambda>files.
           rbind (marshalToFile env (t_ExpectedEvents t ! i) expectedFilePath files) (\<lambda>files.
             (case runDiffCommand env diffCommand expectedFilePath actualFilePath files of
                (status, explain, err) \<Rightarrow>
                  check err (\<lparr>r_Name = result_name t i n, r_Status = status, r_Explain = explain,
                              r_Path = path_base (t_File t), r_EventIndex = i\<rparr>, files))))))"

text \<open>The loop, with the results that the observer has received when it ends.\<close>

fun compare_loop :: "cmp_env \<Rightarrow> test_case_set \<Rightarrow> string list \<Rightarrow> string \<Rightarrow> nat \<Rightarrow> nat \<Rightarrow> event list
    \<Rightarrow> bool \<Rightarrow> file_map \<Rightarrow> comparison_result list \<times> bool result" where
  "compare_loop env t diffCommand tempdir n i [] status files = ([], Ok status)"
| "compare_loop env t diffCommand tempdir n i (ev # evs) status files =
     (case compare_event env t diffCommand tempdir n i ev files of
        Ok (r, files) \<Rightarrow>
          (let (rs, res) = compare_loop env t diffCommand tempdir n (i + 1) evs
                             (status \<and> r_Status r) files
           in (r # rs, res))
      | Err e \<Rightarrow> ([], Err e)
      | Panic \<Rightarrow> ([], Panic))"

definition Compare :: "cmp_env \<Rightarrow> test_case_set \<Rightarrow> event list \<Rightarrow> string list
    \<Rightarrow> comparison_result list \<times> bool result" where
  "Compare env t events diffCommand =
     (if length (t_ExpectedEvents t) \<noteq> length events then
        (case ce_MarshalAll env events of
           Ok eventsJSON \<Rightarrow>
             ([\<lparr>r_Name = ''Compare actual event with expected event'', r_Status = False,
                r_Explain = ''Expected '' @ itoa (length (t_ExpectedEvents t)) @ '' event(s), got ''
                  @ itoa (length events) @ '' instead.'' @ [CHR 0x0A] @ ''Received events: '' @ eventsJSON,
                r_Path = path_base (t_File t), r_EventIndex = 0\<rparr>], Ok False)
         | Err e \<Rightarrow> ([], Err e)
         | Panic \<Rightarrow> ([], Panic))
      else if events = [] then
        ([\<lparr>r_Name = ''Compare actual event with expected event'', r_Status = True,
           r_Explain = ''Drop all events'', r_Path = path_base (t_File t), r_EventIndex = 0\<rparr>], Ok True)
      else (case ce_MkdirTemp env of
          Ok tempdir \<Rightarrow> compare_loop env t diffCommand tempdir (length events) 0 events True []
        | Err e \<Rightarrow> ([], Err e)
        | Panic \<Rightarrow> ([], Panic)))"

section \<open>Facts\<close>

lemma parseBracketProperty_mwf:
  assumes "mwf s" and "parseBracketProperty ks w s = Ok s'"
  shows "mwf s'"
proof (cases "(ks, w, s)" rule: parseBracketProperty.cases)
  case (3 k k2 ks val result)
  define result1 where "result1 = (if mget result k = None then mput k (VMap []) result else result)"
  from assms(2) 3 obtain m' where "s' = mput k (VMap m') result1"
    by (auto simp: result1_def [symmetric] Let_def split: option.splits gvalue.splits)
  moreover have "mwf result1" using assms(1) 3 by (simp add: result1_def mwf_mput)
  ultimately show ?thesis by (simp add: mwf_mput)
qed (use assms in \<open>auto intro: mwf_mput\<close>)

lemma parse_entries_mwf: "mwf r \<Longrightarrow> parse_entries data r = Ok r' \<Longrightarrow> mwf r'"
proof (induction data arbitrary: r)
  case (Cons p data)
  obtain k v where p: "p = (k, v)" by (cases p)
  from Cons.prems(2) obtain v' r1 where "parseBracketProperty (extractBracketFields k) v' r = Ok r1"
    and rec: "parse_entries data r1 = Ok r'" by (auto simp: p Let_def)
  then have "mwf r1" using Cons.prems(1) parseBracketProperty_mwf by blast
  then show ?case using rec by (rule Cons.IH)
qed simp

lemma convert_fields_Ok:
  "convert_fields e = Ok e' \<Longrightarrow> \<exists>m. e' = Some m \<and> mwf m \<and> parseAllBracketProperties (entries e) = Ok m"
  by (auto simp: convert_fields_def parseAllBracketProperties_def dest: parse_entries_mwf [OF mwf_Nil])

lemma mget_set_fields:
  assumes "mwf from"
  shows "mget (fold (\<lambda>(k, v). mput k v) from m) k
     = (case mget from k of None \<Rightarrow> mget m k | Some v \<Rightarrow> Some v)"
proof -
  have "map_of (rev from) = map_of from"
    using assms by (intro map_of_inject_set [THEN iffD2])
      (auto simp: mwf_def mkeys_def rev_map [symmetric])
  then show ?thesis by (simp add: mp.get_put_all) (simp add: mget_def)
qed

definition overlay :: "fields \<Rightarrow> fields \<Rightarrow> fields" where
  "overlay from m = fold (\<lambda>(k, v). mput k v) from m"

lemma add_event_Some:
  "t_InputFields t = Some g \<Longrightarrow>
   add_event tc line t = Ok (t\<lparr>t_Events := t_Events t @ [Some (overlay (entries (tc_InputFields tc)) g)]\<rparr>)"
  by (simp add: add_event_def set_fields_def overlay_def)

lemma each_add_event:
  assumes "t_InputFields t = Some g"
  shows "each (add_event tc) ls t = Ok (t\<lparr>t_Events := t_Events t
    @ replicate (length ls) (Some (overlay (entries (tc_InputFields tc)) g))\<rparr>)"
  using assms
proof (induction ls arbitrary: t)
  case (Cons l ls)
  let ?t = "t\<lparr>t_Events := t_Events t @ [Some (overlay (entries (tc_InputFields tc)) g)]\<rparr>"
  from Cons.IH [of ?t] Cons.prems show ?case by (simp add: add_event_Some)
qed simp

lemma add_case_Some:
  assumes "t_InputFields t = Some g"
  shows "add_case tc t = Ok (t\<lparr>t_InputLines := t_InputLines t @ case_lines tc,
     t_ExpectedEvents := t_ExpectedEvents t @ tc_ExpectedEvents tc,
     t_Events := t_Events t @ replicate (length (case_lines tc)) (Some (overlay (entries (tc_InputFields tc)) g)),
     t_descriptions := t_descriptions t @ replicate (length (tc_ExpectedEvents tc)) (tc_Description tc)\<rparr>)"
  using each_add_event [of "t\<lparr>t_InputLines := t_InputLines t @ case_lines tc,
     t_ExpectedEvents := t_ExpectedEvents t @ tc_ExpectedEvents tc\<rparr>" g tc "case_lines tc"] assms
  by (simp add: add_case_def Let_def)

lemma each_add_case:
  assumes "t_InputFields t = Some g"
  shows "each add_case tcs t = Ok (t\<lparr>t_InputLines := t_InputLines t @ concat (map case_lines tcs),
     t_ExpectedEvents := t_ExpectedEvents t @ concat (map tc_ExpectedEvents tcs),
     t_Events := t_Events t @ concat (map (\<lambda>tc. replicate (length (case_lines tc))
       (Some (overlay (entries (tc_InputFields tc)) g))) tcs),
     t_descriptions := t_descriptions t
       @ concat (map (\<lambda>tc. replicate (length (tc_ExpectedEvents tc)) (tc_Description tc)) tcs)\<rparr>)"
  using assms
proof (induction tcs arbitrary: t)
  case (Cons tc tcs)
  show ?case
    using Cons.IH Cons.prems by (simp add: add_case_Some [OF Cons.prems])
qed simp

text \<open>Removing the ignored fields never fails.\<close>

lemma each_removeFields: "\<exists>m'. each removeFields ignored m = Ok m'"
proof (induction ignored arbitrary: m)
  case (Cons f fs)
  obtain m1 where "removeFields f m = Ok m1"
    unfolding removeFields_def using removeField_ok extract_nonempty(1) by blast
  with Cons show ?case by simp
qed simp

definition stripped :: "string list \<Rightarrow> event \<Rightarrow> event" where
  "stripped ignored ev = (case remove_ignored ignored ev of Ok ev' \<Rightarrow> ev' | _ \<Rightarrow> ev)"

lemma remove_ignored_Ok: "remove_ignored ignored ev = Ok (stripped ignored ev)"
proof (cases ev)
  case (Some m)
  obtain m' where "each removeFields ignored m = Ok m'" using each_removeFields by blast
  with Some show ?thesis by (simp add: stripped_def remove_ignored_def)
qed (simp add: stripped_def remove_ignored_def)

text \<open>An environment in which nothing fails and the diff command compares its two files.\<close>

definition calm_cmp :: "cmp_env \<Rightarrow> string list \<Rightarrow> string \<Rightarrow> (event \<Rightarrow> string) \<Rightarrow> bool" where
  "calm_cmp env diff tempdir render \<longleftrightarrow>
     ce_MkdirTemp env = Ok tempdir \<and> plain_dir tempdir \<and> (\<forall>p. ce_io env p = None) \<and>
     (\<forall>ev. ce_MarshalIndent env ev = Ok (render ev)) \<and> (\<forall>evs. is_ok (ce_MarshalAll env evs)) \<and>
     (\<forall>f1 f2 files a b. mget files f1 = Some a \<and> mget files f2 = Some b \<longrightarrow>
        (\<exists>out. ce_exec env (diff @ [f1, f2]) files = Exited (if a = b then 0 else 1) out))"

definition same_rendering :: "(event \<Rightarrow> string) \<Rightarrow> test_case_set \<Rightarrow> nat \<Rightarrow> event \<Rightarrow> bool" where
  "same_rendering render t i ev \<longleftrightarrow>
     render (t_ExpectedEvents t ! i) = render (stripped (t_IgnoredFields t) ev)"

lemma plain_itoa: "plain_elem (itoa n)"
proof -
  have "CHR ''/'' \<notin> set (itoa n)" "CHR ''.'' \<notin> set (itoa n)"
    using itoa_digits [of n] by (auto simp: is_digit_def)
  then show ?thesis by (auto simp: plain_elem_def)
qed

lemma compare_event_calm:
  assumes calm: "calm_cmp env diff tempdir render" and base: "plain_elem (path_base (t_File t))"
  shows "\<exists>r files'. compare_event env t diff tempdir n i ev files = Ok (r, files') \<and>
     r_Status r = same_rendering render t i ev \<and> r_Name r = result_name t i n \<and>
     r_Path r = path_base (t_File t) \<and> r_EventIndex r = i"
proof -
  let ?dir = "result_dir t tempdir i"
  have dir: "plain_dir ?dir"
    using calm base path_join3_plain(2) [of tempdir _ "itoa (i + 1)"] plain_itoa
    by (simp add: result_dir_def calm_cmp_def)
  have paths: "path_join [?dir, ''actual''] = ?dir @ ''/actual''"
    "path_join [?dir, ''expected''] = ?dir @ ''/expected''"
    using path_join_plain(1) [OF dir] by (simp_all add: plain_elem_def)
  let ?a = "render (stripped (t_IgnoredFields t) ev) @ [CHR 0x0A]"
  let ?b = "render (t_ExpectedEvents t ! i) @ [CHR 0x0A]"
  let ?files = "mput (?dir @ ''/expected'') ?b (mput (?dir @ ''/actual'') ?a files)"
  have "mget ?files (?dir @ ''/expected'') = Some ?b" "mget ?files (?dir @ ''/actual'') = Some ?a"
    by (simp_all add: map_simps)
  with calm obtain out where "ce_exec env (diff @ [?dir @ ''/expected'', ?dir @ ''/actual'']) ?files
      = Exited (if ?b = ?a then 0 else 1) out"
    unfolding calm_cmp_def by blast
  then have d: "runDiffCommand env diff (?dir @ ''/expected'') (?dir @ ''/actual'') ?files
      = (same_rendering render t i ev, out, None)"
    by (auto simp: runDiffCommand_def same_rendering_def)
  have io: "check (ce_io env p) x = Ok x" for p and x :: 'x
    using calm by (simp add: calm_cmp_def)
  have m: "marshalToFile env e p fs = Ok (mput p (render e @ [CHR 0x0A]) fs)" for e p fs
    using calm by (simp add: marshalToFile_def calm_cmp_def)
  show ?thesis
    by (simp add: compare_event_def remove_ignored_Ok paths m d Let_def)
qed

lemma compare_loop_calm:
  assumes calm: "calm_cmp env diff tempdir render" and base: "plain_elem (path_base (t_File t))"
  shows "\<exists>rs. compare_loop env t diff tempdir n i evs status files
      = (rs, Ok (status \<and> (\<forall>j < length evs. same_rendering render t (i + j) (evs ! j)))) \<and>
     length rs = length evs \<and>
     (\<forall>j < length evs. r_Status (rs ! j) = same_rendering render t (i + j) (evs ! j) \<and>
        r_Name (rs ! j) = result_name t (i + j) n \<and> r_Path (rs ! j) = path_base (t_File t) \<and>
        r_EventIndex (rs ! j) = i + j)"
proof (induction evs arbitrary: i status files)
  case (Cons ev evs)
  obtain r files' where r: "compare_event env t diff tempdir n i ev files = Ok (r, files')"
    "r_Status r = same_rendering render t i ev" "r_Name r = result_name t i n"
    "r_Path r = path_base (t_File t)" "r_EventIndex r = i"
    using compare_event_calm [OF calm base] by blast
  obtain rs where rs: "compare_loop env t diff tempdir n (i + 1) evs (status \<and> r_Status r) files'
      = (rs, Ok ((status \<and> r_Status r) \<and> (\<forall>j < length evs. same_rendering render t (i + 1 + j) (evs ! j))))"
    "length rs = length evs"
    "\<forall>j < length evs. r_Status (rs ! j) = same_rendering render t (i + 1 + j) (evs ! j) \<and>
        r_Name (rs ! j) = result_name t (i + 1 + j) n \<and> r_Path (rs ! j) = path_base (t_File t) \<and>
        r_EventIndex (rs ! j) = i + 1 + j"
    using Cons.IH [of "i + 1" "status \<and> r_Status r" files'] by blast
  show ?case
    using r rs by (intro exI [of _ "r # rs"]) (auto simp: less_Suc_eq_0_disj nth_Cons')
qed simp

text \<open>The stages of a successful \<open>New\<close>.\<close>

lemma New_set_OkE:
  assumes "New_set env input configType = Ok t"
  obtains buf t0 t1 where "input = Ok buf" "decode_set env configType buf = Ok t0"
    "t_LegacyExpectedEvents t0 = []" "t_LegacyInputLines t0 = []" "convertBracketFields env t0 = Ok t1"
    "each add_case (t_TestCases t1)
      (t1\<lparr>t_IgnoredFields := sort_strings (t_IgnoredFields t1 @ defaultIgnoredFields), t_descriptions := []\<rparr>) = Ok t"
  using assms unfolding New_set_def by (simp add: Let_def split: if_splits) blast+

text \<open>What the expansion of the bracket notation makes of the lines and of a test case.\<close>

definition converted_lines :: "tc_env \<Rightarrow> string \<Rightarrow> string list \<Rightarrow> string list \<Rightarrow> bool" where
  "converted_lines env codec ls ls' \<longleftrightarrow>
     (if codec = ''json_lines'' then rmap (convert_line env) ls = Ok ls' else ls' = ls)"

definition converted_case :: "tc_env \<Rightarrow> string \<Rightarrow> test_case \<Rightarrow> test_case \<Rightarrow> bool" where
  "converted_case env codec tc tc' \<longleftrightarrow> convert_fields (tc_InputFields tc) = Ok (tc_InputFields tc') \<and>
     converted_lines env codec (tc_InputLines tc) (tc_InputLines tc') \<and>
     tc_ExpectedEvents tc' = tc_ExpectedEvents tc \<and> tc_Description tc' = tc_Description tc"

lemma converted_cases:
  "list_all2 (converted_case env codec) tcs tcs' \<Longrightarrow>
   map tc_ExpectedEvents tcs' = map tc_ExpectedEvents tcs \<and>
   (codec \<noteq> ''json_lines'' \<longrightarrow> map tc_InputLines tcs' = map tc_InputLines tcs) \<and>
   (\<forall>tc \<in> set tcs'. mwf (entries (tc_InputFields tc)))"
  by (induction rule: list_all2_induct)
    (auto simp: converted_case_def converted_lines_def dest: convert_fields_Ok)

lemma rmap_length: "rmap f xs = Ok ys \<Longrightarrow> length ys = length xs"
  by (auto simp: rmap_Ok dest: list_all2_lengthD)

lemma convertBracketFields_OkE:
  assumes "convertBracketFields env t0 = Ok t1"
  obtains g ex where "convert_fields (t_InputFields t0) = Ok (Some g)"
    "t_InputFields t1 = Some g" "t_ExpectedEvents t1 = ex" "t_Events t1 = t_Events t0"
    "t_IgnoredFields t1 = t_IgnoredFields t0"
    "converted_lines env (t_Codec t0) (t_InputLines t0) (t_InputLines t1)"
    "rmap convert_fields (t_ExpectedEvents t0) = Ok ex"
    "list_all2 (converted_case env (t_Codec t0)) (t_TestCases t0) (t_TestCases t1)"
proof -
  from assms obtain e cs ex where e: "convert_fields (t_InputFields t0) = Ok e"
    and cs: "rmap convert_case_fields (t_TestCases t0) = Ok cs"
    and ex: "rmap convert_fields (t_ExpectedEvents t0) = Ok ex"
    and rest: "(let t = t0\<lparr>t_InputFields := e, t_TestCases := cs, t_ExpectedEvents := ex\<rparr>
        in if t_Codec t = ''json_lines'' then
             rbind (rmap (convert_line env) (t_InputLines t)) (\<lambda>ls.
             rbind (rmap (convert_case_lines env) cs) (\<lambda>cases.
               Ok (t\<lparr>t_InputLines := ls, t_TestCases := cases\<rparr>)))
           else Ok t) = Ok t1"
    by (auto simp: convertBracketFields_def)
  obtain g where g: "e = Some g" using convert_fields_Ok [OF e] by blast
  from cs have cs': "list_all2 (\<lambda>tc tc'. convert_fields (tc_InputFields tc) = Ok (tc_InputFields tc') \<and>
      tc_InputLines tc' = tc_InputLines tc \<and> tc_ExpectedEvents tc' = tc_ExpectedEvents tc \<and>
      tc_Description tc' = tc_Description tc) (t_TestCases t0) cs"
    unfolding rmap_Ok by (rule list_all2_mono) (auto simp: convert_case_fields_def)
  show ?thesis
  proof (cases "t_Codec t0 = ''json_lines''")
    case True
    with rest g obtain ls cs2 where ls: "rmap (convert_line env) (t_InputLines t0) = Ok ls"
      and cs2: "rmap (convert_case_lines env) cs = Ok cs2"
      and t1: "t_InputFields t1 = Some g" "t_ExpectedEvents t1 = ex" "t_Events t1 = t_Events t0"
        "t_IgnoredFields t1 = t_IgnoredFields t0" "t_InputLines t1 = ls" "t_TestCases t1 = cs2"
      by (auto simp: Let_def)
    from cs2 have "list_all2 (\<lambda>tc tc'. tc_ExpectedEvents tc' = tc_ExpectedEvents tc \<and>
        tc_InputFields tc' = tc_InputFields tc \<and> tc_Description tc' = tc_Description tc \<and>
        rmap (convert_line env) (tc_InputLines tc) = Ok (tc_InputLines tc')) cs cs2"
      unfolding rmap_Ok [of "convert_case_lines env"]
      by (rule list_all2_mono) (auto simp: convert_case_lines_def)
    with cs' have "list_all2 (converted_case env (t_Codec t0)) (t_TestCases t0) cs2"
      by (rule list_all2_trans [rotated]) (use True in \<open>auto simp: converted_case_def converted_lines_def\<close>)
    then show ?thesis
      using that [OF e [unfolded g] t1(1-4) _ ex] t1 ls True by (simp add: converted_lines_def)
  next
    case False
    from cs' have "list_all2 (converted_case env (t_Codec t0)) (t_TestCases t0) cs"
      by (rule list_all2_mono) (simp add: converted_case_def converted_lines_def False)
    with False rest g show ?thesis
      using that [OF e [unfolded g]] ex by (auto simp: converted_lines_def)
  qed
qed

lemma compare_loop_verdict:
  "compare_loop env t diff tempdir n i evs status files = (rs, Ok ok) \<Longrightarrow>
   ok \<longleftrightarrow> status \<and> (\<forall>r \<in> set rs. r_Status r)"
  by (induction evs arbitrary: i status files rs ok)
    (fastforce split: result.splits prod.splits)+

lemma Compare_verdict:
  "Compare env t evs diff = (rs, Ok ok) \<Longrightarrow> (ok \<longleftrightarrow> (\<forall>r \<in> set rs. r_Status r)) \<and>
     (ok \<longrightarrow> length evs = length (t_ExpectedEvents t))"
  unfolding Compare_def
  by (auto split: if_splits result.splits dest: compare_loop_verdict)

text \<open>A comparison that has passed, with its results among those published.\<close>

definition passed :: "cmp_env \<Rightarrow> string list \<Rightarrow> comparison_result list \<Rightarrow> test_case_set \<Rightarrow> event list \<Rightarrow> bool" where
  "passed cmp diff rs t evs \<longleftrightarrow> (\<exists>rs1. Compare cmp t evs diff = (rs1, Ok True) \<and> set rs1 \<subseteq> set rs)"

lemma passed_mono: "passed cmp diff rs t evs \<Longrightarrow> set rs \<subseteq> set rs' \<Longrightarrow> passed cmp diff rs' t evs"
  by (auto simp: passed_def)

section \<open>Properties\<close>

text \<open>
  C99: reading a test case set. From what the decoder finds, a successful \<open>New\<close> takes the lines of
  the test cases in their order (a dummy line for a test case without input), their expected
  events with one description each, and for every line an event whose fields are the test
  case's fields laid over the set's fields; the ignored fields are sorted and include
  \<open>@version\<close>. Both kinds of fields are the decoded ones with their bracket notation expanded, case
  by case; the lines are the decoded ones, expanded too when the codec is \<open>json_lines\<close>; the
  descriptions and expected events of the test cases are the decoded ones as they are.
\<close>

theorem New_set_correct:
  assumes "New_set env input configType = Ok t"
  shows "\<exists>buf t0 g lines0 expected0.
    input = Ok buf \<and>
    decode_set env configType buf = Ok t0 \<and>
    t_LegacyExpectedEvents t0 = [] \<and> t_LegacyInputLines t0 = [] \<and>
    convert_fields (t_InputFields t0) = Ok (Some g) \<and> t_InputFields t = Some g \<and>
    sorted (t_IgnoredFields t) \<and> mset (t_IgnoredFields t) = add_mset ''@version'' (mset (t_IgnoredFields t0)) \<and>
    t_InputLines t = lines0 @ concat (map case_lines (t_TestCases t)) \<and>
    t_ExpectedEvents t = expected0 @ concat (map tc_ExpectedEvents (t_TestCases t)) \<and>
    length lines0 = length (t_InputLines t0) \<and> length expected0 = length (t_ExpectedEvents t0) \<and>
    converted_lines env (t_Codec t0) (t_InputLines t0) lines0 \<and>
    rmap convert_fields (t_ExpectedEvents t0) = Ok expected0 \<and>
    list_all2 (\<lambda>tc0 tc. convert_fields (tc_InputFields tc0) = Ok (tc_InputFields tc) \<and>
      converted_lines env (t_Codec t0) (tc_InputLines tc0) (tc_InputLines tc) \<and>
      tc_Description tc = tc_Description tc0) (t_TestCases t0) (t_TestCases t) \<and>
    map tc_ExpectedEvents (t_TestCases t) = map tc_ExpectedEvents (t_TestCases t0) \<and>
    (t_Codec t0 \<noteq> ''json_lines'' \<longrightarrow> map tc_InputLines (t_TestCases t) = map tc_InputLines (t_TestCases t0)) \<and>
    t_descriptions t = concat (map (\<lambda>tc. replicate (length (tc_ExpectedEvents tc)) (tc_Description tc)) (t_TestCases t)) \<and>
    t_Events t = t_Events t0 @ concat (map (\<lambda>tc. replicate (length (case_lines tc))
      (Some (overlay (entries (tc_InputFields tc)) g))) (t_TestCases t)) \<and>
    (\<forall>tc \<in> set (t_TestCases t). \<forall>k. mget (overlay (entries (tc_InputFields tc)) g) k =
      (case mget (entries (tc_InputFields tc)) k of None \<Rightarrow> mget g k | Some v \<Rightarrow> Some v))"
proof -
  obtain buf t0 t1 where new: "input = Ok buf" "decode_set env configType buf = Ok t0"
      "t_LegacyExpectedEvents t0 = []" "t_LegacyInputLines t0 = []"
    and conv: "convertBracketFields env t0 = Ok t1"
    and loop: "each add_case (t_TestCases t1)
      (t1\<lparr>t_IgnoredFields := sort_strings (t_IgnoredFields t1 @ defaultIgnoredFields), t_descriptions := []\<rparr>) = Ok t"
    using assms by (rule New_set_OkE)
  obtain g ex where g: "convert_fields (t_InputFields t0) = Ok (Some g)"
    and t1: "t_InputFields t1 = Some g" "t_ExpectedEvents t1 = ex" "t_Events t1 = t_Events t0"
      "t_IgnoredFields t1 = t_IgnoredFields t0"
    and lines: "converted_lines env (t_Codec t0) (t_InputLines t0) (t_InputLines t1)"
    and ex: "rmap convert_fields (t_ExpectedEvents t0) = Ok ex"
    and same: "list_all2 (converted_case env (t_Codec t0)) (t_TestCases t0) (t_TestCases t1)"
    using conv by (rule convertBracketFields_OkE)
  have len: "length (t_InputLines t1) = length (t_InputLines t0)" "length ex = length (t_ExpectedEvents t0)"
    using lines ex by (auto simp: converted_lines_def dest: rmap_length split: if_splits)
  have cases: "list_all2 (\<lambda>tc0 tc. convert_fields (tc_InputFields tc0) = Ok (tc_InputFields tc) \<and>
      converted_lines env (t_Codec t0) (tc_InputLines tc0) (tc_InputLines tc) \<and>
      tc_Description tc = tc_Description tc0) (t_TestCases t0) (t_TestCases t1)"
    using same by (rule list_all2_mono) (simp add: converted_case_def)
  have t: "t_TestCases t = t_TestCases t1" "t_InputFields t = Some g"
    "t_InputLines t = t_InputLines t1 @ concat (map case_lines (t_TestCases t1))"
    "t_ExpectedEvents t = ex @ concat (map tc_ExpectedEvents (t_TestCases t1))"
    "t_IgnoredFields t = sort_strings (t_IgnoredFields t0 @ defaultIgnoredFields)"
    "t_descriptions t = concat (map (\<lambda>tc. replicate (length (tc_ExpectedEvents tc)) (tc_Description tc)) (t_TestCases t1))"
    "t_Events t = t_Events t0 @ concat (map (\<lambda>tc. replicate (length (case_lines tc))
      (Some (overlay (entries (tc_InputFields tc)) g))) (t_TestCases t1))"
    using loop t1 each_add_case [of "t1\<lparr>t_IgnoredFields := sort_strings (t_IgnoredFields t1 @ defaultIgnoredFields),
      t_descriptions := []\<rparr>" g "t_TestCases t1"] by auto
  show ?thesis
    using new g t t1 len lines ex cases converted_cases [OF same]
    by (intro exI [of _ buf] exI [of _ t0] exI [of _ g] exI [of _ "t_InputLines t1"] exI [of _ ex])
      (simp add: overlay_def mget_set_fields defaultIgnoredFields_def)
qed

definition sample_set :: test_case_set where
  "sample_set = default_set\<lparr>t_InputFields := Some [(''type'', VString ''a'')],
     t_TestCases := [\<lparr>tc_InputLines = [''line''], tc_InputFields = Some [(''type'', VString ''b'')],
        tc_ExpectedEvents = [Some [(''message'', VString ''line'')]], tc_Description = ''first''\<rparr>]\<rparr>"

definition sample_tc_env :: tc_env where
  "sample_tc_env = \<lparr>te_unjson = (\<lambda>_ _. Ok sample_set), te_unyaml = (\<lambda>_ _. Ok sample_set),
     te_unmarshal = (\<lambda>_. Ok []), te_marshal = (\<lambda>_. Ok [])\<rparr>"

theorem New_set_correct_witness:
  "\<exists>t. New_set sample_tc_env (Ok []) ''json'' = Ok t \<and> t_descriptions t = [''first''] \<and>
     sorted (t_IgnoredFields t)"
proof -
  have "is_ok (New_set sample_tc_env (Ok []) ''json'')" by code_simp
  then obtain t where t: "New_set sample_tc_env (Ok []) ''json'' = Ok t" by (auto simp: is_ok_iff)
  have "(case New_set sample_tc_env (Ok []) ''json'' of Ok t \<Rightarrow> t_descriptions t | _ \<Rightarrow> []) = [''first'']"
    by code_simp
  with t have "t_descriptions t = [''first'']" by simp
  moreover have "sorted (t_IgnoredFields t)"
    using New_set_correct [OF t] by (elim exE conjE)
  ultimately show ?thesis using t by blast
qed

text \<open>
  C16: the comparison of the events that Logstash returned. When nothing fails and the diff
  command compares its two files, the test case set passes exactly if there are as many events
  as expected and each event, the ignored fields removed, is rendered as the expected event at
  its position; for events of the right number the observer gets one result for each, in order,
  with the event's index, its outcome and its description, and otherwise a single failure.
\<close>

theorem Compare_correct:
  assumes "calm_cmp env diff tempdir render" and "plain_elem (path_base (t_File t))"
  shows "\<exists>rs. Compare env t events diff = (rs, Ok (length events = length (t_ExpectedEvents t) \<and>
      (\<forall>i < length events. same_rendering render t i (events ! i)))) \<and>
    (if length events = length (t_ExpectedEvents t) \<and> events \<noteq> []
     then map r_EventIndex rs = [0..<length events] \<and>
       map r_Status rs = map (\<lambda>i. same_rendering render t i (events ! i)) [0..<length events] \<and>
       map r_Name rs = map (\<lambda>i. result_name t i (length events)) [0..<length events]
     else map r_Status rs = [length events = length (t_ExpectedEvents t)]) \<and>
    (\<forall>r \<in> set rs. r_Path r = path_base (t_File t))"
proof (cases "length events = length (t_ExpectedEvents t) \<and> events \<noteq> []")
  case True
  let ?n = "length events"
  obtain rs where run: "compare_loop env t diff tempdir ?n 0 events True []
      = (rs, Ok (True \<and> (\<forall>j < ?n. same_rendering render t (0 + j) (events ! j))))"
    and len: "length rs = ?n"
    and rs: "\<forall>j < ?n. r_Status (rs ! j) = same_rendering render t (0 + j) (events ! j) \<and>
        r_Name (rs ! j) = result_name t (0 + j) ?n \<and> r_Path (rs ! j) = path_base (t_File t) \<and>
        r_EventIndex (rs ! j) = 0 + j"
    using compare_loop_calm [OF assms, of ?n 0 events True "[]"] by blast
  have "ce_MkdirTemp env = Ok tempdir" using assms(1) by (simp add: calm_cmp_def)
  with True run have "Compare env t events diff = (rs, Ok (\<forall>j < ?n. same_rendering render t j (events ! j)))"
    by (simp add: Compare_def)
  with True len rs show ?thesis
    by (intro exI [of _ rs]) (auto simp: in_set_conv_nth intro!: nth_equalityI)
next
  case False
  have "is_ok (ce_MarshalAll env events)" using assms(1) by (simp add: calm_cmp_def)
  then show ?thesis using False by (auto simp: Compare_def is_ok_iff)
qed

definition sample_render :: "event \<Rightarrow> string" where
  "sample_render e = concat (map fst (entries e))"

definition sample_cmp :: cmp_env where
  "sample_cmp = \<lparr>ce_MkdirTemp = Ok ''/tmp'', ce_MarshalIndent = (\<lambda>e. Ok (sample_render e)),
     ce_MarshalAll = (\<lambda>_. Ok []), ce_io = (\<lambda>_. None),
     ce_exec = (\<lambda>args files. Exited (if mget files (args ! 1) = mget files (args ! 2) then 0 else 1) [])\<rparr>"

definition sample_compared :: test_case_set where
  "sample_compared = sample_set\<lparr>t_File := ''/t.json'', t_ExpectedEvents := [Some [(''a'', VInt 1)]],
     t_IgnoredFields := [''b'']\<rparr>"

theorem Compare_correct_witness:
  "\<exists>rs. Compare sample_cmp sample_compared [Some [(''b'', VNil), (''a'', VInt 1)]] [''diff''] = (rs, Ok True) \<and>
    map r_Status rs = [True]"
proof -
  let ?evs = "[Some [(''b'', VNil), (''a'', VInt 1)]]"
  have "plain_dir ''/tmp''"
    unfolding plain_dir_def by (rule exI [of _ "[''tmp'']"]) (simp add: plain_elem_def)
  then have calm: "calm_cmp sample_cmp [''diff''] ''/tmp'' sample_render"
    by (simp add: calm_cmp_def sample_cmp_def)
  have base: "plain_elem (path_base (t_File sample_compared))" by code_simp
  have same: "same_rendering sample_render sample_compared 0 (?evs ! 0)" by code_simp
  have len: "length (t_ExpectedEvents sample_compared) = 1" by (simp add: sample_compared_def)
  define evs where "evs = ?evs"
  have evs: "length evs = Suc 0" "evs \<noteq> []" "same_rendering sample_render sample_compared 0 (evs ! 0)"
    using same by (simp_all add: evs_def)
  obtain rs where
    c: "Compare sample_cmp sample_compared evs [''diff''] = (rs, Ok (length evs = length (t_ExpectedEvents sample_compared)
      \<and> (\<forall>i < length evs. same_rendering sample_render sample_compared i (evs ! i))))"
    and s: "length evs = length (t_ExpectedEvents sample_compared) \<and> evs \<noteq> [] \<Longrightarrow> map r_Status rs
      = map (\<lambda>i. same_rendering sample_render sample_compared i (evs ! i)) [0..<length evs]"
    using Compare_correct [OF calm base, of evs] by (elim exE conjE) (rule that, assumption, simp)
  have "(\<forall>i < length evs. same_rendering sample_render sample_compared i (evs ! i))" using evs by simp
  then show ?thesis using c s evs len unfolding evs_def [symmetric] by (intro exI [of _ rs]) simp
qed

end
