(* ===== verification/Session.thy ===== *)
theory Session
  imports Logstash_Config Test_Case
begin

text \<open>
  A test session, \<open>internal/daemon/session/session.go\<close> with the templates of \<open>files.go\<close>: the
  Logstash configuration it builds for a test, and what it asks of its Logstash controller. The
  controller is known by its handle; the quoting functions of \<open>astutil\<close> and \<open>json.Marshal\<close> are
  parameters.
\<close>

section \<open>Templates\<close>

definition outputPipeline :: string where
  \<open>outputPipeline = ''input {
  pipeline {
    address => {{ .PipelineName }}
  }
}

filter {
  mutate {
    add_field => { "[@metadata][__lfv_out_passed]" => "{{ .PipelineOrigName }}" }
  }
}

output {
  pipeline {
    send_to => __lfv_output
  }
}
''\<close>

definition inputGenerator :: string where
  \<open>inputGenerator = ''
input {
  generator {
    lines => [
      {{ .InputLines }}
    ]
    {{ .InputCodec }}
    count => 1
    threads => 1
  }
}

filter {
  ruby {
    id => '__lfv_ruby_count'
    init => '@count = 0'
    code => 'event.set("[@metadata][__lfv_id]", @count.to_s)
             @count += 1'
    tag_on_exception => '__lfv_ruby_count_exception'
  }

  mutate {
    # Remove fields "host", "sequence" and optionally "message", which are
    # automatically created by the generator input.
    remove_field => [ "host", "sequence" ]
  }

  translate {
    dictionary_path => "{{ .FieldsFilename }}"
    field => "[@metadata][__lfv_id]"
    destination => "[@metadata][__lfv_fields]"
    exact => true
    override => true
    fallback => "__lfv_fields_not_found"
    refresh_interval => 0
  }

  ruby {
    id => '__lfv_ruby_fields'
    code => 'fields = event.get("[@metadata][__lfv_fields]")
             fields.each { |key, value| event.set(key, value) } unless fields == "__lfv_fields_not_found"
             event.tag("lfv_fields_not_found") if fields == "__lfv_fields_not_found"
             event.remove("[message]") if event.get("[message]") == "{{ .DummyEventInputIndicator }}"'
    tag_on_exception => '__lfv_ruby_fields_exception'
  }
}

output {
  pipeline {
    send_to => [ "{{ .InputPluginName }}" ]
  }
}
''\<close>

section \<open>The session\<close>

record session =
  s_id :: string
  s_logstashController :: "nat option"
  s_ordered :: bool
  s_baseDir :: string
  s_sessionDir :: string
  s_pipelines :: "pipeline list"
  s_inputPluginCodecs :: "(string, string) gmap"
  s_testexec :: nat
  s_noCleanup :: bool

text \<open>
  What the session gets from outside: the outcomes of creating a directory or writing a file, the
  JSON encoder, the two quoting functions, and the outcomes of the controller's calls.
\<close>

record session_env =
  se_io :: "string \<Rightarrow> gerror option"
  se_marshal :: "(string, fields) gmap \<Rightarrow> string result"
  se_Quote :: "string \<Rightarrow> string option"
  se_QuoteWithEscape :: "string \<Rightarrow> string"
  se_SetupTest :: "pipeline list \<Rightarrow> gerror option"
  se_ExecuteTest :: "pipeline list \<Rightarrow> int \<Rightarrow> gerror option"

definition newSession :: "string \<Rightarrow> nat option \<Rightarrow> bool \<Rightarrow> bool \<Rightarrow> string \<Rightarrow> session" where
  "newSession baseDir logstashController noCleanup ordered sessionID =
     \<lparr>s_id = sessionID, s_logstashController = logstashController, s_ordered = ordered,
      s_baseDir = baseDir, s_sessionDir = baseDir @ ''/session/'' @ sessionID,
      s_pipelines = [], s_inputPluginCodecs = [], s_testexec = 0, s_noCleanup = noCleanup\<rparr>"

definition sutConfigDir :: "session \<Rightarrow> string" where
  "sutConfigDir s = path_join [s_sessionDir s, ''sut'']"

definition lfvOutputsDir :: "session \<Rightarrow> string" where
  "lfvOutputsDir s = path_join [s_sessionDir s, ''lfv_outputs'']"

definition set_ordered :: "session \<Rightarrow> pipeline \<Rightarrow> pipeline" where
  "set_ordered s p = (if s_ordered s then p\<lparr>p_Ordered := ''true''\<rparr> else p)"

definition adjust_pipeline :: "session \<Rightarrow> pipeline \<Rightarrow> pipeline" where
  "adjust_pipeline s p =
     (set_ordered s (p\<lparr>p_ID := ''lfv_'' @ s_id s @ ''_'' @ p_ID p,
                       p_Config := path_join [sutConfigDir s, p_Config p]\<rparr>))\<lparr>p_Workers := 1\<rparr>"

definition output_pipeline :: "session \<Rightarrow> string \<Rightarrow> pipeline" where
  "output_pipeline s out =
     set_ordered s (mk_pipeline (''lfv_output_'' @ out) (path_join [lfvOutputsDir s, out @ ''.conf'']) 1)"

definition output_data :: "string \<Rightarrow> (string \<times> string) list" where
  "output_data out = [(''PipelineName'', ''lfv_output_'' @ out), (''PipelineOrigName'', out)]"

definition create_output :: "session_env \<Rightarrow> session \<Rightarrow> string \<Rightarrow> pipeline list \<times> file_map
    \<Rightarrow> (pipeline list \<times> file_map) result" where
  "create_output env s out = (\<lambda>(ps, files).
     rbind (ToFile (se_io env) (path_join [lfvOutputsDir s, out @ ''.conf'']) outputPipeline
              (output_data out) files)
       (\<lambda>files. Ok (ps @ [output_pipeline s out], files)))"

definition createOutputPipelines :: "session_env \<Rightarrow> session \<Rightarrow> string list \<Rightarrow> file_map
    \<Rightarrow> (pipeline list \<times> file_map) result" where
  "createOutputPipelines env s outputs files =
     rbind (check (se_io env (lfvOutputsDir s)) ()) (\<lambda>_.
       each (create_output env s) outputs ([], files))"

text \<open>One configuration file of the loop of \<open>setupTest\<close>.\<close>

definition setup_file :: "session_env \<Rightarrow> ('cfg, 'pl, 'at) ast_lib \<Rightarrow> (nat \<Rightarrow> string) \<Rightarrow> 'cfg config_file
    \<Rightarrow> pipeline list \<times> session \<times> file_map \<times> nat \<Rightarrow> (pipeline list \<times> session \<times> file_map \<times> nat) result" where
  "setup_file env al gen f = (\<lambda>(pipelines, s, files, n).
     rbind (ReplaceInputs al gen (s_id s) f n) (\<lambda>(inputCodecs, f, n).
       (let s = s\<lparr>s_inputPluginCodecs := fold (\<lambda>(i, codec). mput i codec) inputCodecs (s_inputPluginCodecs s)\<rparr>
        in rbind (ReplaceOutputs al gen f n) (\<lambda>(outputs, f, n).
           rbind (Save (se_io env) (sutConfigDir s) f files) (\<lambda>files.
           rbind (createOutputPipelines env s outputs files) (\<lambda>(outputPipelines, files).
             Ok (pipelines @ outputPipelines, s, files, n)))))))"

text \<open>A failing \<open>SetupTest\<close> of the controller is only logged.\<close>

text \<open>
  \<open>setupTest\<close> also yields the calls of the controller's \<open>SetupTest\<close> that it has made, each with the
  pipelines asked for and the controller's error, which is only logged.
\<close>

definition setupTest :: "session_env \<Rightarrow> ('cfg, 'pl, 'at) ast_lib \<Rightarrow> (nat \<Rightarrow> string) \<Rightarrow> pipeline list
    \<Rightarrow> 'cfg config_file list \<Rightarrow> session \<times> file_map \<times> nat
    \<Rightarrow> (session \<times> file_map \<times> nat \<times> (pipeline list \<times> gerror option) list) result" where
  "setupTest env al gen pipelines configFiles = (\<lambda>(s, files, n).
     rbind (check (se_io env (s_sessionDir s)) ()) (\<lambda>_.
     rbind (each (setup_file env al gen) configFiles (map (adjust_pipeline s) pipelines, s, files, n))
       (\<lambda>(pipelines, s, files, n).
         (let s = s\<lparr>s_pipelines := pipelines\<rparr>;
              err = se_SetupTest env pipelines
          in Ok (s, files, n, [(pipelines, err)])))))"

definition inputDir :: "session \<Rightarrow> string" where
  "inputDir s = path_join [s_sessionDir s, ''lfv_inputs'', itoa (s_testexec s)]"

definition prepareFields :: "session_env \<Rightarrow> string \<Rightarrow> fields list \<Rightarrow> file_map \<Rightarrow> file_map result" where
  "prepareFields env fieldsFilename inEvents files =
     (let fields = fold (\<lambda>(i, event). mput (itoa i) event) (enumerate 0 inEvents) []
      in rbind (se_marshal env fields) (\<lambda>bfields.
           check (se_io env fieldsFilename) (mput fieldsFilename bfields files)))"

definition quote_line :: "session_env \<Rightarrow> string \<Rightarrow> string" where
  "quote_line env l = (case se_Quote env l of Some q \<Rightarrow> q | None \<Rightarrow> se_QuoteWithEscape env l)"

definition input_data :: "session_env \<Rightarrow> string \<Rightarrow> string \<Rightarrow> string list \<Rightarrow> string \<Rightarrow> (string \<times> string) list" where
  "input_data env fieldsFilename inputPluginName inputLines inputCodec =
     [(''InputPluginName'', inputPluginName),
      (''InputLines'', join '', '' (map (quote_line env) inputLines)),
      (''InputCodec'', inputCodec),
      (''FieldsFilename'', fieldsFilename),
      (''DummyEventInputIndicator'', DummyEventInputIndicator)]"

definition createInput :: "session_env \<Rightarrow> string \<Rightarrow> string \<Rightarrow> string \<Rightarrow> string list \<Rightarrow> string
    \<Rightarrow> file_map \<Rightarrow> file_map result" where
  "createInput env pipelineFilename fieldsFilename inputPluginName inputLines inputCodec files =
     ToFile (se_io env) pipelineFilename inputGenerator
       (input_data env fieldsFilename inputPluginName inputLines inputCodec) files"

definition input_codec :: "session \<Rightarrow> string \<Rightarrow> string" where
  "input_codec s inputPlugin =
     (case mget (s_inputPluginCodecs s) inputPlugin of Some c \<Rightarrow> c | None \<Rightarrow> ''codec => plain'')"

definition input_pipeline :: "session \<Rightarrow> pipeline" where
  "input_pipeline s =
     set_ordered s (mk_pipeline (''lfv_input_'' @ itoa (s_testexec s)) (path_join [inputDir s, ''input.conf'']) 1)"

text \<open>
  \<open>Ok ps\<close> when the controller was asked to execute the pipelines \<open>ps\<close> and agreed. The counter of
  the executions advances even when a step fails.
\<close>

definition ExecuteTest :: "session_env \<Rightarrow> string \<Rightarrow> string list \<Rightarrow> fields list \<Rightarrow> int
    \<Rightarrow> session \<times> file_map \<Rightarrow> (pipeline list \<times> file_map) result \<times> session" where
  "ExecuteTest env inputPlugin inputLines inEvents expectedEvents = (\<lambda>(s, files).
     (let s = s\<lparr>s_testexec := Suc (s_testexec s)\<rparr>;
          inputPluginName = ''__lfv_input_'' @ s_id s @ ''_'' @ inputPlugin;
          fieldsFilename = path_join [inputDir s, ''fields.json''];
          pipelineFilename = path_join [inputDir s, ''input.conf'']
      in (rbind (check (se_io env (inputDir s)) ()) (\<lambda>_.
          rbind (prepareFields env fieldsFilename inEvents files) (\<lambda>files.
          rbind (createInput env pipelineFilename fieldsFilename inputPluginName inputLines
                   (input_codec s inputPlugin) files) (\<lambda>files.
          (let pipelines = s_pipelines s @ [input_pipeline s]
           in check (se_ExecuteTest env pipelines expectedEvents) (pipelines, files))))), s)))"

text \<open>\<open>tdErr\<close> and \<open>rmErr\<close> are the outcomes of the controller's \<open>Teardown\<close> and of removing the directory.\<close>

definition teardown :: "gerror option \<Rightarrow> gerror option \<Rightarrow> session \<Rightarrow> gerror option" where
  "teardown tdErr rmErr s =
     (let err2 = (if s_noCleanup s then None else rmErr)
      in if tdErr \<noteq> None \<or> err2 \<noteq> None
         then Some (ErrorfErrs ''session teardown failed: %v, %v'' [tdErr, err2])
         else None)"

section \<open>The templates, expanded\<close>

text \<open>The literal parts of the templates between their actions.\<close>

definition op_0 :: string where
  \<open>op_0 = ''input {
  pipeline {
    address => ''\<close>

definition op_1 :: string where
  \<open>op_1 = ''
  }
}

filter {
  mutate {
    add_field => { "[@metadata][__lfv_out_passed]" => "''\<close>

definition op_2 :: string where
  \<open>op_2 = ''" }
  }
}

output {
  pipeline {
    send_to => __lfv_output
  }
}
''\<close>

lemma outputPipeline_parts: "outputPipeline = op_0 @ open_action @ ''PipelineName'' @ close_action @ op_1 @ open_action @ ''PipelineOrigName'' @ close_action @ op_2"
  by code_simp

lemma op_lits: "lit_ok op_0" "lit_ok op_1" "lit_ok op_2"
  by code_simp+

definition ig_0 :: string where
  \<open>ig_0 = ''
input {
  generator {
    lines => [
      ''\<close>

definition ig_1 :: string where
  \<open>ig_1 = ''
    ]
    ''\<close>

definition ig_2 :: string where
  \<open>ig_2 = ''
    count => 1
    threads => 1
  }
}

filter {
  ruby {
    id => '__lfv_ruby_count'
    init => '@count = 0'
    code => 'event.set("[@metadata][__lfv_id]", @count.to_s)
             @count += 1'
    tag_on_exception => '__lfv_ruby_count_exception'
  }

  mutate {
    # Remove fields "host", "sequence" and optionally "message", which are
    # automatically created by the generator input.
    remove_field => [ "host", "sequence" ]
  }

  translate {
    dictionary_path => "''\<close>

definition ig_3 :: string where
  \<open>ig_3 = ''"
    field => "[@metadata][__lfv_id]"
    destination => "[@metadata][__lfv_fields]"
    exact => true
    override => true
    fallback => "__lfv_fields_not_found"
    refresh_interval => 0
  }

  ruby {
    id => '__lfv_ruby_fields'
    code => 'fields = event.get("[@metadata][__lfv_fields]")
             fields.each { |key, value| event.set(key, value) } unless fields == "__lfv_fields_not_found"
             event.tag("lfv_fields_not_found") if fields == "__lfv_fields_not_found"
             event.remove("[message]") if event.get("[message]") == "''\<close>

definition ig_4 :: string where
  \<open>ig_4 = ''"'
    tag_on_exception => '__lfv_ruby_fields_exception'
  }
}

output {
  pipeline {
    send_to => [ "''\<close>

definition ig_5 :: string where
  \<open>ig_5 = ''" ]
  }
}
''\<close>

lemma inputGenerator_parts: "inputGenerator = ig_0 @ open_action @ ''InputLines'' @ close_action @ ig_1 @ open_action @ ''InputCodec'' @ close_action @ ig_2 @ open_action @ ''FieldsFilename'' @ close_action @ ig_3 @ open_action @ ''DummyEventInputIndicator'' @ close_action @ ig_4 @ open_action @ ''InputPluginName'' @ close_action @ ig_5"
  by code_simp

lemma ig_lits: "lit_ok ig_0" "lit_ok ig_1" "lit_ok ig_2" "lit_ok ig_3" "lit_ok ig_4" "lit_ok ig_5"
  by code_simp+


lemma act_PipelineName: "expand (output_data out) (open_action @ ''PipelineName'' @ close_action @ rest) =
    rbind (expand (output_data out) rest) (\<lambda>r. Ok ((''lfv_output_'' @ out) @ r))"
  by (rule expand_action) (simp_all add: output_data_def)

lemma act_PipelineOrigName: "expand (output_data out) (open_action @ ''PipelineOrigName'' @ close_action @ rest) =
    rbind (expand (output_data out) rest) (\<lambda>r. Ok (out @ r))"
  by (rule expand_action) (simp_all add: output_data_def)

lemma act_InputLines: "expand (input_data env ff name ls codec) (open_action @ ''InputLines'' @ close_action @ rest) =
    rbind (expand (input_data env ff name ls codec) rest) (\<lambda>r. Ok (join '', '' (map (quote_line env) ls) @ r))"
  by (rule expand_action) (simp_all add: input_data_def)

lemma act_InputCodec: "expand (input_data env ff name ls codec) (open_action @ ''InputCodec'' @ close_action @ rest) =
    rbind (expand (input_data env ff name ls codec) rest) (\<lambda>r. Ok (codec @ r))"
  by (rule expand_action) (simp_all add: input_data_def)

lemma act_FieldsFilename: "expand (input_data env ff name ls codec) (open_action @ ''FieldsFilename'' @ close_action @ rest) =
    rbind (expand (input_data env ff name ls codec) rest) (\<lambda>r. Ok (ff @ r))"
  by (rule expand_action) (simp_all add: input_data_def)

lemma act_DummyEventInputIndicator: "expand (input_data env ff name ls codec) (open_action @ ''DummyEventInputIndicator'' @ close_action @ rest) =
    rbind (expand (input_data env ff name ls codec) rest) (\<lambda>r. Ok (DummyEventInputIndicator @ r))"
  by (rule expand_action) (simp_all add: input_data_def)

lemma act_InputPluginName: "expand (input_data env ff name ls codec) (open_action @ ''InputPluginName'' @ close_action @ rest) =
    rbind (expand (input_data env ff name ls codec) rest) (\<lambda>r. Ok (name @ r))"
  by (rule expand_action) (simp_all add: input_data_def)

lemma expand_output:
  "expand (output_data out) outputPipeline = Ok (op_0 @ (''lfv_output_'' @ out) @ op_1 @ out @ op_2)"
proof -
  have "expand d op_2 = Ok op_2" for d using expand_lit [OF op_lits(3), of d "[]"] by simp
  then show ?thesis
    unfolding outputPipeline_parts
    by (simp only: expand_lit [OF op_lits(1)] expand_lit [OF op_lits(2)] act_PipelineName
        act_PipelineOrigName rbind.simps append_assoc)
qed

lemma expand_input:
  "expand (input_data env ff name ls codec) inputGenerator =
     Ok (ig_0 @ join '', '' (map (quote_line env) ls) @ ig_1 @ codec @ ig_2 @ ff @ ig_3 @
         DummyEventInputIndicator @ ig_4 @ name @ ig_5)"
proof -
  have "expand d ig_5 = Ok ig_5" for d using expand_lit [OF ig_lits(6), of d "[]"] by simp
  then show ?thesis
    unfolding inputGenerator_parts
    by (simp only: expand_lit [OF ig_lits(1)] expand_lit [OF ig_lits(2)] expand_lit [OF ig_lits(3)]
        expand_lit [OF ig_lits(4)] expand_lit [OF ig_lits(5)] act_InputLines act_InputCodec
        act_FieldsFilename act_DummyEventInputIndicator act_InputPluginName rbind.simps)
qed

section \<open>Setting up\<close>

text \<open>The safe ids of the outputs that a configuration file has besides pipeline outputs.\<close>

definition file_outputs :: "('cfg, 'pl, 'at) ast_lib \<Rightarrow> 'cfg config_file \<Rightarrow> string list" where
  "file_outputs al f = (case parse al f of
     Ok cfg \<Rightarrow> map (\<lambda>p. pluginIDSave (the_id al p)) (filter (\<lambda>p. \<not> is_pipeline al p) (al_plugins al Output cfg))
   | _ \<Rightarrow> [])"

definition outputs_have_ids :: "('cfg, 'pl, 'at) ast_lib \<Rightarrow> 'cfg config_file \<Rightarrow> bool" where
  "outputs_have_ids al f \<longleftrightarrow> (case parse al f of Ok cfg \<Rightarrow> has_ids al (al_plugins al Output cfg) | _ \<Rightarrow> False)"

text \<open>What of a session the pipelines depend on.\<close>

definition same_place :: "session \<Rightarrow> session \<Rightarrow> bool" where
  "same_place s t \<longleftrightarrow> s_id t = s_id s \<and> s_sessionDir t = s_sessionDir s \<and> s_ordered t = s_ordered s \<and>
     s_testexec t = s_testexec s \<and> s_logstashController t = s_logstashController s"

lemma same_place_output: "same_place s t \<Longrightarrow> output_pipeline t = output_pipeline s"
  by (simp add: same_place_def output_pipeline_def set_ordered_def lfvOutputsDir_def fun_eq_iff)

definition output_text :: "string \<Rightarrow> string" where
  "output_text out = op_0 @ (''lfv_output_'' @ out) @ op_1 @ out @ op_2"

definition output_file :: "session \<Rightarrow> string \<Rightarrow> string" where
  "output_file s out = path_join [lfvOutputsDir s, out @ ''.conf'']"

lemma create_output_Ok:
  "create_output env s out (ps, files) = Ok r \<longleftrightarrow> se_io env (output_file s out) = None \<and>
     r = (ps @ [output_pipeline s out], mput (output_file s out) (output_text out) files)"
  by (auto simp: create_output_def ToFile_Ok expand_output output_file_def output_text_def)

lemma each_outputs:
  assumes "each (create_output env s) outs (ps, files) = Ok (ps', files')"
  shows "ps' = ps @ map (output_pipeline s) outs \<and>
    files' = fold (\<lambda>out. mput (output_file s out) (output_text out)) outs files"
  using assms
proof (induction outs arbitrary: ps files)
  case (Cons out outs)
  then have "each (create_output env s) outs
      (ps @ [output_pipeline s out], mput (output_file s out) (output_text out) files) = Ok (ps', files')"
    by (simp add: create_output_Ok)
  from Cons.IH [OF this] show ?case by simp
qed simp

lemma createOutputPipelines_Ok:
  assumes "createOutputPipelines env s outs files = Ok (ps, files')"
  shows "ps = map (output_pipeline s) outs"
    "files' = fold (\<lambda>out. mput (output_file s out) (output_text out)) outs files"
  using assms each_outputs [of env s outs "[]" files ps files'] by (auto simp: createOutputPipelines_def)

lemma setup_file_Ok:
  assumes "ast_ok al" and "outputs_have_ids al f"
    and "setup_file env al gen f (ps, s, files, n) = Ok (ps', s', files', n')"
  shows "ps' = ps @ map (output_pipeline s) (file_outputs al f) \<and> same_place s s'"
proof -
  obtain cfg where cfg: "parse al f = Ok cfg" "has_ids al (al_plugins al Output cfg)"
    using assms(2) by (auto simp: outputs_have_ids_def split: result.splits)
  obtain c1 codecs n1 where 1: "apply_plugins al Input (replaceInputs al gen (s_id s)) (cfg, [], n) = (c1, codecs, n1)"
    by (metis prod_cases3)
  have same: "al_plugins al Output c1 = al_plugins al Output cfg"
    using apply_plugins_other [OF assms(1), of Output Input "replaceInputs al gen (s_id s)" "(cfg, [], n)"] 1 by simp
  have RI: "ReplaceInputs al gen (s_id s) f n = Ok (codecs, with_config al c1 f, n1)"
    using cfg(1) 1 by (simp add: ReplaceInputs_def)
  have "parse al (with_config al c1 f) = Ok c1" by (rule parse_config) simp
  then obtain f2 where RO: "ReplaceOutputs al gen (with_config al c1 f) n1 = Ok (file_outputs al f, f2, n1)"
    using walk_outputs [of al "al_plugins al Output c1" gen "[]" n1] cfg same
    by (auto simp: ReplaceOutputs_def apply_plugins_def file_outputs_def)
  let ?s = "s\<lparr>s_inputPluginCodecs := fold (\<lambda>(i, codec). mput i codec) codecs (s_inputPluginCodecs s)\<rparr>"
  have place: "same_place s ?s" by (simp add: same_place_def)
  from assms(3) RI RO obtain ops fs where
    "createOutputPipelines env ?s (file_outputs al f) fs = Ok (ops, files')" "ps' = ps @ ops" "s' = ?s"
    by (auto simp: setup_file_def Let_def)
  with createOutputPipelines_Ok(1) [OF this(1)] same_place_output [OF place] place show ?thesis by simp
qed

lemma same_place_trans: "same_place s t \<Longrightarrow> same_place t u \<Longrightarrow> same_place s u"
  by (simp add: same_place_def)

lemma setup_files_Ok:
  assumes "ast_ok al" and "\<forall>f \<in> set fs. outputs_have_ids al f"
    and "each (setup_file env al gen) fs (ps, s, files, n) = Ok (ps', s', files', n')"
  shows "ps' = ps @ map (output_pipeline s) (concat (map (file_outputs al) fs)) \<and> same_place s s'"
  using assms(2,3)
proof (induction fs arbitrary: ps s files n)
  case Nil
  then show ?case by (simp add: same_place_def)
next
  case (Cons f fs)
  then obtain q where "setup_file env al gen f (ps, s, files, n) = Ok q"
    "each (setup_file env al gen) fs q = Ok (ps', s', files', n')" by auto
  then obtain ps1 s1 files1 n1 where
    1: "setup_file env al gen f (ps, s, files, n) = Ok (ps1, s1, files1, n1)"
    and 2: "each (setup_file env al gen) fs (ps1, s1, files1, n1) = Ok (ps', s', files', n')"
    by (metis prod_cases4)
  have "ps1 = ps @ map (output_pipeline s) (file_outputs al f) \<and> same_place s s1"
    using Cons.prems(1) by (intro setup_file_Ok [OF assms(1) _ 1]) simp
  moreover have "ps' = ps1 @ map (output_pipeline s1) (concat (map (file_outputs al) fs)) \<and> same_place s1 s'"
    using Cons.prems(1) by (intro Cons.IH [OF _ 2]) simp
  ultimately show ?case
    using same_place_output [of s s1] same_place_trans [of s s1 s'] by simp
qed

lemma adjust_simps [simp]:
  "p_Workers (adjust_pipeline s p) = 1" "p_ID (adjust_pipeline s p) = ''lfv_'' @ s_id s @ ''_'' @ p_ID p"
  "s_ordered s \<Longrightarrow> p_Ordered (adjust_pipeline s p) = ''true''"
  by (simp_all add: adjust_pipeline_def set_ordered_def)

lemma output_pipeline_simps [simp]:
  "p_Workers (output_pipeline s out) = 1" "p_ID (output_pipeline s out) = output_name out"
  "p_Config (output_pipeline s out) = output_file s out"
  "s_ordered s \<Longrightarrow> p_Ordered (output_pipeline s out) = ''true''"
  by (simp_all add: output_pipeline_def set_ordered_def mk_pipeline_def output_name_def output_file_def)

section \<open>The files of a session\<close>

lemma mget_fold_files:
  assumes "inj_on f (set ks)"
  shows "k \<in> set ks \<Longrightarrow> mget (fold (\<lambda>k. mput (f k) (g k)) ks m) (f k) = Some (g k)"
proof -
  have other: "mget (fold (\<lambda>k. mput (f k) (g k)) ks m) x = mget m x" if "x \<notin> f ` set ks" for ks m x
    using that by (induction ks arbitrary: m) (auto simp: map_simps)
  show "k \<in> set ks \<Longrightarrow> ?thesis"
    using assms
  proof (induction ks arbitrary: m)
    case (Cons j ks)
    show ?case
    proof (cases "k \<in> set ks")
      case True
      with Cons show ?thesis by simp
    next
      case False
      with Cons.prems have "k = j" "f k \<notin> f ` set ks" by (auto dest: inj_onD)
      then show ?thesis by (simp add: other map_simps)
    qed
  qed simp
qed

lemma plain_conf: "CHR ''/'' \<notin> set out \<Longrightarrow> plain_elem (out @ ''.conf'')"
  by (cases out) (auto simp: plain_elem_def append_eq_Cons_conv)

lemma lfvOutputsDir_plain: "plain_dir (s_sessionDir s) \<Longrightarrow> plain_dir (lfvOutputsDir s)"
  using path_join_plain [of "s_sessionDir s" "''lfv_outputs''"]
  by (simp add: lfvOutputsDir_def plain_elem_def)

lemma output_file_eq:
  "plain_dir (s_sessionDir s) \<Longrightarrow> CHR ''/'' \<notin> set out \<Longrightarrow>
     output_file s out = lfvOutputsDir s @ CHR ''/'' # out @ ''.conf''"
  unfolding output_file_def by (rule path_join_plain(1) [OF lfvOutputsDir_plain plain_conf])

lemma file_outputs_safe: "out \<in> set (file_outputs al f) \<Longrightarrow> CHR ''/'' \<notin> set out"
  using pluginIDSave_chars by (fastforce simp: file_outputs_def is_alnum_def Let_def split: result.splits)

lemma itoa_no_slash: "CHR ''/'' \<notin> set (itoa n)" "CHR ''.'' \<notin> set (itoa n)"
  using itoa_digits [of n] by (auto simp: is_digit_def)

lemma inputDir_plain:
  assumes "plain_dir (s_sessionDir s)"
  shows "inputDir s = s_sessionDir s @ ''/lfv_inputs/'' @ itoa (s_testexec s)" "plain_dir (inputDir s)"
  using path_join3_plain [OF assms, of "''lfv_inputs''" "itoa (s_testexec s)"] plain_itoa
  by (simp_all add: inputDir_def plain_elem_def)

lemma mget_enumerate:
  "mget (fold (\<lambda>(i, e). mput (itoa i) e) (enumerate k es) m) (itoa j) =
     (if k \<le> j \<and> j < k + length es then Some (es ! (j - k)) else mget m (itoa j))"
proof (induction es arbitrary: k m)
  case (Cons e es)
  then show ?case by (auto simp: map_simps nth_Cons')
qed auto

section \<open>An environment in which nothing fails\<close>

definition calm_session_env :: session_env where
  "calm_session_env = \<lparr>se_io = (\<lambda>_. None), se_marshal = (\<lambda>_. Ok ''{}''), se_Quote = Some,
     se_QuoteWithEscape = (\<lambda>l. l), se_SetupTest = (\<lambda>_. None), se_ExecuteTest = (\<lambda>_ _. None)\<rparr>"

lemma calm_session_simps [simp]: "se_io calm_session_env f = None" "se_Quote calm_session_env l = Some l"
  "se_marshal calm_session_env m = Ok ''{}''" "se_SetupTest calm_session_env ps = None"
  "se_ExecuteTest calm_session_env ps n = None"
  by (simp_all add: calm_session_env_def)

lemma create_outputs_total:
  assumes "\<And>f. se_io env f = None"
  shows "\<exists>r. createOutputPipelines env s outs files = Ok r"
proof -
  have "\<exists>r. each (create_output env s) outs (ps, files) = Ok r" for ps files
    using assms by (induction outs arbitrary: ps files) (simp_all add: create_output_Ok)
  then show ?thesis using assms by (simp add: createOutputPipelines_def)
qed

lemma setup_file_total:
  assumes "\<And>f. se_io env f = None" and "parse al f = Ok cfg"
  shows "\<exists>r. setup_file env al gen f (ps, s, files, n) = Ok r"
proof -
  obtain c1 codecs n1 where 1: "apply_plugins al Input (replaceInputs al gen (s_id s)) (cfg, [], n) = (c1, codecs, n1)"
    by (metis prod_cases3)
  obtain c2 outs n2 where 2: "apply_plugins al Output (replaceOutput al gen) (c1, [], n1) = (c2, outs, n2)"
    by (metis prod_cases3)
  let ?s = "s\<lparr>s_inputPluginCodecs := fold (\<lambda>(i, codec). mput i codec) codecs (s_inputPluginCodecs s)\<rparr>"
  obtain fs where "Save (se_io env) (sutConfigDir ?s) (with_config al c2 (with_config al c1 f)) files = Ok fs"
    using assms(1) by (simp add: Save_def Let_def)
  moreover obtain r where "createOutputPipelines env ?s outs fs = Ok r"
    using create_outputs_total [OF assms(1)] by blast
  moreover have "parse al (with_config al c1 f) = Ok c1" by (rule parse_config) simp
  ultimately show ?thesis using assms(2) 1 2
    by (cases r) (simp add: setup_file_def ReplaceInputs_def ReplaceOutputs_def Let_def)
qed

lemma setupTest_total:
  assumes "\<And>f. se_io env f = None" and "\<forall>f \<in> set fs. is_ok (parse al f)"
  shows "\<exists>s' files' n' calls. setupTest env al gen ps fs (s, files, n) = Ok (s', files', n', calls)"
proof -
  have "\<exists>r. each (setup_file env al gen) fs q = Ok r" for q
    using assms(2)
  proof (induction fs arbitrary: q)
    case (Cons f fs)
    then obtain cfg where cfg: "parse al f = Ok cfg" by (auto simp: is_ok_iff)
    obtain qs t fi k where q: "q = (qs, t, fi, k)" by (rule prod_cases4)
    obtain r where "setup_file env al gen f q = Ok r"
      using setup_file_total [OF assms(1) cfg] unfolding q by blast
    with Cons show ?case by simp
  next
    case Nil
    show ?case by (rule exI [of _ q]) simp
  qed
  then obtain qs t files' n' where
    "each (setup_file env al gen) fs (map (adjust_pipeline s) ps, s, files, n) = Ok (qs, t, files', n')"
    by (metis prod_cases4)
  with assms(1) show ?thesis by (simp add: setupTest_def Let_def)
qed

section \<open>Properties\<close>



text \<open>
  The output pipelines. The file of each created output pipeline receives from the address
  that the rewritten output plugin sends to, and marks the events with the plugin's id; for a
  session with a plain directory, no two different outputs share a file.
\<close>

theorem output_pipelines_receive:
  assumes "plain_dir (s_sessionDir s)" and "\<forall>out \<in> set outs. CHR ''/'' \<notin> set out"
    and "createOutputPipelines env s outs files = Ok (ps, files')"
  shows "map p_ID ps = map output_name outs \<and>
    (\<forall>out \<in> set outs. mget files' (p_Config (output_pipeline s out)) =
      Some (op_0 @ output_name out @ op_1 @ out @ op_2)) \<and>
    inj_on (\<lambda>out. p_Config (output_pipeline s out)) (set outs)"
proof -
  note created = createOutputPipelines_Ok [OF assms(3)]
  have inj: "inj_on (output_file s) (set outs)"
    using output_file_eq [OF assms(1)] assms(2) by (auto simp: inj_on_def)
  have ot: "output_text out = op_0 @ output_name out @ op_1 @ out @ op_2" for out
    by (simp add: output_text_def output_name_def)
  have "mget files' (output_file s out) = Some (output_text out)" if "out \<in> set outs" for out
    unfolding created(2) by (rule mget_fold_files [OF inj that])
  with inj created(1) ot show ?thesis by (simp add: comp_def)
qed

theorem output_pipelines_receive_witness:
  "\<exists>ps files'. createOutputPipelines calm_session_env (newSession ''/tmp'' (Some 0) False True ''s1'')
      [''a'', ''b''] [] = Ok (ps, files') \<and> map p_ID ps = [''lfv_output_a'', ''lfv_output_b'']"
  (is "\<exists>ps files'. createOutputPipelines _ ?s _ _ = _ \<and> _")
proof -
  obtain ps files' where r: "createOutputPipelines calm_session_env ?s [''a'', ''b''] [] = Ok (ps, files')"
    using create_outputs_total [of calm_session_env] by fastforce
  have "s_sessionDir ?s = CHR ''/'' # join ''/'' [''tmp'', ''session'', ''s1'']"
    by (simp add: newSession_def)
  then have "plain_dir (s_sessionDir ?s)"
    unfolding plain_dir_def by (intro exI [of _ "[''tmp'', ''session'', ''s1'']"]) (simp add: plain_elem_def)
  from output_pipelines_receive [OF this _ r] r show ?thesis by (simp add: output_name_def)
qed

text \<open>
  C32: the execution of a test. A successful \<open>ExecuteTest\<close> asks Logstash to run the session's
  pipelines and one new input pipeline, numbered by the execution; its file generates the quoted
  input lines with the codec of the tested input (a plain one for an input without codec) and
  sends them to the address that the rewritten input plugin receives from; and the file of
  fields holds the encoding of a map from the number of each event to its fields.
\<close>

theorem execute_test_correct:
  assumes "plain_dir (s_sessionDir s)"
    and "ExecuteTest env inputPlugin ls inEvents expected (s, files) = (Ok (ps, files'), s')"
  shows "s' = s\<lparr>s_testexec := Suc (s_testexec s)\<rparr> \<and>
    ps = s_pipelines s @ [input_pipeline s'] \<and>
    p_ID (input_pipeline s') = ''lfv_input_'' @ itoa (Suc (s_testexec s)) \<and>
    mget files' (p_Config (input_pipeline s')) =
      Some (ig_0 @ join '', '' (map (quote_line env) ls) @ ig_1 @ input_codec s inputPlugin @ ig_2 @
        path_join [inputDir s', ''fields.json''] @ ig_3 @ DummyEventInputIndicator @ ig_4 @
        input_address (s_id s) inputPlugin @ ig_5) \<and>
    (\<exists>m b. se_marshal env m = Ok b \<and> mget files' (path_join [inputDir s', ''fields.json'']) = Some b \<and>
      (\<forall>i. mget m (itoa i) = (if i < length inEvents then Some (inEvents ! i) else None)))"
proof -
  let ?s = "s\<lparr>s_testexec := Suc (s_testexec s)\<rparr>"
  let ?m = "fold (\<lambda>(i, event). mput (itoa i) event) (enumerate 0 inEvents) []"
  let ?ff = "path_join [inputDir ?s, ''fields.json'']" and ?pf = "path_join [inputDir ?s, ''input.conf'']"
  obtain b where b: "se_marshal env ?m = Ok b"
    and eqs: "s' = ?s" "ps = s_pipelines s @ [input_pipeline ?s]"
    and files': "files' = mput ?pf (ig_0 @ join '', '' (map (quote_line env) ls) @ ig_1 @
        input_codec ?s inputPlugin @ ig_2 @ ?ff @ ig_3 @ DummyEventInputIndicator @ ig_4 @
        (''__lfv_input_'' @ s_id s @ ''_'' @ inputPlugin) @ ig_5) (mput ?ff b files)"
    using assms(2)
    by (auto simp: ExecuteTest_def prepareFields_def createInput_def ToFile_Ok expand_input Let_def)
  have "plain_dir (s_sessionDir ?s)" using assms(1) by simp
  from inputDir_plain(2) [OF this] have "?ff \<noteq> ?pf"
    using path_join_plain(1) [of "inputDir ?s" "''fields.json''"]
      path_join_plain(1) [of "inputDir ?s" "''input.conf''"] by (simp add: plain_elem_def)
  moreover have "p_Config (input_pipeline ?s) = ?pf" "p_ID (input_pipeline ?s) = ''lfv_input_'' @ itoa (Suc (s_testexec s))"
    by (simp_all add: input_pipeline_def set_ordered_def mk_pipeline_def)
  moreover have "input_address (s_id s) inputPlugin = ''__lfv_input_'' @ s_id s @ ''_'' @ inputPlugin"
    by (simp add: input_address_def)
  moreover have "input_codec ?s inputPlugin = input_codec s inputPlugin" by (simp add: input_codec_def)
  moreover have "mget ?m (itoa i) = (if i < length inEvents then Some (inEvents ! i) else None)" for i
    using mget_enumerate [of 0 inEvents "[]" i] by simp
  ultimately show ?thesis using eqs b unfolding files' by (auto simp: map_simps)
qed

theorem execute_test_correct_witness:
  "\<exists>ps files' s'. ExecuteTest calm_session_env ''in'' [''a line''] [[]] 1
      (newSession ''/tmp'' (Some 0) False True ''s1'', []) = (Ok (ps, files'), s') \<and>
    s_testexec s' = 1 \<and> ps = [input_pipeline s']"
  (is "\<exists>ps files' s'. ExecuteTest _ _ _ _ _ (?s, []) = _ \<and> _")
proof -
  obtain ps files' s' where r: "ExecuteTest calm_session_env ''in'' [''a line''] [[]] 1 (?s, []) = (Ok (ps, files'), s')"
    by (simp add: ExecuteTest_def prepareFields_def createInput_def ToFile_def expand_input Let_def)
  have "s_sessionDir ?s = CHR ''/'' # join ''/'' [''tmp'', ''session'', ''s1'']"
    by (simp add: newSession_def)
  then have d: "plain_dir (s_sessionDir ?s)"
    unfolding plain_dir_def by (intro exI [of _ "[''tmp'', ''session'', ''s1'']"]) (simp add: plain_elem_def)
  have "s' = ?s\<lparr>s_testexec := Suc (s_testexec ?s)\<rparr> \<and> ps = s_pipelines ?s @ [input_pipeline s']"
    using execute_test_correct [OF d r] by (elim conjE) (intro conjI)
  then have "s_testexec s' = 1 \<and> ps = [input_pipeline s']" by (simp add: newSession_def)
  with r show ?thesis by (intro exI conjI) auto
qed

end
