(* ===== verification/Session_Pool.thy ===== *)
theory Session_Pool
  imports Prelude
begin

text \<open>
  The interface through which the session controller uses the pool,
  \<open>internal/daemon/session/pool.go\<close>: \<open>Get\<close> leases a Logstash controller, \<open>Return\<close> ends the
  lease, and \<open>upkeep\<close> is what the pool does on its own in between. The contract: a lease is of
  a controller that was free or is new, and nothing but its return makes it free again.
\<close>

locale lease_pool =
  fixes get :: "'e \<Rightarrow> 's \<Rightarrow> 'h result \<times> 's"
    and ret :: "'h \<Rightarrow> bool \<Rightarrow> 's \<Rightarrow> 's"
    and upkeep :: "'e \<Rightarrow> 's \<Rightarrow> 's result"
    and inv :: "'s \<Rightarrow> bool"
    and free :: "'s \<Rightarrow> 'h set"
    and known :: "'s \<Rightarrow> 'h set"
  assumes get_inv: "inv s \<Longrightarrow> get e s = (r, s') \<Longrightarrow> inv s'"
    and get_free: "inv s \<Longrightarrow> get e s = (r, s') \<Longrightarrow> free s' \<subseteq> free s"
    and get_known: "inv s \<Longrightarrow> get e s = (r, s') \<Longrightarrow> known s \<subseteq> known s'"
    and get_Ok: "inv s \<Longrightarrow> get e s = (Ok h, s') \<Longrightarrow> (h \<in> free s \<or> h \<notin> known s) \<and> h \<notin> free s' \<and> h \<in> known s'"
    and ret_inv: "inv s \<Longrightarrow> inv (ret h clean s)"
    and ret_free: "inv s \<Longrightarrow> free (ret h clean s) \<subseteq> insert h (free s)"
    and ret_known: "inv s \<Longrightarrow> known (ret h clean s) = known s"
    and upkeep_inv: "inv s \<Longrightarrow> upkeep e s = Ok s' \<Longrightarrow> inv s'"
    and upkeep_free: "inv s \<Longrightarrow> upkeep e s = Ok s' \<Longrightarrow> free s' \<subseteq> free s \<union> (known s' - known s)"
    and upkeep_known: "inv s \<Longrightarrow> upkeep e s = Ok s' \<Longrightarrow> known s \<subseteq> known s'"
begin

text \<open>The leases that are out: each is held once, and none of them can be handed out again.\<close>

definition leases_ok :: "'h list \<Rightarrow> 's \<Rightarrow> bool" where
  "leases_ok ls s \<longleftrightarrow> inv s \<and> distinct ls \<and> set ls \<subseteq> known s \<and> set ls \<inter> free s = {}"

lemma leases_get:
  "leases_ok ls s \<Longrightarrow> get e s = (Ok h, s') \<Longrightarrow> leases_ok (h # ls) s'"
  using get_inv get_free get_known get_Ok unfolding leases_ok_def by fastforce

lemma leases_get_failed:
  "leases_ok ls s \<Longrightarrow> get e s = (r, s') \<Longrightarrow> leases_ok ls s'"
  using get_inv get_free get_known unfolding leases_ok_def by blast

lemma leases_ret:
  assumes "leases_ok ls s" and "h \<in> set ls"
  shows "leases_ok (remove1 h ls) (ret h clean s)"
proof -
  have "set (remove1 h ls) = set ls - {h}" using assms by (simp add: leases_ok_def)
  then show ?thesis using assms ret_inv ret_free ret_known unfolding leases_ok_def by fastforce
qed

lemma leases_upkeep:
  "leases_ok ls s \<Longrightarrow> upkeep e s = Ok s' \<Longrightarrow> leases_ok ls s'"
  using upkeep_inv upkeep_free upkeep_known unfolding leases_ok_def by blast

lemma leases_perm: "mset ls = mset ls' \<Longrightarrow> leases_ok ls s \<longleftrightarrow> leases_ok ls' s"
  unfolding leases_ok_def by (metis mset_eq_imp_distinct_iff set_mset_mset)

end

end
