(* ===== verification/Controller_Pool.thy ===== *)
theory Controller_Pool
  imports Session_Pool
begin

text \<open>
  The pool of Logstash controllers, \<open>internal/daemon/pool/pool.go\<close>. A controller is known by
  the number of the factory call that made it; \<open>None\<close> is the nil interface. Every operation
  holds the pool's mutex, so it is one atomic step. \<open>p_made\<close> counts the controllers made and
  \<open>p_killed\<close> lists those on which the pool has called \<open>Kill\<close>; the code has no such fields.
\<close>

record pool =
  p_max :: int
  p_available :: "nat option list"
  p_assigned :: "nat option list"
  p_made :: nat
  p_killed :: "nat list"

text \<open>What an operation finds: the controllers' health, and the outcome of a factory call.\<close>

record pool_env =
  e_healthy :: "nat \<Rightarrow> bool"
  e_factory :: "gerror option"

section \<open>The operations\<close>

definition new_pool :: "pool_env \<Rightarrow> int \<Rightarrow> pool result" where
  "new_pool e maxControllers =
     (let maxControllers = (if maxControllers < 1 then 1 else maxControllers)
      in check (e_factory e)
        \<lparr>p_max = maxControllers, p_available = [Some 0], p_assigned = [], p_made = 1, p_killed = []\<rparr>)"

text \<open>
  The loop over one of the lists that kills and removes the unhealthy controllers, entered at
  index \<open>i\<close>. The removed element is replaced by the last one, and the index is looked at again.
\<close>

function sweep :: "(nat \<Rightarrow> bool) \<Rightarrow> nat \<Rightarrow> nat option list \<Rightarrow> nat list \<Rightarrow> (nat option list \<times> nat list) result" where
  "sweep healthy i xs killed =
     (if i < length xs
      then (case xs ! i of
              None \<Rightarrow> Panic
            | Some c \<Rightarrow>
                if healthy c then sweep healthy (Suc i) xs killed
                else sweep healthy i (swap_remove i xs) (killed @ [c]))
      else Ok (xs, killed))"
  by pat_completeness auto

termination by (relation "measure (\<lambda>(h, i, xs, k). length xs - i)") auto

declare sweep.simps [simp del]

definition housekeeping :: "pool_env \<Rightarrow> pool \<Rightarrow> pool result" where
  "housekeeping e p =
     rbind (sweep (e_healthy e) 0 (p_available p) (p_killed p)) (\<lambda>(available, killed).
     rbind (sweep (e_healthy e) 0 (p_assigned p) killed) (\<lambda>(assigned, killed).
       (let p = p\<lparr>p_available := available, p_assigned := assigned, p_killed := killed\<rparr>
        in if length available + length assigned = 0
           then (case e_factory e of
                   None \<Rightarrow> Ok (p\<lparr>p_available := available @ [Some (p_made p)], p_made := Suc (p_made p)\<rparr>)
                 | Some err \<Rightarrow> Ok (p\<lparr>p_available := available @ [None]\<rparr>))
           else Ok p)))"

definition Get :: "pool_env \<Rightarrow> pool \<Rightarrow> nat option result \<times> pool" where
  "Get e p =
     (case sweep (e_healthy e) 0 (p_available p) (p_killed p) of
        Panic \<Rightarrow> (Panic, p)
      | Err err \<Rightarrow> (Err err, p)
      | Ok (available, killed) \<Rightarrow>
          (let p = p\<lparr>p_available := available, p_killed := killed\<rparr>
           in if 0 < length available
              then (Ok (hd available),
                    p\<lparr>p_available := tl available, p_assigned := p_assigned p @ [hd available]\<rparr>)
              else if int (length (p_assigned p)) < p_max p
              then (case e_factory e of
                      Some err \<Rightarrow> (Err err, p)
                    | None \<Rightarrow> (Ok (Some (p_made p)),
                        p\<lparr>p_assigned := p_assigned p @ [Some (p_made p)], p_made := Suc (p_made p)\<rparr>))
              else (Err (Errorf ''no instance available from pool'' []), p)))"

fun find_index :: "'a \<Rightarrow> 'a list \<Rightarrow> nat option" where
  "find_index x [] = None"
| "find_index x (y # ys) = (if y = x then Some 0 else map_option Suc (find_index x ys))"

definition Return :: "nat option \<Rightarrow> bool \<Rightarrow> pool \<Rightarrow> pool" where
  "Return instance_c clean p =
     (case find_index instance_c (p_assigned p) of
        Some i \<Rightarrow>
          (let p = p\<lparr>p_assigned := swap_remove i (p_assigned p)\<rparr>
           in if clean then p\<lparr>p_available := p_available p @ [instance_c]\<rparr> else p)
      | None \<Rightarrow> p)"

section \<open>The sweep\<close>

definition sweep_result :: "(nat \<Rightarrow> bool) \<Rightarrow> nat \<Rightarrow> nat option list \<Rightarrow> nat option list \<Rightarrow> nat list \<Rightarrow> bool" where
  "sweep_result healthy i xs ys gone \<longleftrightarrow> take i ys = take i xs \<and> i \<le> length ys \<and>
     mset (drop i ys) = filter_mset (\<lambda>x. healthy (the x)) (mset (drop i xs)) \<and>
     image_mset Some (mset gone) = filter_mset (\<lambda>x. \<not> healthy (the x)) (mset (drop i xs))"

lemma sweep_result_keep:
  assumes "i < length xs" and "xs ! i = Some c" and "healthy c"
    and "sweep_result healthy (Suc i) xs ys gone"
  shows "sweep_result healthy i xs ys gone"
proof -
  from assms(4) have ys: "take (Suc i) ys = take (Suc i) xs" "i < length ys"
    by (simp_all add: sweep_result_def)
  then have "ys ! i = xs ! i" by (metis lessI nth_take)
  moreover have "drop i zs = zs ! i # drop (Suc i) zs" if "i < length zs" for zs :: "nat option list"
    using that by (simp add: Cons_nth_drop_Suc)
  moreover have "take i ys = take i xs" using arg_cong [OF ys(1), of "take i"] by (simp add: min_def)
  ultimately show ?thesis using assms ys(2) by (simp add: sweep_result_def)
qed

lemma sweep_result_remove:
  assumes "i < length xs" and "xs ! i = Some c" and "\<not> healthy c"
    and "sweep_result healthy i (swap_remove i xs) ys gone"
  shows "sweep_result healthy i xs ys (c # gone)"
proof -
  have "drop i xs = Some c # drop (Suc i) xs" using assms(1,2) by (metis Cons_nth_drop_Suc)
  then show ?thesis
    using assms(3,4) take_swap_remove [OF assms(1)] by (simp add: sweep_result_def drop_swap_remove [OF assms(1)])
qed

lemma sweep_spec:
  assumes "i \<le> length xs" and "None \<notin> set (drop i xs)"
  shows "\<exists>ys gone. sweep healthy i xs killed = Ok (ys, killed @ gone) \<and> sweep_result healthy i xs ys gone"
  using assms
proof (induction healthy i xs killed rule: sweep.induct)
  case (1 healthy i xs killed)
  show ?case
  proof (cases "i < length xs")
    case False
    with "1.prems" show ?thesis by (subst sweep.simps) (auto simp: sweep_result_def)
  next
    case True
    then have d: "drop i xs = xs ! i # drop (Suc i) xs" by (simp add: Cons_nth_drop_Suc)
    with "1.prems"(2) obtain c where c: "xs ! i = Some c" by (cases "xs ! i") auto
    show ?thesis
    proof (cases "healthy c")
      case h: True
      have "None \<notin> set (drop (Suc i) xs)" using "1.prems"(2) d by auto
      with "1.IH"(1) [OF True c h] True show ?thesis
        by (subst sweep.simps) (auto simp: c h intro: sweep_result_keep [where healthy = healthy, OF True c h])
    next
      case u: False
      have "set (drop i (swap_remove i xs)) = set (drop (Suc i) xs)"
        by (rule mset_eq_setD [OF drop_swap_remove [OF True]])
      then have "None \<notin> set (drop i (swap_remove i xs))" using "1.prems"(2) d by simp
      moreover have "i \<le> length (swap_remove i xs)" using True by simp
      ultimately obtain ys gone where
        ys: "sweep healthy i (swap_remove i xs) (killed @ [c]) = Ok (ys, (killed @ [c]) @ gone)"
          "sweep_result healthy i (swap_remove i xs) ys gone" using "1.IH"(2) [OF True c u] by blast
      then show ?thesis
        using True c u sweep_result_remove [OF True c u ys(2)]
        by (intro exI [of _ ys] exI [of _ "c # gone"]) (subst sweep.simps, simp)
    qed
  qed
qed

lemma sweep_all:
  assumes "None \<notin> set xs"
  obtains ys gone where "sweep healthy 0 xs killed = Ok (ys, killed @ gone)"
    "mset ys = filter_mset (\<lambda>x. healthy (the x)) (mset xs)"
    "image_mset Some (mset gone) = filter_mset (\<lambda>x. \<not> healthy (the x)) (mset xs)"
  using sweep_spec [of 0 xs healthy killed] assms by (auto simp: sweep_result_def)

lemma sweep_nil:
  "None \<in> set (drop i xs) \<Longrightarrow> sweep healthy i xs killed = Panic"
proof (induction healthy i xs killed rule: sweep.induct)
  case (1 healthy i xs killed)
  then have i: "i < length xs" by (cases "i < length xs") auto
  then have d: "drop i xs = xs ! i # drop (Suc i) xs" by (simp add: Cons_nth_drop_Suc)
  show ?case
  proof (cases "xs ! i")
    case None
    with i show ?thesis by (subst sweep.simps) simp
  next
    case (Some c)
    with d "1.prems" have rest: "None \<in> set (drop (Suc i) xs)" by auto
    then have "None \<in> set (drop i (swap_remove i xs))"
      using drop_swap_remove [OF i] by (metis set_mset_mset)
    with rest Some i "1.IH" show ?thesis by (subst sweep.simps) auto
  qed
qed

lemma sweep_set:
  assumes "sweep healthy i xs killed = Ok (ys, killed')" and "i \<le> length xs"
  shows "mset ys \<subseteq># mset xs"
  using assms
proof (induction healthy i xs killed rule: sweep.induct)
  case (1 healthy i xs killed)
  show ?case
  proof (cases "i < length xs")
    case False
    with "1.prems" show ?thesis by (subst (asm) sweep.simps) simp
  next
    case True
    have sub: "mset (swap_remove i xs) \<subseteq># mset xs"
      using mset_swap_remove [OF True] by (metis add_mset_add_single mset_subset_eq_add_left)
    show ?thesis
    proof (cases "xs ! i")
      case None
      with "1.prems"(1) True show ?thesis by (subst (asm) sweep.simps) simp
    next
      case (Some c)
      show ?thesis
      proof (cases "healthy c")
        case h: True
        with "1.prems"(1) True Some have "sweep healthy (Suc i) xs killed = Ok (ys, killed')"
          by (subst (asm) sweep.simps) simp
        with "1.IH"(1) [OF True Some h] True show ?thesis by simp
      next
        case u: False
        with "1.prems"(1) True Some have "sweep healthy i (swap_remove i xs) (killed @ [c]) = Ok (ys, killed')"
          by (subst (asm) sweep.simps) simp
        moreover have "i \<le> length (swap_remove i xs)" using True by simp
        ultimately have "mset ys \<subseteq># mset (swap_remove i xs)" by (rule "1.IH"(2) [OF True Some u])
        with sub show ?thesis using subset_mset.order_trans by blast
      qed
    qed
  qed
qed

lemma sweep_not_Err: "sweep healthy i xs killed \<noteq> Err e"
proof (induction healthy i xs killed rule: sweep.induct)
  case (1 healthy i xs killed)
  then show ?case by (subst sweep.simps) (auto split: option.splits)
qed

lemma find_index_Some:
  "find_index x xs = Some i \<Longrightarrow> i < length xs \<and> xs ! i = x"
  by (induction xs arbitrary: i) (auto split: if_splits)

lemma find_index_None: "find_index x xs = None \<longleftrightarrow> x \<notin> set xs"
  by (induction xs) auto

section \<open>Sequences of operations\<close>

datatype pool_op = Op_Get pool_env | Op_Return "nat option" bool | Op_Housekeeping pool_env

fun pool_step :: "pool_op \<Rightarrow> pool \<Rightarrow> pool result" where
  "pool_step (Op_Get e) p = (case Get e p of (Panic, _) \<Rightarrow> Panic | (_, p') \<Rightarrow> Ok p')"
| "pool_step (Op_Return c clean) p = Ok (Return c clean p)"
| "pool_step (Op_Housekeeping e) p = housekeeping e p"

definition pool_run :: "pool_op list \<Rightarrow> pool \<Rightarrow> pool result" where
  "pool_run ops p = each pool_step ops p"

text \<open>The controllers of the pool are distinct, were made by the factory and have not been killed.\<close>

definition pool_inv :: "pool \<Rightarrow> bool" where
  "pool_inv p \<longleftrightarrow> distinct (p_available p @ p_assigned p) \<and>
     (\<forall>c. Some c \<in> set (p_available p @ p_assigned p) \<longrightarrow> c < p_made p \<and> c \<notin> set (p_killed p)) \<and>
     (\<forall>c \<in> set (p_killed p). c < p_made p)"

definition pool_bounded :: "pool \<Rightarrow> bool" where
  "pool_bounded p \<longleftrightarrow> 1 \<le> p_max p \<and> int (length (p_available p @ p_assigned p)) \<le> p_max p"

definition no_nil :: "pool \<Rightarrow> bool" where
  "no_nil p \<longleftrightarrow> None \<notin> set (p_available p @ p_assigned p)"

definition factory_ok :: "pool_op \<Rightarrow> bool" where
  "factory_ok op = (case op of Op_Housekeeping e \<Rightarrow> e_factory e = None | _ \<Rightarrow> True)"

lemma distinct_count_le: "distinct xs \<longleftrightarrow> (\<forall>a. count (mset xs) a \<le> 1)"
proof -
  have "count (mset xs) a = (if a \<in> set xs then 1 else 0) \<longleftrightarrow> count (mset xs) a \<le> 1" for a
  proof (cases "a \<in> set xs")
    case True
    then have "0 < count (mset xs) a" by simp
    then show ?thesis unfolding if_P [OF True] by linarith
  next
    case False
    then have "count (mset xs) a = 0" by (simp only: count_mset_0_iff simp_thms)
    then show ?thesis unfolding if_not_P [OF False] by linarith
  qed
  then show ?thesis by (simp add: distinct_count_atmost_1)
qed

lemma distinct_sub: "mset ys \<subseteq># mset xs \<Longrightarrow> distinct xs \<Longrightarrow> distinct ys"
  unfolding distinct_count_le by (meson le_trans mset_subset_eq_count)

text \<open>What both uses of the sweep need: the swept pool still satisfies the invariant.\<close>

lemma sweep_Ok_not_nil:
  assumes "sweep healthy 0 xs killed = Ok (ys, killed')"
  shows "None \<notin> set xs"
  using sweep_nil [of 0 xs healthy killed] assms by auto

lemma sweep_Ok:
  assumes "sweep healthy 0 xs killed = Ok (ys, killed')"
  shows "mset ys \<subseteq># mset xs" "\<exists>gone. killed' = killed @ gone \<and> set ys = {x \<in> set xs. healthy (the x)} \<and>
    Some ` set gone = {x \<in> set xs. \<not> healthy (the x)}" "length ys \<le> length xs"
proof -
  obtain ys' gone where s: "sweep healthy 0 xs killed = Ok (ys', killed @ gone)"
    "mset ys' = filter_mset (\<lambda>x. healthy (the x)) (mset xs)"
    "image_mset Some (mset gone) = filter_mset (\<lambda>x. \<not> healthy (the x)) (mset xs)"
    by (rule sweep_all [OF sweep_Ok_not_nil [OF assms]])
  with assms have eq: "ys = ys'" "killed' = killed @ gone" by simp_all
  from s(2) eq(1) show sub: "mset ys \<subseteq># mset xs" by simp
  then show "length ys \<le> length xs" using size_mset_mono by fastforce
  have "set ys = {x \<in> set xs. healthy (the x)}"
    using arg_cong [OF s(2), of set_mset] eq(1) by auto
  moreover have "Some ` set gone = {x \<in> set xs. \<not> healthy (the x)}"
    using arg_cong [OF s(3), of set_mset] by auto
  ultimately show "\<exists>gone. killed' = killed @ gone \<and> set ys = {x \<in> set xs. healthy (the x)} \<and>
    Some ` set gone = {x \<in> set xs. \<not> healthy (the x)}" using eq(2) by blast
qed

lemma sweep_available_inv:
  assumes "sweep healthy 0 (p_available p) (p_killed p) = Ok (ys, killed)" and "pool_inv p"
  shows "pool_inv (p\<lparr>p_available := ys, p_killed := killed\<rparr>)"
proof -
  obtain gone where g: "killed = p_killed p @ gone" "set ys = {x \<in> set (p_available p). healthy (the x)}"
    "Some ` set gone = {x \<in> set (p_available p). \<not> healthy (the x)}" using sweep_Ok(2) [OF assms(1)] by blast
  have "mset (ys @ p_assigned p) \<subseteq># mset (p_available p @ p_assigned p)"
    using sweep_Ok(1) [OF assms(1)] by simp
  then have "distinct (ys @ p_assigned p)" using assms(2) distinct_sub unfolding pool_inv_def by blast
  moreover have gone: "Some c \<in> set (p_available p) \<and> \<not> healthy c" if "c \<in> set gone" for c
    using g(3) that by force
  moreover have "set (p_available p) \<inter> set (p_assigned p) = {}" using assms(2) by (simp add: pool_inv_def)
  ultimately show ?thesis using assms(2) g(1,2) by (fastforce simp: pool_inv_def)
qed

lemma pool_inv_swap: "pool_inv (p\<lparr>p_available := p_assigned p, p_assigned := p_available p\<rparr>) \<longleftrightarrow> pool_inv p"
  by (auto simp: pool_inv_def)

lemma sweep_assigned_inv:
  assumes "sweep healthy 0 (p_assigned p) (p_killed p) = Ok (ys, killed)" and "pool_inv p"
  shows "pool_inv (p\<lparr>p_assigned := ys, p_killed := killed\<rparr>)"
proof -
  let ?q = "p\<lparr>p_available := p_assigned p, p_assigned := p_available p\<rparr>"
  have "pool_inv (?q\<lparr>p_available := ys, p_killed := killed\<rparr>)"
    using assms pool_inv_swap by (intro sweep_available_inv) auto
  then show ?thesis by (auto simp: pool_inv_def)
qed

lemma Get_cases:
  assumes "Get e p = (r, p')"
  obtains (panic) "r = Panic" "p' = p" "None \<in> set (p_available p)"
  | (available) c cs killed where "sweep (e_healthy e) 0 (p_available p) (p_killed p) = Ok (c # cs, killed)"
      "r = Ok c" "p' = p\<lparr>p_killed := killed, p_available := cs, p_assigned := p_assigned p @ [c]\<rparr>"
  | (made) killed where "sweep (e_healthy e) 0 (p_available p) (p_killed p) = Ok ([], killed)"
      "int (length (p_assigned p)) < p_max p" "e_factory e = None" "r = Ok (Some (p_made p))"
      "p' = p\<lparr>p_available := [], p_killed := killed, p_assigned := p_assigned p @ [Some (p_made p)],
         p_made := Suc (p_made p)\<rparr>"
  | (failed) killed err where "sweep (e_healthy e) 0 (p_available p) (p_killed p) = Ok ([], killed)"
      "int (length (p_assigned p)) < p_max p" "e_factory e = Some err" "r = Err err"
      "p' = p\<lparr>p_available := [], p_killed := killed\<rparr>"
  | (exhausted) killed where "sweep (e_healthy e) 0 (p_available p) (p_killed p) = Ok ([], killed)"
      "\<not> int (length (p_assigned p)) < p_max p"
      "r = Err (Errorf ''no instance available from pool'' [])"
      "p' = p\<lparr>p_available := [], p_killed := killed\<rparr>"
proof (cases "None \<in> set (p_available p)")
  case True
  with sweep_nil [of 0] have "sweep (e_healthy e) 0 (p_available p) (p_killed p) = Panic" by simp
  with assms True panic show thesis by (simp add: Get_def)
next
  case False
  then obtain ys gone where s: "sweep (e_healthy e) 0 (p_available p) (p_killed p) = Ok (ys, p_killed p @ gone)"
    by (rule sweep_all)
  show thesis
  proof (cases ys)
    case (Cons c cs)
    with assms s available show thesis by (simp add: Get_def Let_def)
  next
    case Nil
    with assms s made failed exhausted show thesis
      by (cases "e_factory e") (auto simp: Get_def Let_def split: if_splits)
  qed
qed

lemma pool_inv_move:
  assumes "pool_inv (p\<lparr>p_available := c # cs, p_killed := killed\<rparr>)"
  shows "pool_inv (p\<lparr>p_killed := killed, p_available := cs, p_assigned := p_assigned p @ [c]\<rparr>)"
  using assms by (auto simp: pool_inv_def)

lemma pool_inv_add:
  assumes "pool_inv p"
  shows "pool_inv (p\<lparr>p_assigned := p_assigned p @ [Some (p_made p)], p_made := Suc (p_made p)\<rparr>)"
    "pool_inv (p\<lparr>p_available := p_available p @ [Some (p_made p)], p_made := Suc (p_made p)\<rparr>)"
  using assms unfolding pool_inv_def by (fastforce simp: less_Suc_eq)+

lemma Get_inv:
  assumes "Get e p = (r, p')" and "pool_inv p"
  shows "pool_inv p'"
  using assms(1)
proof (cases rule: Get_cases)
  case (available c cs killed)
  with sweep_available_inv [OF available(1) assms(2)] pool_inv_move show ?thesis by simp
next
  case (made killed)
  with pool_inv_add(1) [OF sweep_available_inv [OF made(1) assms(2)]] show ?thesis by simp
qed (use assms(2) sweep_available_inv in auto)

lemma swap_remove_find:
  assumes "find_index c xs = Some i"
  shows "add_mset c (mset (swap_remove i xs)) = mset xs"
  using find_index_Some [OF assms] mset_swap_remove [of i xs] by auto

lemma Return_cases:
  obtains (absent) "Return c clean p = p" "c \<notin> set (p_assigned p)"
  | (present) ys where "add_mset c (mset ys) = mset (p_assigned p)"
      "Return c clean p = p\<lparr>p_assigned := ys, p_available := p_available p @ (if clean then [c] else [])\<rparr>"
proof (cases "find_index c (p_assigned p)")
  case None
  with absent show thesis by (simp add: Return_def find_index_None)
next
  case (Some i)
  with present [OF swap_remove_find [OF Some]] show thesis by (simp add: Return_def Let_def)
qed

lemma Return_inv:
  assumes "pool_inv p"
  shows "pool_inv (Return c clean p)"
proof (cases rule: Return_cases [of c clean p])
  case (present ys)
  have set: "set (p_assigned p) = insert c (set ys)"
    using arg_cong [OF present(1), of set_mset] by simp
  have "mset ((p_available p @ (if clean then [c] else [])) @ ys) \<subseteq># mset (p_available p @ p_assigned p)"
    by (simp add: present(1) [symmetric])
  then have "distinct ((p_available p @ (if clean then [c] else [])) @ ys)"
    using assms distinct_sub unfolding pool_inv_def by blast
  with assms set present(2) show ?thesis by (auto simp: pool_inv_def split: if_splits)
qed (use assms in simp)

lemma housekeeping_nil:
  assumes "\<not> no_nil p"
  shows "housekeeping e p = Panic"
proof -
  from assms consider "None \<in> set (p_available p)" | "None \<in> set (p_assigned p)" by (auto simp: no_nil_def)
  then show ?thesis
  proof cases
    case 1
    with sweep_nil [of 0] show ?thesis by (simp add: housekeeping_def)
  next
    case 2
    with sweep_nil [of 0] have "sweep (e_healthy e) 0 (p_assigned p) k = Panic" for k by simp
    then show ?thesis
      by (cases "sweep (e_healthy e) 0 (p_available p) (p_killed p)")
        (auto simp: housekeeping_def sweep_not_Err)
  qed
qed

lemma housekeeping_cases:
  assumes "housekeeping e p = r"
  obtains (panic) "r = Panic" "\<not> no_nil p"
  | (swept) q where "r = Ok q" "no_nil p" "pool_inv p \<Longrightarrow> pool_inv q" "mset (p_available q @ p_assigned q) \<subseteq># mset (p_available p @ p_assigned p)"
      "p_max q = p_max p" "p_made q = p_made p" "p_available q @ p_assigned q \<noteq> []" "set (p_available q) \<subseteq> set (p_available p)"
      "\<forall>c. Some c \<in> set (p_available q @ p_assigned q) \<longrightarrow> e_healthy e c"
  | (restarted) q where "no_nil p" "pool_inv p \<Longrightarrow> pool_inv q" "p_max q = p_max p" "p_made q = p_made p"
      "p_available q = []" "p_assigned q = []"
      "r = Ok (case e_factory e of None \<Rightarrow> q\<lparr>p_available := [Some (p_made p)], p_made := Suc (p_made p)\<rparr>
               | Some _ \<Rightarrow> q\<lparr>p_available := [None]\<rparr>)"
proof (cases "no_nil p")
  case False
  then have "housekeeping e p = Panic" by (rule housekeeping_nil)
  with assms False panic show thesis by simp
next
  case True
  then have nil: "None \<notin> set (p_available p)" "None \<notin> set (p_assigned p)" by (auto simp: no_nil_def)
  obtain xs g1 where s1: "sweep (e_healthy e) 0 (p_available p) (p_killed p) = Ok (xs, p_killed p @ g1)"
    by (rule sweep_all [OF nil(1)])
  obtain ys g2 where s2: "sweep (e_healthy e) 0 (p_assigned p) (p_killed p @ g1) = Ok (ys, (p_killed p @ g1) @ g2)"
    by (rule sweep_all [OF nil(2)])
  let ?p1 = "p\<lparr>p_available := xs, p_killed := p_killed p @ g1\<rparr>"
  define q where "q = p\<lparr>p_available := xs, p_assigned := ys, p_killed := (p_killed p @ g1) @ g2\<rparr>"
  have "pool_inv ?p1" if "pool_inv p" using sweep_available_inv [OF s1 that] by simp
  then have inv: "pool_inv q" if "pool_inv p"
    using sweep_assigned_inv [of "e_healthy e" ?p1 ys "(p_killed p @ g1) @ g2"] s2 that by (simp add: q_def)
  have sub: "mset (p_available q @ p_assigned q) \<subseteq># mset (p_available p @ p_assigned p)"
    using sweep_Ok(1) [OF s1] sweep_Ok(1) [OF s2] by (simp add: q_def subset_mset.add_mono)
  have healthy: "set xs = {x \<in> set (p_available p). e_healthy e (the x)}"
    "set ys = {x \<in> set (p_assigned p). e_healthy e (the x)}"
    using sweep_Ok(2) [OF s1] sweep_Ok(2) [OF s2] by blast+
  have r: "r = (if xs @ ys = [] then (case e_factory e of
        None \<Rightarrow> Ok (q\<lparr>p_available := xs @ [Some (p_made p)], p_made := Suc (p_made p)\<rparr>)
      | Some err \<Rightarrow> Ok (q\<lparr>p_available := xs @ [None]\<rparr>)) else Ok q)"
    using assms s1 s2 unfolding q_def by (auto simp: housekeeping_def Let_def split: option.splits)
  show thesis
  proof (cases "xs @ ys = []")
    case False
    with r True inv sub healthy show thesis by (intro swept [of q]) (auto simp: q_def)
  next
    case empty: True
    with r True inv show thesis by (intro restarted [of q]) (auto simp: q_def split: option.splits)
  qed
qed

section \<open>The contract of the pool\<close>

definition pool_free :: "pool \<Rightarrow> nat option set" where
  "pool_free p = set (p_available p) - {None}"

definition pool_known :: "pool \<Rightarrow> nat option set" where
  "pool_known p = Some ` {..<p_made p}"

lemma Get_free_known:
  assumes "Get e p = (r, p')" and "pool_inv p"
  shows "pool_free p' \<subseteq> pool_free p" "pool_known p \<subseteq> pool_known p'"
    "r = Ok h \<Longrightarrow> (h \<in> pool_free p \<or> h \<notin> pool_known p) \<and> h \<notin> pool_free p' \<and> h \<in> pool_known p'"
proof -
  from assms(1) have "pool_free p' \<subseteq> pool_free p \<and> pool_known p \<subseteq> pool_known p' \<and>
    (r = Ok h \<longrightarrow> (h \<in> pool_free p \<or> h \<notin> pool_known p) \<and> h \<notin> pool_free p' \<and> h \<in> pool_known p')"
  proof (cases rule: Get_cases)
    case (available c cs killed)
    have "set (c # cs) \<subseteq> set (p_available p)" "None \<notin> set (p_available p)"
      using sweep_Ok(2) [OF available(1)] sweep_Ok_not_nil [OF available(1)] by blast+
    moreover from this obtain d where d: "c = Some d" by (cases c) auto
    moreover have "distinct (c # cs)"
      using sweep_available_inv [OF available(1) assms(2)] by (simp add: pool_inv_def)
    ultimately show ?thesis using available(2,3) assms(2)
      by (auto simp: pool_free_def pool_known_def pool_inv_def)
  qed (use assms(2) in \<open>auto simp: pool_free_def pool_known_def pool_inv_def\<close>)
  then show "pool_free p' \<subseteq> pool_free p" "pool_known p \<subseteq> pool_known p'"
    "r = Ok h \<Longrightarrow> (h \<in> pool_free p \<or> h \<notin> pool_known p) \<and> h \<notin> pool_free p' \<and> h \<in> pool_known p'"
    by blast+
qed

lemma housekeeping_free_known:
  assumes "housekeeping e p = Ok p'" and "pool_inv p"
  shows "pool_inv p'" "pool_known p \<subseteq> pool_known p'"
    "pool_free p' \<subseteq> pool_free p \<union> (pool_known p' - pool_known p)"
proof -
  from assms(1) have "pool_inv p' \<and> pool_known p \<subseteq> pool_known p' \<and>
    pool_free p' \<subseteq> pool_free p \<union> (pool_known p' - pool_known p)"
  proof (cases rule: housekeeping_cases)
    case (swept q)
    have "pool_inv q" by (rule swept(3) [OF assms(2)])
    with swept(1,6,8) show ?thesis by (auto simp: pool_free_def pool_known_def)
  next
    case (restarted q)
    have inv: "pool_inv q" by (rule restarted(2) [OF assms(2)])
    show ?thesis
    proof (cases "e_factory e")
      case None
      with restarted(4,5,7) pool_inv_add(2) [OF inv] show ?thesis by (auto simp: pool_free_def pool_known_def)
    next
      case (Some err)
      with restarted(4,5,6,7) inv show ?thesis by (auto simp: pool_free_def pool_known_def pool_inv_def)
    qed
  qed simp
  then show "pool_inv p'" "pool_known p \<subseteq> pool_known p'"
    "pool_free p' \<subseteq> pool_free p \<union> (pool_known p' - pool_known p)" by blast+
qed

interpretation pl: lease_pool Get Return housekeeping pool_inv pool_free pool_known
proof (unfold_locales, goal_cases)
  case (1 s e r s') show ?case by (rule Get_inv [OF 1(2,1)])
next
  case (2 s e r s') show ?case by (rule Get_free_known(1) [OF 2(2,1)])
next
  case (3 s e r s') show ?case by (rule Get_free_known(2) [OF 3(2,1)])
next
  case (4 s e h s') then show ?case using Get_free_known(3) [OF 4(2,1) refl] by blast
next
  case (5 s h clean) then show ?case by (rule Return_inv)
next
  case (6 s h clean) then show ?case
    by (cases rule: Return_cases [of h clean s]) (auto simp: pool_free_def)
next
  case (7 s h clean) then show ?case
    by (cases rule: Return_cases [of h clean s]) (auto simp: pool_known_def)
next
  case (8 s e s') show ?case by (rule housekeeping_free_known(1) [OF 8(2,1)])
next
  case (9 s e s') show ?case by (rule housekeeping_free_known(3) [OF 9(2,1)])
next
  case (10 s e s') show ?case by (rule housekeeping_free_known(2) [OF 10(2,1)])
qed

section \<open>Bounds and nil entries\<close>

lemma Get_bounded:
  assumes "Get e p = (r, p')" and "pool_bounded p"
  shows "pool_bounded p'"
  using assms(1)
proof (cases rule: Get_cases)
  case (available c cs killed)
  with sweep_Ok(3) [OF available(1)] assms(2) show ?thesis by (simp add: pool_bounded_def)
qed (use assms(2) in \<open>auto simp: pool_bounded_def\<close>)

lemma Return_bounded:
  assumes "pool_bounded p"
  shows "pool_bounded (Return c clean p)"
proof (cases rule: Return_cases [of c clean p])
  case (present ys)
  have "length (p_assigned p) = Suc (length ys)" using arg_cong [OF present(1), of size] by simp
  with assms present(2) show ?thesis by (simp add: pool_bounded_def)
qed (use assms in simp)

lemma housekeeping_bounded:
  assumes "housekeeping e p = Ok p'" and "pool_bounded p"
  shows "pool_bounded p'"
  using assms(1)
proof (cases rule: housekeeping_cases)
  case (swept q)
  from size_mset_mono [OF swept(4)] swept(1,5) assms(2) show ?thesis by (simp add: pool_bounded_def)
next
  case (restarted q)
  with assms(2) show ?thesis by (auto simp: pool_bounded_def split: option.splits)
qed simp

lemma pool_step_Ok:
  assumes "pool_step op p = Ok p'"
  shows "pool_inv p \<Longrightarrow> pool_inv p'" "pool_bounded p \<Longrightarrow> pool_bounded p'" "p_max p' = p_max p"
proof -
  have "(pool_inv p \<longrightarrow> pool_inv p') \<and> (pool_bounded p \<longrightarrow> pool_bounded p') \<and> p_max p' = p_max p"
  proof (cases op)
    case (Op_Get e)
    then obtain r where g: "Get e p = (r, p')" using assms by (auto split: prod.splits result.splits)
    then have "p_max p' = p_max p" by (cases rule: Get_cases) auto
    with Get_inv [OF g] Get_bounded [OF g] show ?thesis by blast
  next
    case (Op_Return c clean)
    with assms have "p' = Return c clean p" by simp
    moreover have "p_max (Return c clean p) = p_max p"
      by (cases rule: Return_cases [of c clean p]) auto
    ultimately show ?thesis using Return_inv Return_bounded by blast
  next
    case (Op_Housekeeping e)
    with assms have h: "housekeeping e p = Ok p'" by simp
    then have "p_max p' = p_max p" by (cases rule: housekeeping_cases) (auto split: option.splits)
    with housekeeping_free_known(1) [OF h] housekeeping_bounded [OF h] show ?thesis by blast
  qed
  then show "pool_inv p \<Longrightarrow> pool_inv p'" "pool_bounded p \<Longrightarrow> pool_bounded p'" "p_max p' = p_max p" by blast+
qed

lemma pool_step_no_nil:
  assumes "no_nil p" and "factory_ok op"
  shows "\<exists>p'. pool_step op p = Ok p' \<and> no_nil p'"
proof (cases op)
  case (Op_Get e)
  obtain r p' where g: "Get e p = (r, p')" by fastforce
  then show ?thesis
  proof (cases rule: Get_cases)
    case panic
    with assms show ?thesis by (simp add: no_nil_def)
  next
    case (available c cs killed)
    have "set (c # cs) \<subseteq> set (p_available p)" using sweep_Ok(2) [OF available(1)] by blast
    with available assms(1) Op_Get g show ?thesis by (auto simp: no_nil_def)
  qed (use assms(1) Op_Get g in \<open>auto simp: no_nil_def\<close>)
next
  case (Op_Return c clean)
  show ?thesis
  proof (cases rule: Return_cases [of c clean p])
    case (present ys)
    have "set (p_assigned p) = insert c (set ys)" using arg_cong [OF present(1), of set_mset] by simp
    with present(2) assms(1) Op_Return show ?thesis by (auto simp: no_nil_def)
  qed (use assms(1) Op_Return in auto)
next
  case (Op_Housekeeping e)
  have "\<exists>p'. housekeeping e p = Ok p' \<and> no_nil p'"
    using refl [of "housekeeping e p"]
  proof (cases rule: housekeeping_cases)
    case (swept q)
    from mset_subset_eqD [OF swept(4)] assms(1) have "no_nil q" by (auto simp: no_nil_def)
    with swept(1) show ?thesis by blast
  next
    case (restarted q)
    with assms(2) Op_Housekeeping show ?thesis by (auto simp: factory_ok_def no_nil_def)
  qed (use assms(1) in simp)
  with Op_Housekeeping show ?thesis by simp
qed

lemma pool_run_facts:
  assumes "pool_inv p" and "pool_bounded p" and "no_nil p" and "\<forall>op \<in> set ops. factory_ok op"
  shows "\<exists>p'. pool_run ops p = Ok p' \<and> pool_inv p' \<and> pool_bounded p' \<and> no_nil p' \<and> p_max p' = p_max p"
  using assms
proof (induction ops arbitrary: p)
  case Nil
  then show ?case by (simp add: pool_run_def)
next
  case (Cons op ops)
  then obtain q where q: "pool_step op p = Ok q" "no_nil q" using pool_step_no_nil by fastforce
  with pool_step_Ok [OF q(1)] Cons.prems
  have "\<exists>p'. pool_run ops q = Ok p' \<and> pool_inv p' \<and> pool_bounded p' \<and> no_nil p' \<and> p_max p' = p_max q"
    by (intro Cons.IH) auto
  with q(1) pool_step_Ok(3) [OF q(1)] show ?case by (simp add: pool_run_def)
qed

text \<open>A controller that the pool does not list stays unlisted, and is not killed.\<close>

definition unlisted :: "nat \<Rightarrow> pool \<Rightarrow> bool" where
  "unlisted c p \<longleftrightarrow> Some c \<notin> set (p_available p @ p_assigned p) \<and> c < p_made p"

lemma sweep_killed:
  assumes "sweep healthy 0 xs killed = Ok (ys, killed')"
  shows "set ys \<subseteq> set xs" "Some c \<notin> set xs \<Longrightarrow> c \<in> set killed' \<longleftrightarrow> c \<in> set killed"
  using sweep_Ok(2) [OF assms] by force+

lemma Get_unlisted:
  assumes "Get e p = (r, p')" and "unlisted c p"
  shows "unlisted c p' \<and> (c \<in> set (p_killed p') \<longleftrightarrow> c \<in> set (p_killed p))"
  using assms(1)
proof (cases rule: Get_cases)
  case (available d cs killed)
  from sweep_killed [OF available(1)] available(3) assms(2) show ?thesis by (auto simp: unlisted_def)
next
  case (made killed)
  from sweep_killed [OF made(1)] made(5) assms(2) show ?thesis by (auto simp: unlisted_def)
next
  case (failed killed err)
  from sweep_killed [OF failed(1)] failed(5) assms(2) show ?thesis by (auto simp: unlisted_def)
next
  case (exhausted killed)
  from sweep_killed [OF exhausted(1)] exhausted(4) assms(2) show ?thesis by (auto simp: unlisted_def)
qed (use assms(2) in simp)

lemma housekeeping_unlisted:
  assumes "housekeeping e p = Ok p'" and "unlisted c p"
  shows "unlisted c p' \<and> (c \<in> set (p_killed p') \<longleftrightarrow> c \<in> set (p_killed p))"
proof -
  have nil: "None \<notin> set (p_available p)" "None \<notin> set (p_assigned p)"
    using assms(1) by (auto elim: housekeeping_cases simp: no_nil_def)
  obtain xs g1 where s1: "sweep (e_healthy e) 0 (p_available p) (p_killed p) = Ok (xs, p_killed p @ g1)"
    by (rule sweep_all [OF nil(1)])
  obtain ys g2 where s2: "sweep (e_healthy e) 0 (p_assigned p) (p_killed p @ g1) = Ok (ys, (p_killed p @ g1) @ g2)"
    by (rule sweep_all [OF nil(2)])
  have "Some c \<notin> set xs \<and> Some c \<notin> set ys \<and> (c \<in> set ((p_killed p @ g1) @ g2) \<longleftrightarrow> c \<in> set (p_killed p))"
    using sweep_killed [OF s1] sweep_killed [OF s2] assms(2) unfolding unlisted_def by auto
  moreover have "p_assigned p' = ys \<and> p_killed p' = (p_killed p @ g1) @ g2 \<and> p_made p \<le> p_made p' \<and>
      (\<exists>zs. p_available p' = xs @ zs \<and> Some c \<notin> set zs)"
    using assms s1 s2 by (auto simp: housekeeping_def Let_def unlisted_def split: option.splits if_splits)
  ultimately show ?thesis using assms(2) by (auto simp: unlisted_def)
qed

lemma pool_step_unlisted:
  assumes "pool_step op p = Ok p'" and "unlisted c p"
  shows "unlisted c p' \<and> (c \<in> set (p_killed p') \<longleftrightarrow> c \<in> set (p_killed p))"
proof (cases op)
  case (Op_Get e)
  then obtain r where "Get e p = (r, p')" using assms by (auto split: prod.splits result.splits)
  with assms(2) show ?thesis by (intro Get_unlisted)
next
  case (Op_Housekeeping e)
  with assms show ?thesis by (intro housekeeping_unlisted) simp_all
next
  case (Op_Return d clean)
  then have p': "p' = Return d clean p" using assms(1) by simp
  show ?thesis
  proof (cases rule: Return_cases [of d clean p])
    case (present ys)
    have "set (p_assigned p) = insert d (set ys)" using arg_cong [OF present(1), of set_mset] by simp
    with present(2) p' assms(2) show ?thesis by (auto simp: unlisted_def)
  qed (use p' assms(2) in simp)
qed

lemma pool_run_unlisted:
  assumes "pool_run ops p = Ok p'" and "unlisted c p"
  shows "unlisted c p' \<and> (c \<in> set (p_killed p') \<longleftrightarrow> c \<in> set (p_killed p))"
  using assms
proof (induction ops arbitrary: p)
  case Nil
  then show ?case by (simp add: pool_run_def)
next
  case (Cons op ops)
  then obtain q where "pool_step op p = Ok q" "pool_run ops q = Ok p'" by (auto simp: pool_run_def)
  with Cons.IH [of q] pool_step_unlisted [of op p q c] Cons.prems(2) show ?case by blast
qed

section \<open>Properties\<close>

text \<open>
  C19: a lease from the pool. \<open>Get\<close> hands out a healthy controller that was available, if there
  is one; otherwise it makes one if fewer than the maximum are assigned, passing on the
  factory's error, and fails if not. It kills exactly the unhealthy controllers it finds
  among the available ones, keeps only healthy ones available, and never panics on a pool
  without nil entries.
\<close>

theorem pool_get_correct:
  assumes "no_nil p" and "Get e p = (r, p')"
  shows "(if \<exists>c. Some c \<in> set (p_available p) \<and> e_healthy e c
      then (\<exists>c. r = Ok (Some c) \<and> e_healthy e c \<and> Some c \<in> set (p_available p) \<and>
          p_assigned p' = p_assigned p @ [Some c] \<and> p_made p' = p_made p)
      else if int (length (p_assigned p)) < p_max p
      then r = (case e_factory e of None \<Rightarrow> Ok (Some (p_made p)) | Some err \<Rightarrow> Err err)
      else r = Err (Errorf ''no instance available from pool'' [])) \<and>
    set (p_killed p') = set (p_killed p) \<union> {c. Some c \<in> set (p_available p) \<and> \<not> e_healthy e c} \<and>
    (\<forall>c. Some c \<in> set (p_available p') \<longrightarrow> e_healthy e c)"
proof -
  have nil: "None \<notin> set (p_available p)" using assms(1) by (simp add: no_nil_def)
  have killed: "set killed = set (p_killed p) \<union> {c. Some c \<in> set (p_available p) \<and> \<not> e_healthy e c}"
    and left: "set ys = {x \<in> set (p_available p). e_healthy e (the x)}"
    if "sweep (e_healthy e) 0 (p_available p) (p_killed p) = Ok (ys, killed)" for ys killed
    using sweep_Ok(2) [OF that] by force+
  from assms(2) show ?thesis
  proof (cases rule: Get_cases)
    case (available c cs k)
    have c: "c \<in> set (p_available p)" "e_healthy e (the c)" and cs: "\<forall>x \<in> set cs. e_healthy e (the x)"
      using left [OF available(1)] by auto
    with nil obtain d where "c = Some d" by (cases c) auto
    with available(2,3) c cs killed [OF available(1)] show ?thesis by force
  next
    case (made k)
    with left [OF made(1)] killed [OF made(1)] show ?thesis by force
  next
    case (failed k err)
    with left [OF failed(1)] killed [OF failed(1)] show ?thesis by force
  next
    case (exhausted k)
    with left [OF exhausted(1)] killed [OF exhausted(1)] show ?thesis by force
  qed (use nil in simp)
qed

theorem pool_get_correct_witness:
  "\<exists>p'. Get \<lparr>e_healthy = (\<lambda>c. c = 1), e_factory = None\<rparr>
      \<lparr>p_max = 2, p_available = [Some 0, Some 1], p_assigned = [], p_made = 2, p_killed = []\<rparr>
     = (Ok (Some 1), p') \<and> set (p_killed p') = {0}"
proof -
  let ?e = "\<lparr>e_healthy = (\<lambda>c. c = 1), e_factory = None :: gerror option\<rparr>"
  let ?p = "\<lparr>p_max = 2, p_available = [Some 0, Some 1], p_assigned = [], p_made = 2, p_killed = []\<rparr>"
  obtain r p' where g: "Get ?e ?p = (r, p')" by fastforce
  from pool_get_correct [OF _ g] have "r = Ok (Some 1) \<and> set (p_killed p') = {0}"
    by (auto simp: no_nil_def)
  with g show ?thesis by blast
qed

text \<open>
  C20: safety of the pool under every sequence of \<open>Get\<close>, \<open>Return\<close> and housekeeping, with any
  health of the controllers and as long as the factory does not fail in the housekeeping: no
  operation panics, the pool never lists more controllers than its maximum (at least one),
  none twice, none that it has killed and none that the factory did not make.
\<close>

theorem pool_safe:
  assumes "new_pool e n = Ok p" and "\<forall>op \<in> set ops. factory_ok op"
  shows "\<exists>p'. pool_run ops p = Ok p' \<and>
    int (length (p_available p' @ p_assigned p')) \<le> max 1 n \<and>
    distinct (p_available p' @ p_assigned p') \<and>
    (\<forall>x \<in> set (p_available p' @ p_assigned p'). \<exists>c. x = Some c \<and> c < p_made p' \<and> c \<notin> set (p_killed p'))"
proof -
  have "pool_inv p" "pool_bounded p" "no_nil p" "p_max p = max 1 n"
    using assms(1) by (auto simp: new_pool_def pool_inv_def pool_bounded_def no_nil_def)
  from pool_run_facts [OF this(1-3) assms(2)] this(4) obtain p' where
    p': "pool_run ops p = Ok p'" "pool_inv p'" "pool_bounded p'" "no_nil p'" "p_max p' = max 1 n"
    by auto
  have "\<exists>c. x = Some c \<and> c < p_made p' \<and> c \<notin> set (p_killed p')"
    if "x \<in> set (p_available p' @ p_assigned p')" for x
    using p'(2,4) that by (cases x) (auto simp: pool_inv_def no_nil_def)
  with p' show ?thesis by (auto simp: pool_inv_def pool_bounded_def)
qed

theorem pool_safe_witness:
  "\<exists>p'. pool_run [Op_Get \<lparr>e_healthy = (\<lambda>c. True), e_factory = None\<rparr>,
        Op_Housekeeping \<lparr>e_healthy = (\<lambda>c. False), e_factory = None\<rparr>, Op_Return (Some 0) True]
      \<lparr>p_max = 1, p_available = [Some 0], p_assigned = [], p_made = 1, p_killed = []\<rparr> = Ok p' \<and>
    distinct (p_available p' @ p_assigned p')"
  using pool_safe [of "\<lparr>e_healthy = (\<lambda>c. True), e_factory = None\<rparr>" 0
      "\<lparr>p_max = 1, p_available = [Some 0], p_assigned = [], p_made = 1, p_killed = []\<rparr>"
      "[Op_Get \<lparr>e_healthy = (\<lambda>c. True), e_factory = None\<rparr>,
        Op_Housekeeping \<lparr>e_healthy = (\<lambda>c. False), e_factory = None\<rparr>, Op_Return (Some 0) True]"]
  by (auto simp: new_pool_def factory_ok_def)

text \<open>
  Housekeeping that cannot start a replacement. When no healthy controller is left and the
  factory fails, the pool stores the nil interface as an available controller: the housekeeping
  itself succeeds, but every later \<open>Get\<close> and every later round of the housekeeping panics on it.
\<close>

theorem failed_restart_panics:
  assumes "no_nil p" and "\<forall>c. Some c \<in> set (p_available p @ p_assigned p) \<longrightarrow> \<not> e_healthy e c"
    and "e_factory e = Some err"
  shows "\<exists>p'. housekeeping e p = Ok p' \<and> p_available p' = [None] \<and> p_assigned p' = [] \<and>
    (\<forall>e'. fst (Get e' p') = Panic \<and> housekeeping e' p' = Panic)"
proof -
  obtain p' where p': "housekeeping e p = Ok p'" "p_available p' = [None]" "p_assigned p' = []"
    using refl [of "housekeeping e p"]
  proof (cases rule: housekeeping_cases)
    case (swept q)
    have "None \<notin> set (p_available p @ p_assigned p)" using assms(1) by (simp add: no_nil_def)
    then obtain c where "Some c \<in> set (p_available q @ p_assigned q)"
      using swept(4,7) by (metis list.set_intros(1) mset_subset_eqD neq_Nil_conv option.exhaust set_mset_mset)
    moreover from this have "Some c \<in> set (p_available p @ p_assigned p)"
      using swept(4) by (metis mset_subset_eqD set_mset_mset)
    ultimately show thesis using swept(9) assms(2) by blast
  next
    case (restarted q)
    then show thesis using that assms(3) by simp
  qed (use assms(1) in simp)
  moreover have "Get e' p' = (Panic, p')" "housekeeping e' p' = Panic" for e'
    using p'(2) by (simp_all add: Get_def housekeeping_def sweep.simps)
  ultimately show ?thesis by auto
qed

theorem failed_restart_panics_witness:
  "\<exists>p'. housekeeping \<lparr>e_healthy = (\<lambda>c. False), e_factory = Some (Ext ''no memory'')\<rparr>
      \<lparr>p_max = 2, p_available = [Some 0], p_assigned = [], p_made = 1, p_killed = []\<rparr> = Ok p' \<and>
    fst (Get \<lparr>e_healthy = (\<lambda>c. True), e_factory = None\<rparr> p') = Panic"
  using failed_restart_panics [of "\<lparr>p_max = 2, p_available = [Some 0], p_assigned = [], p_made = 1, p_killed = []\<rparr>"
      "\<lparr>e_healthy = (\<lambda>c. False), e_factory = Some (Ext ''no memory'')\<rparr>" "Ext ''no memory''"]
  by (auto simp: no_nil_def)

text \<open>
  A controller that is returned unclean is forgotten: the pool neither keeps nor kills it,
  and no later operation does, so its Logstash process runs on until the daemon exits and does
  not count towards the pool's maximum.
\<close>

theorem unclean_return_forgets:
  assumes "pool_inv p" and "Some c \<in> set (p_assigned p)"
    and "pool_run ops (Return (Some c) False p) = Ok p'"
  shows "Some c \<notin> set (p_available p' @ p_assigned p') \<and> c \<notin> set (p_killed p')"
proof -
  have made: "c < p_made p" "c \<notin> set (p_killed p)" using assms(1,2) by (auto simp: pool_inv_def)
  have "unlisted c (Return (Some c) False p) \<and> p_killed (Return (Some c) False p) = p_killed p"
  proof (cases rule: Return_cases [of "Some c" False p])
    case (present ys)
    have "distinct (p_assigned p)" "Some c \<notin> set (p_available p)"
      using assms(1,2) by (auto simp: pool_inv_def)
    then have "Some c \<notin> set ys"
      using present(1) by (metis distinct.simps(2) mset.simps(2) mset_eq_imp_distinct_iff)
    with present(2) made \<open>Some c \<notin> set (p_available p)\<close> show ?thesis by (simp add: unlisted_def)
  qed (use assms(2) in simp)
  with pool_run_unlisted [OF assms(3)] made show ?thesis by (simp add: unlisted_def)
qed

theorem unclean_return_forgets_witness:
  "\<exists>p'. pool_run [Op_Housekeeping \<lparr>e_healthy = (\<lambda>c. False), e_factory = None\<rparr>]
      (Return (Some 0) False \<lparr>p_max = 2, p_available = [], p_assigned = [Some 0], p_made = 1, p_killed = []\<rparr>)
     = Ok p' \<and> Some 0 \<notin> set (p_available p' @ p_assigned p') \<and> 0 \<notin> set (p_killed p')"
  (is "\<exists>p'. pool_run ?ops (Return _ _ ?p) = _ \<and> _")
proof -
  obtain p' where run: "pool_run ?ops (Return (Some 0) False ?p) = Ok p'"
    by (simp add: pool_run_def Return_def swap_remove_def housekeeping_def sweep.simps)
  have "pool_inv ?p" by (simp add: pool_inv_def)
  from unclean_return_forgets [OF this _ run] run show ?thesis by simp
qed

end
