(* ===== verification/Session_Controller.thy ===== *)
theory Session_Controller
  imports Session Controller_Pool
begin

text \<open>
  The session controller of the daemon, \<open>internal/daemon/session/controller.go\<close>. Its methods
  hold one mutex for their whole body, except that \<open>Create\<close> releases it while it waits: each
  method is one atomic step, and \<open>Create\<close> one step for each time it is woken. The pool and the
  written files are part of the state; \<open>sc_ids\<close> counts the random ids drawn. Of a session whose
  set-up has failed, the state keeps the session as it was created.
\<close>

record sctl =
  sc_sessions :: "(string, session) gmap"
  sc_finished :: bool
  sc_wg :: nat
  sc_tempdir :: string
  sc_pool :: pool
  sc_noCleanup :: bool
  sc_ordered :: bool
  sc_files :: file_map
  sc_ids :: nat

definition new_sctl :: "string \<Rightarrow> pool \<Rightarrow> bool \<Rightarrow> bool \<Rightarrow> sctl" where
  "new_sctl tempdir logstashPool noCleanup ordered =
     \<lparr>sc_sessions = [], sc_finished = False, sc_wg = 0, sc_tempdir = tempdir, sc_pool = logstashPool,
      sc_noCleanup = noCleanup, sc_ordered = ordered, sc_files = [], sc_ids = 0\<rparr>"

section \<open>The methods\<close>

datatype create_outcome = Created "string result" | Waiting

text \<open>
  \<open>Create\<close>, entered for the first time or, with \<open>woken\<close>, again after \<open>cond.Wait()\<close>. A call that
  returns \<open>Waiting\<close> sleeps, with the mutex released.
\<close>

definition Create :: "bool \<Rightarrow> pool_env \<Rightarrow> session_env \<Rightarrow> ('cfg, 'pl, 'at) ast_lib \<Rightarrow> (nat \<Rightarrow> string)
    \<Rightarrow> pipeline list \<Rightarrow> 'cfg config_file list \<Rightarrow> sctl \<Rightarrow> create_outcome \<times> sctl" where
  "Create woken pe env al gen pipelines configFiles c =
     (if woken \<and> sc_finished c then (Created (Err (Errorf ''shutdown in progress'' [])), c)
      else if 1 < length (sc_sessions c) then (Waiting, c)
      else (case Get pe (sc_pool c) of
              (Panic, p) \<Rightarrow> (Created Panic, c\<lparr>sc_pool := p\<rparr>)
            | (Err e, p) \<Rightarrow> (Created (Err e), c\<lparr>sc_pool := p\<rparr>)
            | (Ok logstashController, p) \<Rightarrow>
                (let sid = gen (sc_ids c);
                     s = newSession (sc_tempdir c) logstashController (sc_noCleanup c) (sc_ordered c) sid;
                     c = c\<lparr>sc_pool := p, sc_ids := Suc (sc_ids c),
                           sc_sessions := mput sid s (sc_sessions c), sc_wg := Suc (sc_wg c)\<rparr>
                 in case setupTest env al gen pipelines configFiles (s, sc_files c, sc_ids c) of
                      Ok (s, files, n, _) \<Rightarrow>
                        (Created (Ok sid),
                         c\<lparr>sc_sessions := mput sid s (sc_sessions c), sc_files := files, sc_ids := n\<rparr>)
                    | Err e \<Rightarrow> (Created (Err e), c)
                    | Panic \<Rightarrow> (Created Panic, c))))"

definition no_session :: "string \<Rightarrow> gerror" where
  "no_session sid = Errorf ''no valid session found for id %q'' [sid]"

definition GetSession :: "string \<Rightarrow> sctl \<Rightarrow> session result" where
  "GetSession sid c = (case mget (sc_sessions c) sid of None \<Rightarrow> Err (no_session sid) | Some s \<Rightarrow> Ok s)"

text \<open>
  The session is deleted also when its teardown fails. The wait group's counter must not become
  negative.
\<close>

definition DestroyByID :: "gerror option \<Rightarrow> gerror option \<Rightarrow> string \<Rightarrow> sctl \<Rightarrow> unit result \<times> sctl" where
  "DestroyByID tdErr rmErr sid c =
     (case mget (sc_sessions c) sid of
        None \<Rightarrow> (Err (no_session sid), c)
      | Some s \<Rightarrow>
          (let err = teardown tdErr rmErr s;
               c = c\<lparr>sc_pool := Return (s_logstashController s) (err = None) (sc_pool c)\<rparr>;
               c = c\<lparr>sc_sessions := mdel sid (sc_sessions c)\<rparr>
           in if sc_wg c = 0 then (Panic, c) else (check err (), c\<lparr>sc_wg := sc_wg c - 1\<rparr>)))"

text \<open>\<open>WaitFinish\<close> wakes the waiting calls; its channel is closed once no session is counted.\<close>

definition WaitFinish :: "sctl \<Rightarrow> sctl" where
  "WaitFinish c = c\<lparr>sc_finished := True\<rparr>"

definition finish_signalled :: "sctl \<Rightarrow> bool" where
  "finish_signalled c \<longleftrightarrow> sc_wg c = 0"

text \<open>A test executed by a session: the session in the map is updated.\<close>

definition run_session :: "session_env \<Rightarrow> string \<Rightarrow> string list \<Rightarrow> fields list \<Rightarrow> int \<Rightarrow> string \<Rightarrow> sctl
    \<Rightarrow> pipeline list result \<times> sctl" where
  "run_session env inputPlugin ls inEvents expected sid c =
     (case mget (sc_sessions c) sid of
        None \<Rightarrow> (Err (no_session sid), c)
      | Some s \<Rightarrow>
          (case ExecuteTest env inputPlugin ls inEvents expected (s, sc_files c) of
             (r, s) \<Rightarrow>
               (let c = c\<lparr>sc_sessions := mput sid s (sc_sessions c)\<rparr>
                in case r of
                     Ok (ps, files) \<Rightarrow> (Ok ps, c\<lparr>sc_files := files\<rparr>)
                   | Err e \<Rightarrow> (Err e, c)
                   | Panic \<Rightarrow> (Panic, c))))"

section \<open>Sequences of steps\<close>

inductive sctl_step :: "('cfg, 'pl, 'at) ast_lib \<Rightarrow> (nat \<Rightarrow> string) \<Rightarrow> sctl \<Rightarrow> sctl \<Rightarrow> bool"
  for al :: "('cfg, 'pl, 'at) ast_lib" and gen :: "nat \<Rightarrow> string" where
  create: "Create woken pe env al gen ps fs c = (r, c') \<Longrightarrow> sctl_step al gen c c'"
| destroy: "DestroyByID tdErr rmErr sid c = (r, c') \<Longrightarrow> sctl_step al gen c c'"
| execute: "run_session env plugin ls es n sid c = (r, c') \<Longrightarrow> sctl_step al gen c c'"
| finish: "sctl_step al gen c (WaitFinish c)"
| housekeeping: "housekeeping pe (sc_pool c) = Ok p \<Longrightarrow> sctl_step al gen c (c\<lparr>sc_pool := p\<rparr>)"

inductive sctl_reach :: "('cfg, 'pl, 'at) ast_lib \<Rightarrow> (nat \<Rightarrow> string) \<Rightarrow> sctl \<Rightarrow> sctl \<Rightarrow> bool"
  for al :: "('cfg, 'pl, 'at) ast_lib" and gen :: "nat \<Rightarrow> string" where
  refl: "sctl_reach al gen c c"
| step: "sctl_reach al gen c d \<Longrightarrow> sctl_step al gen d e \<Longrightarrow> sctl_reach al gen c e"

inductive_cases sctl_stepE: "sctl_step al gen c c'"

text \<open>The controllers that the live sessions hold.\<close>

definition leased :: "sctl \<Rightarrow> nat option list" where
  "leased c = map (\<lambda>(sid, s). s_logstashController s) (sc_sessions c)"

definition sctl_inv :: "(nat \<Rightarrow> string) \<Rightarrow> sctl \<Rightarrow> bool" where
  "sctl_inv gen c \<longleftrightarrow> pl.leases_ok (leased c) (sc_pool c) \<and> mwf (sc_sessions c) \<and>
     sc_wg c = length (sc_sessions c) \<and> length (sc_sessions c) \<le> 2 \<and>
     set (mkeys (sc_sessions c)) \<subseteq> gen ` {..<sc_ids c}"

lemma mput_new: "mget m k = None \<Longrightarrow> mput k v m = m @ [(k, v)]"
  unfolding mget_def mput_def by (induction m) auto

lemma mput_same_snd:
  "mget m k = Some v \<Longrightarrow> f v' = f v \<Longrightarrow> map (\<lambda>(k, v). f v) (mput k v' m) = map (\<lambda>(k, v). f v) m"
  unfolding mget_def mput_def by (induction m) auto

lemma mdel_snd:
  assumes "mwf m" and "mget m k = Some v"
  shows "mset (map (\<lambda>(k, v). f v) m) = add_mset (f v) (mset (map (\<lambda>(k, v). f v) (mdel k m)))"
  using assms
proof (induction m)
  case (Cons p m)
  obtain j w where p: "p = (j, w)" by (cases p)
  show ?case
  proof (cases "j = k")
    case True
    with Cons.prems p have "mget m k = None" "w = v"
      by (auto simp: mwf_def mkeys_def mget_def map_of_eq_None_iff)
    with True p mdel_absent show ?thesis by (fastforce simp: mdel_def)
  next
    case False
    with Cons p have "mset (map (\<lambda>(k, v). f v) m) = add_mset (f v) (mset (map (\<lambda>(k, v). f v) (mdel k m)))"
      by (auto simp: mwf_def mkeys_def)
    with False p show ?thesis by (simp add: mdel_def)
  qed
qed simp

section \<open>The set-up keeps the lease and draws ids forward\<close>

lemma walk_plugins_inv:
  assumes "P s" and "\<And>p s. P s \<Longrightarrow> P (snd (walk p s))"
  shows "P (snd (walk_plugins walk ps s))"
  using assms(1) by (induction ps arbitrary: s) (simp_all add: assms(2) split_beta Let_def)

lemma ReplaceInputs_ids:
  assumes "ReplaceInputs al gen idPrefix f n = Ok (codecs, f', n')"
  shows "n \<le> n'"
proof -
  have step: "n \<le> snd (snd (replaceInputs al gen idPrefix p t))" if "n \<le> snd t" for p and t :: "(string, string) gmap \<times> nat"
    using that by (cases t) (auto simp: replaceInputs_def plugin_id_def Let_def split: prod.splits option.splits)
  have "n \<le> snd (snd (walk_plugins (replaceInputs al gen idPrefix) ps ([], n)))" for ps
    by (rule walk_plugins_inv [where P = "\<lambda>t. n \<le> snd t"]) (use step in auto)
  then show ?thesis
    using assms by (auto simp: ReplaceInputs_def apply_plugins_def split_beta Let_def)
qed

lemma ReplaceOutputs_ids:
  assumes "ReplaceOutputs al gen f n = Ok (outputs, f', n')"
  shows "n \<le> n'"
proof -
  have step: "n \<le> snd (snd (replaceOutput al gen p t))" if "n \<le> snd t" for p and t :: "string list \<times> nat"
    using that by (cases t) (auto simp: replaceOutput_def plugin_id_def Let_def split: prod.splits option.splits)
  have "n \<le> snd (snd (walk_plugins (replaceOutput al gen) ps ([], n)))" for ps
    by (rule walk_plugins_inv [where P = "\<lambda>t. n \<le> snd t"]) (use step in auto)
  then show ?thesis
    using assms by (auto simp: ReplaceOutputs_def apply_plugins_def split_beta Let_def)
qed

lemma setup_file_keeps:
  assumes "setup_file env al gen f (ps, s, files, n) = Ok (ps', s', files', n')"
  shows "s_logstashController s' = s_logstashController s \<and> n \<le> n'"
proof -
  from assms obtain codecs f1 n1 outs f2 where r: "ReplaceInputs al gen (s_id s) f n = Ok (codecs, f1, n1)"
    "ReplaceOutputs al gen f1 n1 = Ok (outs, f2, n')"
    "s' = s\<lparr>s_inputPluginCodecs := fold (\<lambda>(i, codec). mput i codec) codecs (s_inputPluginCodecs s)\<rparr>"
    by (auto simp: setup_file_def Let_def split_beta)
  from ReplaceInputs_ids [OF r(1)] ReplaceOutputs_ids [OF r(2)] r(3) show ?thesis by simp
qed

lemma setupTest_keeps:
  assumes "setupTest env al gen ps fs (s, files, n) = Ok (s', files', n', calls)"
  shows "s_logstashController s' = s_logstashController s \<and> n \<le> n'"
proof -
  obtain qs t where e: "each (setup_file env al gen) fs (map (adjust_pipeline s) ps, s, files, n)
      = Ok (qs, t, files', n')" and s': "s' = t\<lparr>s_pipelines := qs\<rparr>"
    using assms by (auto simp: setupTest_def Let_def)
  have "case (qs, t, files', n') of (qs, t, files', k) \<Rightarrow>
      s_logstashController t = s_logstashController s \<and> n \<le> k"
    by (rule each_inv [OF e]) (auto dest!: setup_file_keeps)
  with s' show ?thesis by simp
qed

lemma ExecuteTest_keeps:
  "ExecuteTest env plugin ls es n (s, files) = (r, s') \<Longrightarrow> s_logstashController s' = s_logstashController s"
  by (auto simp: ExecuteTest_def Let_def)

section \<open>The invariant\<close>

lemma mput_twice: "mput k v (mput k w m) = mput k v m"
  unfolding mput_def by (induction m) auto

lemma Create_got:
  assumes "\<not> (woken \<and> sc_finished c \<or> 1 < length (sc_sessions c))" and "Get pe (sc_pool c) = (Ok h, p)"
  shows "Create woken pe env al gen ps fs c =
    (let sid = gen (sc_ids c); s = newSession (sc_tempdir c) h (sc_noCleanup c) (sc_ordered c) sid;
         c = c\<lparr>sc_pool := p, sc_ids := Suc (sc_ids c), sc_sessions := mput sid s (sc_sessions c),
           sc_wg := Suc (sc_wg c)\<rparr> in
     case setupTest env al gen ps fs (s, sc_files c, sc_ids c) of
       Ok (s, files, n, _) \<Rightarrow> (Created (Ok sid),
         c\<lparr>sc_sessions := mput sid s (sc_sessions c), sc_files := files, sc_ids := n\<rparr>)
     | Err e \<Rightarrow> (Created (Err e), c)
     | Panic \<Rightarrow> (Created Panic, c))"
proof -
  have F: "\<not> (woken \<and> sc_finished c)" "\<not> 1 < length (sc_sessions c)" using assms(1) by blast+
  show ?thesis unfolding Create_def if_not_P [OF F(1)] if_not_P [OF F(2)] assms(2) Let_def by simp
qed

lemma Create_cases:
  assumes "Create woken pe env al gen ps fs c = (r, c')"
  obtains (same) "c' = c" "r = Created (Err (Errorf ''shutdown in progress'' [])) \<or> r = Waiting"
  | (failed) g p where "c' = c\<lparr>sc_pool := p\<rparr>" "Get pe (sc_pool c) = (g, p)" "\<not> 1 < length (sc_sessions c)"
      "\<not> is_ok g" "\<exists>k. r = Created k \<and> \<not> is_ok k"
  | (got) h p s k where "Get pe (sc_pool c) = (Ok h, p)" "\<not> 1 < length (sc_sessions c)"
      "s_logstashController s = h" "Suc (sc_ids c) \<le> sc_ids c'" "sc_pool c' = p"
      "sc_sessions c' = mput (gen (sc_ids c)) s (sc_sessions c)" "sc_wg c' = Suc (sc_wg c)"
      "r = Created (Ok (gen (sc_ids c))) \<or> (\<not> is_ok k \<and> r = Created k)"
      "sc_finished c' = sc_finished c"
proof (cases "woken \<and> sc_finished c \<or> 1 < length (sc_sessions c)")
  case True
  with assms same show thesis by (auto simp: Create_def split: if_splits)
next
  case False
  obtain g p where g: "Get pe (sc_pool c) = (g, p)" by fastforce
  show thesis
  proof (cases g)
    case (Ok h)
    let ?sid = "gen (sc_ids c)"
    let ?s = "newSession (sc_tempdir c) h (sc_noCleanup c) (sc_ordered c) ?sid"
    let ?c = "c\<lparr>sc_pool := p, sc_ids := Suc (sc_ids c), sc_sessions := mput ?sid ?s (sc_sessions c),
      sc_wg := Suc (sc_wg c)\<rparr>"
    have h: "s_logstashController ?s = h" by (simp add: newSession_def)
    note eq = Create_got [OF False g [unfolded Ok], of env al gen ps fs, unfolded Let_def]
    show thesis
    proof (cases "setupTest env al gen ps fs (?s, sc_files ?c, sc_ids ?c)")
      case st: (Ok q)
      obtain s files n calls where q: "q = (s, files, n, calls)" by (rule prod_cases4)
      from setupTest_keeps st q have "s_logstashController s = h \<and> Suc (sc_ids c) \<le> n" using h by fastforce
      with assms eq st q g Ok False show thesis
        by (intro got [of h p s "Ok []"]) (auto simp: mput_twice)
    next
      case (Err e)
      with assms eq g Ok False h show thesis by (intro got [of h p ?s "Err e"]) auto
    next
      case Panic
      with assms eq g Ok False h show thesis by (intro got [of h p ?s Panic]) auto
    qed
  qed (use assms False g failed in \<open>auto simp: Create_def\<close>)
qed

lemma Create_inv:
  assumes "Create woken pe env al gen ps fs c = (r, c')" and "sctl_inv gen c" and "inj gen"
  shows "sctl_inv gen c'"
  using assms(1)
proof (cases rule: Create_cases)
  case same
  with assms(2) show ?thesis by simp
next
  case (failed g p)
  have "pl.leases_ok (leased c) (sc_pool c)" using assms(2) by (simp add: sctl_inv_def)
  then have "pl.leases_ok (leased c) p" using failed(2) by (rule pl.leases_get_failed)
  with failed(1) assms(2) show ?thesis by (simp add: sctl_inv_def leased_def)
next
  case (got h p s k)
  let ?sid = "gen (sc_ids c)"
  have "?sid \<notin> gen ` {..<sc_ids c}" using assms(3) by (auto dest: injD)
  then have "?sid \<notin> set (mkeys (sc_sessions c))" using assms(2) unfolding sctl_inv_def by blast
  then have fresh: "mget (sc_sessions c) ?sid = None" by (simp add: mkeys_iff)
  have "pl.leases_ok (leased c) (sc_pool c)" using assms(2) by (simp add: sctl_inv_def)
  then have "pl.leases_ok (h # leased c) p" using got(1) by (rule pl.leases_get)
  moreover have "mset (h # leased c) = mset (leased c')"
    unfolding leased_def got(6) mput_new [OF fresh] by (simp add: got(3))
  ultimately have "pl.leases_ok (leased c') (sc_pool c')"
    unfolding got(5) using pl.leases_perm by blast
  moreover have "set (mkeys (sc_sessions c')) \<subseteq> gen ` {..<sc_ids c'}"
  proof -
    have "set (mkeys (sc_sessions c')) = insert ?sid (set (mkeys (sc_sessions c)))"
      unfolding got(6) by (rule mp.keys_put)
    moreover have "gen ` {..<sc_ids c} \<subseteq> gen ` {..<sc_ids c'}" "?sid \<in> gen ` {..<sc_ids c'}"
      using got(4) by auto
    ultimately show ?thesis using assms(2) by (auto simp: sctl_inv_def)
  qed
  ultimately show ?thesis
    using assms(2) got(2,6,7) fresh by (simp add: sctl_inv_def mwf_mput length_mput)
qed

lemma DestroyByID_cases:
  assumes "DestroyByID tdErr rmErr sid c = (r, c')"
  obtains (unknown) "mget (sc_sessions c) sid = None" "r = Err (no_session sid)" "c' = c"
  | (destroyed) s where "mget (sc_sessions c) sid = Some s"
      "sc_pool c' = Return (s_logstashController s) (teardown tdErr rmErr s = None) (sc_pool c)"
      "sc_sessions c' = mdel sid (sc_sessions c)" "sc_wg c' = sc_wg c - 1" "sc_ids c' = sc_ids c"
      "r = (if sc_wg c = 0 then Panic else check (teardown tdErr rmErr s) ())"
      "sc_finished c' = sc_finished c"
  using assms by (cases "mget (sc_sessions c) sid") (auto simp: DestroyByID_def Let_def split: if_splits)

lemma DestroyByID_inv:
  assumes "DestroyByID tdErr rmErr sid c = (r, c')" and "sctl_inv gen c"
  shows "sctl_inv gen c' \<and> r \<noteq> Panic"
  using assms(1)
proof (cases rule: DestroyByID_cases)
  case unknown
  with assms(2) show ?thesis by simp
next
  case (destroyed s)
  have wf: "mwf (sc_sessions c)" using assms(2) by (simp add: sctl_inv_def)
  have perm: "mset (leased c) = add_mset (s_logstashController s) (mset (leased c'))"
    unfolding leased_def destroyed(3) by (rule mdel_snd [OF wf destroyed(1)])
  have "s_logstashController s \<in># mset (leased c)" unfolding perm by simp
  then have mem: "s_logstashController s \<in> set (leased c)" by simp
  have "pl.leases_ok (remove1 (s_logstashController s) (leased c)) (sc_pool c')"
    unfolding destroyed(2) using assms(2) by (intro pl.leases_ret [OF _ mem]) (simp add: sctl_inv_def)
  moreover have "mset (remove1 (s_logstashController s) (leased c)) = mset (leased c')" by (simp add: perm)
  ultimately have leases: "pl.leases_ok (leased c') (sc_pool c')" using pl.leases_perm by blast
  have len: "Suc (length (sc_sessions c')) = length (sc_sessions c)"
    unfolding destroyed(3) by (rule length_mdel [OF wf]) (simp add: destroyed(1))
  have "set (mkeys (sc_sessions c')) \<subseteq> set (mkeys (sc_sessions c))"
    unfolding destroyed(3) by (auto simp: mp.keys_del)
  with leases len assms(2) show ?thesis
    using destroyed by (auto simp: sctl_inv_def mwf_mdel)
qed

lemma run_session_inv:
  assumes "run_session env plugin ls es n sid c = (r, c')" and "sctl_inv gen c"
  shows "sctl_inv gen c'"
proof (cases "mget (sc_sessions c) sid")
  case None
  with assms show ?thesis by (simp add: run_session_def)
next
  case (Some s)
  obtain x s' where e: "ExecuteTest env plugin ls es n (s, sc_files c) = (x, s')" by fastforce
  have c': "sc_sessions c' = mput sid s' (sc_sessions c)" "sc_pool c' = sc_pool c" "sc_wg c' = sc_wg c"
    "sc_ids c' = sc_ids c"
    using assms(1) Some e by (auto simp: run_session_def Let_def split: result.splits)
  have "leased c' = leased c"
    unfolding leased_def c'(1)
    by (rule mput_same_snd [where f = s_logstashController, OF Some ExecuteTest_keeps [OF e]])
  moreover have "set (mkeys (sc_sessions c')) = set (mkeys (sc_sessions c))"
    unfolding c'(1) mp.keys_put using Some by (auto simp: mkeys_iff)
  ultimately show ?thesis
    using assms(2) c' Some by (simp add: sctl_inv_def mwf_mput length_mput)
qed

lemma sctl_step_inv:
  assumes "sctl_step al gen c c'" and "sctl_inv gen c" and "inj gen"
  shows "sctl_inv gen c'"
  using assms(1)
proof (cases rule: sctl_step.cases)
  case create
  then show ?thesis using Create_inv assms(2,3) by blast
next
  case destroy
  then show ?thesis using DestroyByID_inv assms(2) by blast
next
  case execute
  then show ?thesis using run_session_inv assms(2) by blast
next
  case finish
  with assms(2) show ?thesis by (simp add: sctl_inv_def WaitFinish_def leased_def)
next
  case (housekeeping pe p)
  with assms(2) pl.leases_upkeep [OF _ housekeeping(2)] show ?thesis by (simp add: sctl_inv_def leased_def)
qed

lemma sctl_reach_inv:
  "sctl_reach al gen c c' \<Longrightarrow> sctl_inv gen c \<Longrightarrow> inj gen \<Longrightarrow> sctl_inv gen c'"
  by (induction rule: sctl_reach.induct) (auto intro: sctl_step_inv)

lemma Create_total:
  assumes "\<not> (woken \<and> sc_finished c)" and "\<not> 1 < length (sc_sessions c)"
    and "Get pe (sc_pool c) = (Ok h, p)" and "\<And>f. se_io env f = None" and "\<forall>f \<in> set fs. is_ok (parse al f)"
  shows "\<exists>c1. Create woken pe env al gen ps fs c = (Created (Ok (gen (sc_ids c))), c1)"
proof -
  obtain s files n calls where "setupTest env al gen ps fs (newSession (sc_tempdir c) h (sc_noCleanup c)
      (sc_ordered c) (gen (sc_ids c)), sc_files c, Suc (sc_ids c)) = Ok (s, files, n, calls)"
    using setupTest_total [OF assms(4,5)] by blast
  then show ?thesis
    unfolding Create_def if_not_P [OF assms(1)] if_not_P [OF assms(2)] assms(3) Let_def by simp
qed

text \<open>A small example: one available controller, nothing fails.\<close>

definition sample_pool :: pool where
  "sample_pool = \<lparr>p_max = 2, p_available = [Some 0], p_assigned = [], p_made = 1, p_killed = []\<rparr>"

definition sample_env :: pool_env where
  "sample_env = \<lparr>e_healthy = (\<lambda>c. True), e_factory = None\<rparr>"

definition sample_gen :: "nat \<Rightarrow> string" where
  "sample_gen n = replicate n (CHR ''x'')"

definition sample_sctl :: sctl where
  "sample_sctl = new_sctl ''/tmp'' sample_pool False True"

lemma sample_Get: "Get sample_env (sc_pool sample_sctl) = (Ok (Some 0),
    sample_pool\<lparr>p_available := [], p_assigned := [Some 0]\<rparr>)"
  by (simp add: sample_sctl_def new_sctl_def sample_env_def sample_pool_def Get_def sweep.simps)

lemma sample_inv: "pool_inv sample_pool" "inj sample_gen" "sctl_inv sample_gen sample_sctl"
  by (auto simp: sample_pool_def sample_gen_def inj_def pool_inv_def sctl_inv_def sample_sctl_def
      new_sctl_def leased_def pl.leases_ok_def mkeys_def)

lemma sample_fields: "sc_sessions sample_sctl = []" "sc_finished sample_sctl = False"
  "sc_wg sample_sctl = 0" "sc_ids sample_sctl = 0"
  by (simp_all add: sample_sctl_def new_sctl_def)

lemma sample_Create: "\<exists>c1. Create False sample_env calm_session_env sample_ast sample_gen [] [] sample_sctl
    = (Created (Ok (sample_gen 0)), c1)"
  using Create_total [of False sample_sctl, OF _ _ sample_Get, of calm_session_env "[]" sample_ast sample_gen "[]"]
  by (simp add: sample_fields)

section \<open>Properties\<close>

text \<open>
  C5: no two sessions share a Logstash instance. From a new controller over a sound pool on,
  with distinct random ids, under every sequence of session creations (failing ones and retries
  of waiting ones included), tests, destructions, shutdown requests and housekeeping rounds: the
  live sessions hold distinct Logstash controllers, none of which the pool could hand out, there
  are at most two sessions, and the wait group counts exactly them.
\<close>

theorem sessions_exclusive:
  assumes "inj gen" and "pool_inv p" and "sctl_reach al gen (new_sctl tempdir p noCleanup ordered) c"
  shows "distinct (map (\<lambda>(sid, s). s_logstashController s) (sc_sessions c)) \<and>
    (\<forall>(sid, s) \<in> set (sc_sessions c).
      s_logstashController s \<notin> set (p_available (sc_pool c)) - {None} \<and>
      (\<exists>k < p_made (sc_pool c). s_logstashController s = Some k)) \<and>
    length (sc_sessions c) \<le> 2 \<and> sc_wg c = length (sc_sessions c) \<and>
    distinct (mkeys (sc_sessions c))"
proof -
  have "sctl_inv gen (new_sctl tempdir p noCleanup ordered)"
    using assms(2) by (simp add: sctl_inv_def new_sctl_def leased_def pl.leases_ok_def mkeys_def)
  then have inv: "sctl_inv gen c" using sctl_reach_inv assms(1,3) by blast
  then have ok: "distinct (leased c)" "set (leased c) \<subseteq> pool_known (sc_pool c)"
    "set (leased c) \<inter> pool_free (sc_pool c) = {}"
    by (simp_all add: sctl_inv_def pl.leases_ok_def)
  have "s_logstashController s \<notin> set (p_available (sc_pool c)) - {None} \<and>
      (\<exists>k < p_made (sc_pool c). s_logstashController s = Some k)"
    if "(sid, s) \<in> set (sc_sessions c)" for sid s
  proof -
    have "s_logstashController s \<in> set (leased c)" using that by (force simp: leased_def)
    with ok(2,3) show ?thesis by (auto simp: pool_known_def pool_free_def)
  qed
  with inv ok(1) show ?thesis by (auto simp: sctl_inv_def mwf_def leased_def)
qed

theorem sessions_exclusive_witness:
  "\<exists>c. sctl_reach sample_ast sample_gen (new_sctl ''/tmp'' sample_pool False True) c \<and>
    length (sc_sessions c) = 1 \<and> sc_wg c = 1"
proof -
  obtain c where cr: "Create False sample_env calm_session_env sample_ast sample_gen [] [] sample_sctl
    = (Created (Ok (sample_gen 0)), c)" using sample_Create by blast
  then have reach: "sctl_reach sample_ast sample_gen (new_sctl ''/tmp'' sample_pool False True) c"
    unfolding sample_sctl_def by (meson sctl_reach.refl sctl_reach.step sctl_step.create)
  from cr have "length (sc_sessions c) = 1"
    by (cases rule: Create_cases) (simp_all add: sample_fields length_mput)
  with sessions_exclusive [OF sample_inv(2,1) reach] reach show ?thesis by auto
qed

text \<open>
  What a session's life does to the controller. A successful \<open>Create\<close> makes exactly one
  session, found under the returned id, holding the controller that the pool handed out; its
  destruction removes it and no other, gives the controller back as available exactly if the
  teardown succeeded, and a second destruction reports that there is no such session.
\<close>

lemma session_lifecycle:
  assumes "sctl_inv gen c" and "inj gen"
    and "Create woken pe env al gen ps fs c = (Created (Ok sid), c1)"
    and "DestroyByID tdErr rmErr sid c1 = (r, c2)"
  shows "\<exists>s h. GetSession sid c1 = Ok s \<and> s_logstashController s = h \<and> fst (Get pe (sc_pool c)) = Ok h \<and>
    GetSession sid c = Err (no_session sid) \<and> GetSession sid c2 = Err (no_session sid) \<and>
    (\<forall>sid'. sid' \<noteq> sid \<longrightarrow> GetSession sid' c1 = GetSession sid' c \<and> GetSession sid' c2 = GetSession sid' c) \<and>
    sc_wg c2 = sc_wg c \<and> sc_pool c2 = Return h (tdErr = None \<and> (s_noCleanup s \<or> rmErr = None)) (sc_pool c1) \<and>
    (r = Ok () \<longleftrightarrow> tdErr = None \<and> (s_noCleanup s \<or> rmErr = None)) \<and>
    fst (DestroyByID tdErr rmErr sid c2) = Err (no_session sid)"
  using assms(3)
proof (cases rule: Create_cases)
  case (got h p s k)
  have sid: "sid = gen (sc_ids c)" using got(8) by auto
  have "sid \<notin> gen ` {..<sc_ids c}" using assms(2) sid by (auto dest: injD)
  then have "sid \<notin> set (mkeys (sc_sessions c))" using assms(1) unfolding sctl_inv_def by blast
  then have fresh: "mget (sc_sessions c) sid = None" by (simp add: mkeys_iff)
  have s: "mget (sc_sessions c1) sid = Some s" by (simp add: got(6) sid map_simps)
  have td: "teardown tdErr rmErr s = None \<longleftrightarrow> tdErr = None \<and> (s_noCleanup s \<or> rmErr = None)"
    by (auto simp: teardown_def Let_def)
  from assms(4) show ?thesis
  proof (cases rule: DestroyByID_cases)
    case (destroyed s')
    then have s': "s' = s" using s by simp
    have gone: "mget (sc_sessions c2) sid = None" by (simp add: destroyed(3) map_simps)
    have others: "mget (sc_sessions c1) x = mget (sc_sessions c) x" "mget (sc_sessions c2) x = mget (sc_sessions c) x"
      if "x \<noteq> sid" for x
      using that sid by (simp_all add: got(6) destroyed(3) map_simps)
    show ?thesis
      using s fresh gone others got(1,3,7) destroyed(2,4,6) s' td
      by (intro exI [of _ s] exI [of _ h])
        (auto simp: GetSession_def DestroyByID_def check_def split: option.splits)
  qed (simp add: s)
qed auto

text \<open>
  C35: a session whose set-up fails. \<open>Create\<close> reports the error, but the session stays in the map
  and in the wait group, keeps its Logstash controller assigned, and its id is never returned, so
  no client can destroy it; the second such failure uses up the controller: every later \<open>Create\<close>
  waits, and the shutdown's wait for the sessions does not end by itself.
\<close>

theorem failed_setup_leaks:
  assumes "sctl_inv gen c" and "inj gen"
    and "\<not> (woken \<and> sc_finished c)" and "length (sc_sessions c) \<le> 1"
    and "Get pe (sc_pool c) = (Ok h, p)"
    and "setupTest env al gen ps fs (newSession (sc_tempdir c) h (sc_noCleanup c) (sc_ordered c) (gen (sc_ids c)),
      sc_files c, Suc (sc_ids c)) = Err e"
  shows "\<exists>c1. Create woken pe env al gen ps fs c = (Created (Err e), c1) \<and>
    length (sc_sessions c1) = Suc (length (sc_sessions c)) \<and> \<not> finish_signalled c1 \<and>
    h \<in> set (p_assigned (sc_pool c1)) \<and>
    (length (sc_sessions c) = 1 \<longrightarrow>
      (\<forall>pe' env' ps' fs'. Create False pe' env' al gen ps' fs' c1 = (Waiting, c1)))"
proof -
  let ?sid = "gen (sc_ids c)"
  let ?s = "newSession (sc_tempdir c) h (sc_noCleanup c) (sc_ordered c) ?sid"
  let ?c1 = "c\<lparr>sc_pool := p, sc_ids := Suc (sc_ids c), sc_sessions := mput ?sid ?s (sc_sessions c),
    sc_wg := Suc (sc_wg c)\<rparr>"
  have F: "\<not> 1 < length (sc_sessions c)" using assms(4) by simp
  have cr: "Create woken pe env al gen ps fs c = (Created (Err e), ?c1)"
    unfolding Create_def if_not_P [OF assms(3)] if_not_P [OF F] assms(5) Let_def using assms(6) by simp
  have "?sid \<notin> gen ` {..<sc_ids c}" using assms(2) by (auto dest: injD)
  then have "?sid \<notin> set (mkeys (sc_sessions c))" using assms(1) unfolding sctl_inv_def by blast
  then have len: "length (sc_sessions ?c1) = Suc (length (sc_sessions c))"
    by (simp add: mkeys_iff length_mput)
  have "h \<in> set (p_assigned p)" using assms(5) by (cases rule: Get_cases) auto
  with cr len show ?thesis by (intro exI [of _ ?c1]) (simp add: finish_signalled_def Create_def)
qed

theorem failed_setup_leaks_witness:
  "\<exists>c1. Create False sample_env (calm_session_env\<lparr>se_io := (\<lambda>_. Some (Ext ''disk full''))\<rparr>) sample_ast
      sample_gen [] [] sample_sctl = (Created (Err (Ext ''disk full'')), c1) \<and>
    length (sc_sessions c1) = 1 \<and> \<not> finish_signalled c1"
  (is "\<exists>c1. Create False _ ?env _ _ _ _ _ = _ \<and> _")
proof -
  have st: "setupTest ?env sample_ast sample_gen [] [] (newSession (sc_tempdir sample_sctl) (Some 0)
      (sc_noCleanup sample_sctl) (sc_ordered sample_sctl) (sample_gen (sc_ids sample_sctl)),
      sc_files sample_sctl, Suc (sc_ids sample_sctl)) = Err (Ext ''disk full'')"
    by (simp add: setupTest_def check_def)
  have "\<not> (False \<and> sc_finished sample_sctl)" "length (sc_sessions sample_sctl) \<le> 1"
    by (simp_all add: sample_fields)
  from failed_setup_leaks [OF sample_inv(3,2) this sample_Get st] show ?thesis by (auto simp: sample_fields)
qed

end
