(* ===== verification/Pipeline_Archive.thy ===== *)
theory Pipeline_Archive
  imports Logstash_Config
begin

text \<open>
  \<open>internal/daemon/pipeline/pipeline.go\<close>: the archive that carries the pipelines and their
  configuration files from the client to the daemon. The bytes of a zip archive are a function
  of its entries; the writer's calls, globbing and the file system are parameters. A
  preprocessor may keep a state: the mocks that it applies are shared between the files.
\<close>

record archive =
  a_Pipelines :: "pipeline list"
  a_File :: string
  a_BasePath :: string

record zip_env =
  ze_ReadFile :: "string \<Rightarrow> string result"
  ze_Glob :: "string \<Rightarrow> string list result"
  ze_IsDir :: "string \<Rightarrow> bool result"
  ze_Getwd :: "string result"
  ze_Create :: "string \<Rightarrow> gerror option"
  ze_Write :: "string \<Rightarrow> gerror option"
  ze_Close :: "gerror option"
  ze_Bytes :: "(string \<times> string) list \<Rightarrow> string"

definition New_archive :: "zip_env \<Rightarrow> (string \<Rightarrow> pipeline list result) \<Rightarrow> string \<Rightarrow> string \<Rightarrow> archive result" where
  "New_archive env unyaml file basePath =
     rbind (ze_ReadFile env file) (\<lambda>b.
     rbind (unyaml b) (\<lambda>p.
       Ok \<lparr>a_Pipelines = processNestedKeys p, a_File = file, a_BasePath = basePath\<rparr>))"

definition config_filepath :: "archive \<Rightarrow> pipeline \<Rightarrow> string" where
  "config_filepath a p =
     (let Config = (if has_suffix (p_Config p) ''/'' then p_Config p @ ''*'' else p_Config p)
      in if isAbs Config then Config else path_join [a_BasePath a, Config])"

definition rel_file :: "zip_env \<Rightarrow> archive \<Rightarrow> string \<Rightarrow> string result" where
  "rel_file env a file =
     (if isAbs (a_BasePath a) then Ok (trim_prefix file (a_BasePath a))
      else rbind (ze_Getwd env) (\<lambda>cwd. Ok (trim_prefix file (path_join [cwd, a_BasePath a]))))"

text \<open>\<open>for id, count := range from { to[id] += count }\<close>\<close>

definition add_counts :: "(string, nat) gmap \<Rightarrow> (string, nat) gmap \<Rightarrow> (string, nat) gmap" where
  "add_counts from to =
     fold (\<lambda>(i, n) m. mput i ((case mget m i of None \<Rightarrow> 0 | Some k \<Rightarrow> k) + n) m) from to"

record 's zipping =
  z_inputs :: "(string, nat) gmap"
  z_outputs :: "(string, nat) gmap"
  z_entries :: "(string \<times> string) list"
  z_pre :: 's

type_synonym 's preprocessor = "string \<Rightarrow> 's \<Rightarrow> (string \<times> 's) result"

definition zip_file :: "zip_env \<Rightarrow> ('cfg, 'pl, 'at) ast_lib \<Rightarrow> bool \<Rightarrow> 's preprocessor \<Rightarrow> archive
    \<Rightarrow> string \<Rightarrow> 's zipping \<Rightarrow> 's zipping result" where
  "zip_file env al addMissingID preprocess a file z =
     rbind (ze_IsDir env file) (\<lambda>isdir.
       if isdir then Ok z
       else rbind (rel_file env a file) (\<lambda>relFile.
         rbind (check (ze_Create env relFile) ()) (\<lambda>_.
         rbind (ze_ReadFile env file) (\<lambda>body.
         rbind (preprocess body (z_pre z)) (\<lambda>(body, s).
         rbind (Validate al addMissingID \<lparr>f_Name = relFile, f_Body = body, f_config = None\<rparr>) (\<lambda>(in_counts, out_counts, configFile).
           check (ze_Write env relFile)
             \<lparr>z_inputs = add_counts in_counts (z_inputs z), z_outputs = add_counts out_counts (z_outputs z),
              z_entries = z_entries z @ [(relFile, f_Body configFile)], z_pre = s\<rparr>))))))"

definition zip_pipeline :: "zip_env \<Rightarrow> ('cfg, 'pl, 'at) ast_lib \<Rightarrow> bool \<Rightarrow> 's preprocessor \<Rightarrow> archive
    \<Rightarrow> pipeline \<Rightarrow> 's zipping \<Rightarrow> 's zipping result" where
  "zip_pipeline env al addMissingID preprocess a p z =
     rbind (ze_Glob env (config_filepath a p)) (\<lambda>files.
       each (zip_file env al addMissingID preprocess a) files z)"

definition ZipWithPreprocessor :: "zip_env \<Rightarrow> ('cfg, 'pl, 'at) ast_lib \<Rightarrow> bool \<Rightarrow> 's preprocessor \<Rightarrow> archive
    \<Rightarrow> 's \<Rightarrow> (string \<times> (string, nat) gmap) result" where
  "ZipWithPreprocessor env al addMissingID preprocess a s =
     rbind (check (ze_Create env ''pipelines.yml'') ()) (\<lambda>_.
     rbind (ze_ReadFile env (a_File a)) (\<lambda>body.
     rbind (check (ze_Write env ''pipelines.yml'') ()) (\<lambda>_.
     rbind (each (zip_pipeline env al addMissingID preprocess a) (a_Pipelines a)
              \<lparr>z_inputs = [], z_outputs = [], z_entries = [(''pipelines.yml'', body)], z_pre = s\<rparr>) (\<lambda>z.
     rbind (check (ze_Close env) ()) (\<lambda>_.
       if z_inputs z = [] \<or> z_outputs z = [] then
         Err (Errorf ''expect the Logstash config to have at least 1 input and 1 output, got %d inputs and %d outputs''
           [itoa (length (z_inputs z)), itoa (length (z_outputs z))])
       else Ok (ze_Bytes env (z_entries z), z_inputs z))))))"

definition NoopPreprocessor :: "'s preprocessor" where
  "NoopPreprocessor body s = Ok (body, s)"

definition ApplyMocksPreprocessor :: "('cfg, 'pl, 'at) ast_lib \<Rightarrow> 'pl mocks preprocessor" where
  "ApplyMocksPreprocessor al body m =
     rbind (ApplyMocks al m \<lparr>f_Name = [], f_Body = body, f_config = None\<rparr>) (\<lambda>(m, f). Ok (f_Body f, m))"

section \<open>Facts\<close>

lemma add_counts_get:
  "mget (add_counts cs m) i = (if i \<in> fst ` set cs \<or> mget m i \<noteq> None
     then Some ((case mget m i of None \<Rightarrow> 0 | Some k \<Rightarrow> k) + sum_list (map snd (filter (\<lambda>p. fst p = i) cs)))
     else None)"
proof (induction cs arbitrary: m)
  case (Cons p cs)
  obtain j n where p: "p = (j, n)" by (cases p)
  have "add_counts (p # cs) m = add_counts cs (mput j ((case mget m j of None \<Rightarrow> 0 | Some k \<Rightarrow> k) + n) m)"
    by (simp add: add_counts_def p)
  then show ?case using Cons.IH by (auto simp: p map_simps split: option.splits)
qed (auto simp: add_counts_def split: option.splits)

lemma add_counts_keys: "set (mkeys (add_counts cs m)) = fst ` set cs \<union> set (mkeys m)"
  by (force simp: mkeys_iff add_counts_get split: if_splits)

text \<open>
  The files that the pipelines refer to, in the order in which the archive takes them, and what
  the archive holds of one of them: its entry and its inputs and outputs.
\<close>

definition archive_files :: "zip_env \<Rightarrow> archive \<Rightarrow> string list result" where
  "archive_files env a =
     rbind (rmap (\<lambda>p. ze_Glob env (config_filepath a p)) (a_Pipelines a)) (\<lambda>fss.
       Ok (filter (\<lambda>f. ze_IsDir env f = Ok False) (concat fss)))"

type_synonym zipped = "(string \<times> string) \<times> (string, nat) gmap \<times> (string, nat) gmap"

definition zipped_file :: "zip_env \<Rightarrow> ('cfg, 'pl, 'at) ast_lib \<Rightarrow> bool \<Rightarrow> 's preprocessor \<Rightarrow> archive
    \<Rightarrow> string \<Rightarrow> zipped \<Rightarrow> bool" where
  "zipped_file env al addMissingID preprocess a file = (\<lambda>((relFile, body), ins, outs).
     rel_file env a file = Ok relFile \<and>
     (\<exists>b s b' s' f. ze_ReadFile env file = Ok b \<and> preprocess b s = Ok (b', s') \<and>
        Validate al addMissingID \<lparr>f_Name = relFile, f_Body = b', f_config = None\<rparr> = Ok (ins, outs, f) \<and>
        body = f_Body f))"

definition grown :: "'s zipping \<Rightarrow> zipped list \<Rightarrow> 's zipping \<Rightarrow> bool" where
  "grown z zs z' \<longleftrightarrow> z_entries z' = z_entries z @ map fst zs \<and>
     set (mkeys (z_inputs z')) = set (mkeys (z_inputs z)) \<union> (\<Union>x \<in> set zs. fst ` set (fst (snd x))) \<and>
     set (mkeys (z_outputs z')) = set (mkeys (z_outputs z)) \<union> (\<Union>x \<in> set zs. fst ` set (snd (snd x)))"

lemma grown_refl: "grown z [] z"
  by (simp add: grown_def)

lemma grown_trans: "grown z xs z' \<Longrightarrow> grown z' ys z'' \<Longrightarrow> grown z (xs @ ys) z''"
  by (auto simp: grown_def)

lemma zip_file_grows:
  assumes "zip_file env al add preprocess a file z = Ok z'"
  shows "\<exists>zs. grown z zs z' \<and> list_all2 (zipped_file env al add preprocess a)
    (filter (\<lambda>f. ze_IsDir env f = Ok False) [file]) zs"
proof -
  from assms obtain isdir where d: "ze_IsDir env file = Ok isdir" by (auto simp: zip_file_def)
  show ?thesis
  proof (cases isdir)
    case True
    then show ?thesis using assms d grown_refl by (intro exI [of _ "[]"]) (auto simp: zip_file_def)
  next
    case False
    with assms d obtain relFile b b' s ins outs f where
      f: "rel_file env a file = Ok relFile" "ze_ReadFile env file = Ok b" "preprocess b (z_pre z) = Ok (b', s)"
        "Validate al add \<lparr>f_Name = relFile, f_Body = b', f_config = None\<rparr> = Ok (ins, outs, f)"
      and z': "z' = \<lparr>z_inputs = add_counts ins (z_inputs z), z_outputs = add_counts outs (z_outputs z),
              z_entries = z_entries z @ [(relFile, f_Body f)], z_pre = s\<rparr>"
      by (auto simp: zip_file_def split: prod.splits)
    have "zipped_file env al add preprocess a file ((relFile, f_Body f), ins, outs)"
      using f by (auto simp: zipped_file_def)
    then show ?thesis using d False z'
      by (intro exI [of _ "[((relFile, f_Body f), ins, outs)]"]) (auto simp: grown_def add_counts_keys)
  qed
qed

lemma each_grows:
  assumes "each f xs z = Ok z'"
    and "\<And>x z z'. x \<in> set xs \<Longrightarrow> f x z = Ok z' \<Longrightarrow> \<exists>zs. grown z zs z' \<and> list_all2 R (g x) zs"
  shows "\<exists>zs. grown z zs z' \<and> list_all2 R (concat (map g xs)) zs"
  using assms
proof (induction xs arbitrary: z)
  case Nil
  then show ?case using grown_refl by auto
next
  case (Cons x xs)
  then obtain z1 where "f x z = Ok z1" "each f xs z1 = Ok z'" by auto
  with Cons.prems(2) Cons.IH obtain zs1 zs2 where "grown z zs1 z1" "list_all2 R (g x) zs1"
    "grown z1 zs2 z'" "list_all2 R (concat (map g xs)) zs2"
    by (metis list.set_intros)
  then show ?case by (intro exI [of _ "zs1 @ zs2"]) (auto intro: grown_trans list_all2_appendI)
qed

lemma filter_concat_map: "concat (map (\<lambda>x. filter P [x]) xs) = filter P xs"
  by (induction xs) auto

lemma zip_pipelines_grow:
  assumes "each (zip_pipeline env al add preprocess a) ps z = Ok z'"
  shows "\<exists>fss zs. rmap (\<lambda>p. ze_Glob env (config_filepath a p)) ps = Ok fss \<and> grown z zs z' \<and>
    list_all2 (zipped_file env al add preprocess a)
      (filter (\<lambda>f. ze_IsDir env f = Ok False) (concat fss)) zs"
  using assms
proof (induction ps arbitrary: z)
  case Nil
  then show ?case using grown_refl by (intro exI [of _ "[]"]) auto
next
  case (Cons p ps)
  from Cons.prems obtain z1 where z1: "zip_pipeline env al add preprocess a p z = Ok z1"
    and rest: "each (zip_pipeline env al add preprocess a) ps z1 = Ok z'" by auto
  from z1 obtain files where files: "ze_Glob env (config_filepath a p) = Ok files"
    and one: "each (zip_file env al add preprocess a) files z = Ok z1"
    by (auto simp: zip_pipeline_def)
  obtain zs1 where "grown z zs1 z1" "list_all2 (zipped_file env al add preprocess a)
      (filter (\<lambda>f. ze_IsDir env f = Ok False) files) zs1"
    using each_grows [OF one, where R = "zipped_file env al add preprocess a"
        and g = "\<lambda>x. filter (\<lambda>f. ze_IsDir env f = Ok False) [x]"] zip_file_grows
    unfolding filter_concat_map by blast
  with Cons.IH [OF rest] files show ?case
    by (auto intro!: exI [where P = "\<lambda>zs. grown z zs z' \<and> _ zs"] grown_trans list_all2_appendI)
qed

text \<open>What a successful archive consists of.\<close>

lemma ZipWithPreprocessor_OkE:
  assumes "ZipWithPreprocessor env al add preprocess a s = Ok (bytes, inputs)"
  obtains body files zs where "ze_ReadFile env (a_File a) = Ok body" "archive_files env a = Ok files"
    "list_all2 (zipped_file env al add preprocess a) files zs"
    "bytes = ze_Bytes env ((''pipelines.yml'', body) # map fst zs)" "inputs \<noteq> []"
    "set (mkeys inputs) = (\<Union>x \<in> set zs. fst ` set (fst (snd x)))"
proof -
  from assms obtain body z where body: "ze_ReadFile env (a_File a) = Ok body"
    and run: "each (zip_pipeline env al add preprocess a) (a_Pipelines a)
       \<lparr>z_inputs = [], z_outputs = [], z_entries = [(''pipelines.yml'', body)], z_pre = s\<rparr> = Ok z"
    and res: "bytes = ze_Bytes env (z_entries z)" "inputs = z_inputs z" "z_inputs z \<noteq> []"
    by (auto simp: ZipWithPreprocessor_def split: if_splits)
  from zip_pipelines_grow [OF run] obtain fss zs where
    "rmap (\<lambda>p. ze_Glob env (config_filepath a p)) (a_Pipelines a) = Ok fss"
    and g: "grown \<lparr>z_inputs = [], z_outputs = [], z_entries = [(''pipelines.yml'', body)], z_pre = s\<rparr> zs z"
    and zs: "list_all2 (zipped_file env al add preprocess a)
      (filter (\<lambda>f. ze_IsDir env f = Ok False) (concat fss)) zs" by blast
  then have "archive_files env a = Ok (filter (\<lambda>f. ze_IsDir env f = Ok False) (concat fss))"
    by (simp add: archive_files_def)
  with that body zs g res show ?thesis by (simp add: grown_def mkeys_def)
qed

end
