(* ===== verification/Limited_Env.thy ===== *)
theory Limited_Env
  imports Go_Strings
begin

text \<open>
  \<open>internal/logstash/env.go\<close>, the environment that a Logstash process gets, and
  \<open>internal/logstash/detectversion.go\<close>, finding Logstash's version in the output of
  \<^verbatim>\<open>logstash --version\<close>. Parsing a version number (\<open>semver\<close>) and running the command are parameters.
\<close>

section \<open>The environment\<close>

fun keepVar :: "string list \<Rightarrow> string \<Rightarrow> bool" where
  "keepVar [] varname = False"
| "keepVar (s # kept) varname = (if varname = s then True else keepVar kept varname)"

definition var_name :: "string \<Rightarrow> string" where
  "var_name keyval = before (CHR ''='') keyval"

fun kept_entries :: "string list \<Rightarrow> string list \<Rightarrow> string list \<Rightarrow> string list" where
  "kept_entries kept [] result = result"
| "kept_entries kept (keyval # vars) result =
     kept_entries kept vars (if keepVar kept (var_name keyval) then result @ [keyval] else result)"

definition GetLimitedEnvironment :: "string list \<Rightarrow> string list \<Rightarrow> string list" where
  "GetLimitedEnvironment originalVars keptVars =
     (let result = kept_entries keptVars originalVars []
      in if \<not> keepVar keptVars ''TZ'' then result @ [''TZ=UTC''] else result)"

section \<open>The version\<close>

definition lower :: "char \<Rightarrow> char" where
  "lower c = (let n = (of_char c :: nat) in if 65 \<le> n \<and> n \<le> 90 then char_of (n + 32) else c)"

definition is_space :: "char \<Rightarrow> bool" where
  "is_space c \<longleftrightarrow> (of_char c :: nat) \<in> {9, 10, 12, 13, 32}"

text \<open>
  The submatch of the expression \<^verbatim>\<open>^(?i)Logstash v?(\d+\.\S+)\<close>: after the name, letters of either
  case, and an optional \<open>v\<close>, digits, a dot and at least one character up to white space.
\<close>

definition logstashVersionRegexp :: "string \<Rightarrow> string option" where
  "logstashVersionRegexp line =
     (if map lower (take 9 line) \<noteq> ''logstash '' then None
      else (let r = drop 9 line;
                r = (case r of c # t \<Rightarrow> if lower c = CHR ''v'' then t else r | [] \<Rightarrow> r);
                digits = takeWhile is_digit r;
                tail = dropWhile is_digit r
            in case tail of
                 c # t \<Rightarrow>
                   if digits \<noteq> [] \<and> c = CHR ''.'' \<and> takeWhile (\<lambda>x. \<not> is_space x) t \<noteq> []
                   then Some (digits @ CHR ''.'' # takeWhile (\<lambda>x. \<not> is_space x) t) else None
               | [] \<Rightarrow> None))"

fun version_in :: "(string \<Rightarrow> 'v result) \<Rightarrow> string list \<Rightarrow> 'v option" where
  "version_in NewVersion [] = None"
| "version_in NewVersion (line # ls) =
     (case logstashVersionRegexp line of
        None \<Rightarrow> version_in NewVersion ls
      | Some m \<Rightarrow> (case NewVersion m of Ok v \<Rightarrow> Some v | _ \<Rightarrow> version_in NewVersion ls))"

definition parseLogstashVersionOutput :: "(string \<Rightarrow> 'v result) \<Rightarrow> string \<Rightarrow> 'v result" where
  "parseLogstashVersionOutput NewVersion processOutput =
     (case version_in NewVersion (split_on (CHR 0x0A) processOutput) of
        Some v \<Rightarrow> Ok v
      | None \<Rightarrow> Err (Errorf ''unable to find version number in output from Logstash: %s'' [processOutput]))"

text \<open>\<open>run path args env\<close> is the combined output of the command, or the error it ends with.\<close>

definition DetectVersion :: "(string \<Rightarrow> string list \<Rightarrow> string list \<Rightarrow> string result) \<Rightarrow> (string \<Rightarrow> 'v result)
    \<Rightarrow> string list \<Rightarrow> string \<Rightarrow> string list \<Rightarrow> 'v result" where
  "DetectVersion run NewVersion environ logstashPath keptEnvVars =
     (case run logstashPath [''--version''] (GetLimitedEnvironment environ keptEnvVars) of
        Ok output \<Rightarrow> parseLogstashVersionOutput NewVersion output
      | Err e \<Rightarrow> Err (Wrap (''error running '' @ logstashPath) e)
      | Panic \<Rightarrow> Panic)"

section \<open>Facts\<close>

lemma keepVar_iff: "keepVar kept v \<longleftrightarrow> v \<in> set kept"
  by (induction kept) auto

lemma kept_entries_filter:
  "kept_entries kept vars result = result @ filter (\<lambda>kv. var_name kv \<in> set kept) vars"
  by (induction vars arbitrary: result) (auto simp: keepVar_iff)

lemma GetLimitedEnvironment_eq:
  "GetLimitedEnvironment vars kept = filter (\<lambda>kv. var_name kv \<in> set kept) vars
     @ (if ''TZ'' \<in> set kept then [] else [''TZ=UTC''])"
  by (simp add: GetLimitedEnvironment_def kept_entries_filter keepVar_iff Let_def)

lemma var_name_no_eq: "CHR ''='' \<notin> set (var_name kv)"
  by (auto simp: var_name_def before_def dest: set_takeWhileD)

section \<open>Properties\<close>

text \<open>
  The environment of the process that reports Logstash's version. The daemon passes
  \<open>DetectVersion\<close> the limited environment itself where it expects the names of the variables
  to keep; names contain no equals sign, so of an environment of \<^verbatim>\<open>key=value\<close> entries nothing is
  kept: the command runs with the time zone as its only variable, whatever variables the user
  asked to keep, whereas the limited environment holds exactly the kept entries in their order.
\<close>

theorem version_environment:
  assumes "\<forall>kv \<in> set environ. CHR ''='' \<in> set kv"
  shows "DetectVersion run NewVersion environ path (GetLimitedEnvironment environ kept)
      = (case run path [''--version''] [''TZ=UTC''] of
           Ok output \<Rightarrow> parseLogstashVersionOutput NewVersion output
         | Err e \<Rightarrow> Err (Wrap (''error running '' @ path) e)
         | Panic \<Rightarrow> Panic) \<and>
    GetLimitedEnvironment environ kept
      = filter (\<lambda>kv. var_name kv \<in> set kept) environ @ (if ''TZ'' \<in> set kept then [] else [''TZ=UTC''])"
proof -
  let ?env = "GetLimitedEnvironment environ kept"
  have "\<forall>kv \<in> set ?env. CHR ''='' \<in> set kv"
    using assms by (auto simp: GetLimitedEnvironment_eq)
  then have "var_name kv \<notin> set ?env" for kv using var_name_no_eq by blast
  moreover have "''TZ'' \<notin> set ?env" using \<open>\<forall>kv \<in> set ?env. CHR ''='' \<in> set kv\<close> by force
  ultimately have "GetLimitedEnvironment environ ?env = [''TZ=UTC'']"
    by (subst GetLimitedEnvironment_eq) simp
  then show ?thesis by (simp add: DetectVersion_def GetLimitedEnvironment_eq)
qed

theorem version_environment_witness:
  "DetectVersion (\<lambda>path args env. Ok (concat env)) (\<lambda>v. Ok v) [''PATH=/bin'', ''A=b''] ''ls''
      (GetLimitedEnvironment [''PATH=/bin'', ''A=b''] [''PATH''])
    = parseLogstashVersionOutput (\<lambda>v. Ok v) ''TZ=UTC'' \<and>
   GetLimitedEnvironment [''PATH=/bin'', ''A=b''] [''PATH''] = [''PATH=/bin'', ''TZ=UTC'']"
  using version_environment [of "[''PATH=/bin'', ''A=b'']" "\<lambda>path args env. Ok (concat env)" "\<lambda>v. Ok v" "''ls''" "[''PATH'']"]
  by (simp add: var_name_def before_def) (elim conjE, simp)

lemma version_example:
  "parseLogstashVersionOutput Ok (''Using java'' @ [CHR 0x0A] @ ''logstash 7.10.2'') = Ok ''7.10.2''"
  by code_simp

end
