(* ===== verification/Daemon.thy ===== *)
theory Daemon
  imports Session_Controller Pipeline_Archive Limited_Env Instance_Log
begin

text \<open>
  \<open>internal/app/daemon/daemon.go\<close>: the daemon's start, the handlers of its calls and its
  shutdown. The handlers work on the state of the session controller; the gRPC server, the zip
  reader, the decoders, the operating system's signals and the timers are parameters. The
  handlers' locks are the session controller's and the pool's.
\<close>

record daemon =
  d_socket :: string
  d_logstashPath :: string
  d_keptEnvVars :: "string list"
  d_tempdir :: string
  d_inflightShutdownTimeout :: int
  d_shutdownTimeout :: int
  d_waitForStateTimeout :: int
  d_waitForLateArrivalsTimeout :: int
  d_noCleanup :: bool
  d_shutdownSignal :: bool
  d_sessions :: sctl

section \<open>Starting\<close>

text \<open>
  The factory of Logstash controllers: the number counts what the shutdown has to wait for. The
  instance's goroutine that handles the shutdown takes one off; without it nobody does.
\<close>

record factory_io =
  fa_ctl :: ctl_io
  fa_mkdir :: "gerror option"
  fa_ident :: string
  fa_order :: "(string \<times> string) list"
  fa_start :: start_io

definition logstashControllerFactory :: "factory_io \<Rightarrow> string \<Rightarrow> bool \<Rightarrow> bool \<Rightarrow> nat
    \<Rightarrow> (ctrl \<times> instance_state) result \<times> instance_state \<times> nat" where
  "logstashControllerFactory io tempdir ordered ctxDone wg =
     (let wg = wg + 1; inst = new_instance
      in case NewController (fa_ctl io) (fa_mkdir io) (fa_ident io) tempdir ordered (fa_order io) of
           Err e \<Rightarrow> (Err e, inst, wg)
         | Panic \<Rightarrow> (Panic, inst, wg)
         | Ok c \<Rightarrow>
             (let (startErr, inst) = Start (fa_start io) (c_workDir c) inst
              in case Launch ctxDone startErr c of
                   (Some e, c) \<Rightarrow> (Err e, inst, wg)
                 | (None, c) \<Rightarrow> (Ok (c, inst), inst, wg)))"

text \<open>The instance's \<open>shutdownSignalHandler\<close>, run when its context is done and its readers have ended.\<close>

definition instance_shutdown :: "instance_state \<Rightarrow> nat \<Rightarrow> instance_state \<times> nat" where
  "instance_shutdown i wg =
     (if ShutdownHandler \<in> set (in_goroutines i) \<and> in_shutdown i
      then (stopLogstash (i\<lparr>in_wg := 0, in_goroutines := []\<rparr>), wg - 1) else (i, wg))"

text \<open>What \<open>Run\<close> finds when it starts the daemon, up to the call of the shutdown handler.\<close>

record 'v run_io =
  ru_MkdirTemp :: "string result"
  ru_environ :: "string list"
  ru_run :: "string \<Rightarrow> string list \<Rightarrow> string list \<Rightarrow> string result"
  ru_NewVersion :: "string \<Rightarrow> 'v result"
  ru_at_least :: "'v \<Rightarrow> string \<Rightarrow> bool"
  ru_pool :: pool_env
  ru_Listen :: "gerror option"

definition New_daemon :: "string \<Rightarrow> string \<Rightarrow> string list \<Rightarrow> int \<Rightarrow> int \<Rightarrow> int \<Rightarrow> bool \<Rightarrow> int \<Rightarrow> sctl \<Rightarrow> daemon" where
  "New_daemon socket logstashPath keptEnvVars inflightShutdownTimeout shutdownTimeout waitForStateTimeout noCleanup
      waitForLateArrivalsTimeout nil_sessions =
     \<lparr>d_socket = socket, d_logstashPath = logstashPath, d_keptEnvVars = keptEnvVars, d_tempdir = [],
      d_inflightShutdownTimeout = inflightShutdownTimeout, d_shutdownTimeout = shutdownTimeout,
      d_waitForStateTimeout = waitForStateTimeout, d_waitForLateArrivalsTimeout = waitForLateArrivalsTimeout,
      d_noCleanup = noCleanup, d_shutdownSignal = False, d_sessions = nil_sessions\<rparr>"

definition Run_daemon :: "'v run_io \<Rightarrow> daemon \<Rightarrow> unit result \<times> daemon" where
  "Run_daemon io d =
     (case ru_MkdirTemp io of
        Err e \<Rightarrow> (Err e, d)
      | Panic \<Rightarrow> (Panic, d)
      | Ok tempdir \<Rightarrow>
          (let d = d\<lparr>d_tempdir := tempdir\<rparr>;
               env = GetLimitedEnvironment (ru_environ io) (d_keptEnvVars d)
           in case rbind (DetectVersion (ru_run io) (ru_NewVersion io) (ru_environ io) (d_logstashPath d) env) (\<lambda>v.
                   rbind (new_pool (ru_pool io) 2) (\<lambda>pool. Ok (v, pool))) of
                Err e \<Rightarrow> (Err e, d)
              | Panic \<Rightarrow> (Panic, d)
              | Ok (v, pool) \<Rightarrow>
                  (check (ru_Listen io) (),
                   d\<lparr>d_sessions := new_sctl tempdir pool (d_noCleanup d) (ru_at_least io v ''v7.7.0'')\<rparr>)))"

section \<open>The handlers\<close>

definition Shutdown_call :: "daemon \<Rightarrow> unit result \<times> daemon" where
  "Shutdown_call d =
     (if d_shutdownSignal d then (Err (Errorf ''daemon is already shutting down'' []), d)
      else (Ok (), d\<lparr>d_shutdownSignal := True\<rparr>))"

text \<open>An entry of the archive: its name, and what opening, reading and closing it yields.\<close>

record zip_entry =
  ent_Name :: string
  ent_Open :: "gerror option"
  ent_Body :: "string result"
  ent_Close :: "gerror option"

definition extract_entry :: "(string \<Rightarrow> pipeline list \<Rightarrow> pipeline list result) \<Rightarrow> zip_entry
    \<Rightarrow> pipeline list \<times> 'cfg config_file list \<Rightarrow> (pipeline list \<times> 'cfg config_file list) result" where
  "extract_entry unyaml f = (\<lambda>(pipelines, configFiles).
     rbind (check (ent_Open f) ()) (\<lambda>_.
       (let r = rbind (ent_Body f) (\<lambda>body.
              if ent_Name f = ''pipelines.yml''
              then rbind (unyaml body pipelines) (\<lambda>pipelines. Ok (pipelines, configFiles))
              else Ok (pipelines, configFiles @ [\<lparr>f_Name = ent_Name f, f_Body = body, f_config = None\<rparr>]))
        in case ent_Close f of
             None \<Rightarrow> r
           | Some errClose \<Rightarrow>
               (case r of Panic \<Rightarrow> Panic
                | _ \<Rightarrow> Err (Wrap ''failed to close file, underlying error: %v'' errClose)))))"

definition extractZip :: "(string \<Rightarrow> zip_entry list result) \<Rightarrow> (string \<Rightarrow> pipeline list \<Rightarrow> pipeline list result)
    \<Rightarrow> string \<Rightarrow> (pipeline list \<times> 'cfg config_file list) result" where
  "extractZip unzip unyaml input =
     rbind (unzip input) (\<lambda>fs. each (extract_entry unyaml) fs ([], []))"

text \<open>
  What a handler gets from outside: beside the session's environment the zip reader, the decoders,
  the outcome of the controller's \<open>GetResults\<close>, and of the teardown of a session.
\<close>

record handler_env =
  h_unzip :: "string \<Rightarrow> zip_entry list result"
  h_unyaml :: "string \<Rightarrow> pipeline list \<Rightarrow> pipeline list result"
  h_unjson :: "string \<Rightarrow> fields list result"
  h_results :: "string list \<times> gerror option"
  h_tdErr :: "gerror option"
  h_rmErr :: "gerror option"

text \<open>\<open>SetupTest\<close>: \<open>None\<close> while the session controller's \<open>Create\<close> waits for a session to end.\<close>

definition SetupTest :: "handler_env \<Rightarrow> bool \<Rightarrow> pool_env \<Rightarrow> session_env \<Rightarrow> ('cfg, 'pl, 'at) ast_lib \<Rightarrow> (nat \<Rightarrow> string)
    \<Rightarrow> string \<Rightarrow> daemon \<Rightarrow> string result option \<times> daemon" where
  "SetupTest h woken pe se al gen pipeline d =
     (if \<not> woken \<and> d_shutdownSignal d
      then (Some (Err (Errorf ''daemon is shutting down, no new sessions accepted'' [])), d)
      else (case extractZip (h_unzip h) (h_unyaml h) pipeline of
              Err e \<Rightarrow> (Some (Err e), d)
            | Panic \<Rightarrow> (Some Panic, d)
            | Ok (pipelines, configFiles) \<Rightarrow>
                (case Create woken pe se al gen pipelines configFiles (d_sessions d) of
                   (Waiting, c) \<Rightarrow> (None, d\<lparr>d_sessions := c\<rparr>)
                 | (Created r, c) \<Rightarrow> (Some r, d\<lparr>d_sessions := c\<rparr>))))"

definition destroy_session :: "handler_env \<Rightarrow> string \<Rightarrow> daemon \<Rightarrow> unit result \<times> daemon" where
  "destroy_session h sid d =
     (case DestroyByID (h_tdErr h) (h_rmErr h) sid (d_sessions d) of (r, c) \<Rightarrow> (r, d\<lparr>d_sessions := c\<rparr>))"

text \<open>
  \<open>ExecuteTest\<close>. From the lookup of the session on, the deferred call destroys the session when an
  error is returned; an error of \<open>GetResults\<close> is only logged. The number of expected events is an
  \<open>int32\<close>.
\<close>

definition ExecuteTest_call :: "handler_env \<Rightarrow> session_env \<Rightarrow> string \<Rightarrow> string \<Rightarrow> string list \<Rightarrow> string \<Rightarrow> int
    \<Rightarrow> daemon \<Rightarrow> string list result \<times> daemon" where
  "ExecuteTest_call h se sid inputPlugin inputLines evs expectedEvents d =
     (case GetSession sid (d_sessions d) of
        Err e \<Rightarrow> (Err (Wrap ''invalid session ID'' e), d)
      | Panic \<Rightarrow> (Panic, d)
      | Ok s \<Rightarrow>
          (case h_unjson h evs of
             Err e \<Rightarrow> (Err (Wrap ''invalid json for fields'' e), snd (destroy_session h sid d))
           | Panic \<Rightarrow> (Panic, d)
           | Ok inEvents \<Rightarrow>
               (case run_session se inputPlugin inputLines inEvents expectedEvents sid (d_sessions d) of
                  (Err e, c) \<Rightarrow> (Err e, snd (destroy_session h sid (d\<lparr>d_sessions := c\<rparr>)))
                | (Panic, c) \<Rightarrow> (Panic, d\<lparr>d_sessions := c\<rparr>)
                | (Ok ps, c) \<Rightarrow> (Ok (fst (h_results h)), d\<lparr>d_sessions := c\<rparr>))))"

definition TeardownTest :: "handler_env \<Rightarrow> string \<Rightarrow> daemon \<Rightarrow> unit result \<times> daemon" where
  "TeardownTest h sid d =
     (case destroy_session h sid d of
        (Ok _, d) \<Rightarrow> (Ok (), d)
      | (Err e, d) \<Rightarrow> (Err (Wrap ''destroy of session failed'' e), d)
      | (Panic, d) \<Rightarrow> (Panic, d))"

definition Cleanup :: "daemon \<Rightarrow> string option" where
  "Cleanup d = (if d_noCleanup d then None else Some (d_tempdir d))"

section \<open>Shutting down\<close>

text \<open>
  \<open>shutdownSignalHandler\<close> as a function of what its \<open>select\<close> statements receive: the cause of the
  shutdown, the end of the wait for the running sessions, and the events of the final loop. The
  result lists what the handler does and, once it returns, whether it exits at once. A list of
  events that ends too early leaves it waiting.
\<close>

datatype shutdown_cause = ShutdownCall | InterruptSignal | TermSignal

datatype inflight_end = SessionsFinished | InflightTimeout | SecondInterrupt

datatype stop_event = ShutdownTimeout | ServerStopped | InstancesStopped | Interrupt

datatype shutdown_action = ShutdownContext | GracefulStop | ServerStop | KillInstances | RemoveSocket

fun stop_loop :: "bool \<Rightarrow> bool \<Rightarrow> stop_event list \<Rightarrow> shutdown_action list \<times> bool option" where
  "stop_loop serverStopComplete instanceStopComplete [] =
     ([], if serverStopComplete \<and> instanceStopComplete then Some False else None)"
| "stop_loop serverStopComplete instanceStopComplete (e # es) =
     (if serverStopComplete \<and> instanceStopComplete then ([], Some False)
      else (case e of
          ShutdownTimeout \<Rightarrow> (let (as, r) = stop_loop True True es in (ServerStop # as, r))
        | ServerStopped \<Rightarrow> stop_loop True instanceStopComplete es
        | InstancesStopped \<Rightarrow> stop_loop serverStopComplete True es
        | Interrupt \<Rightarrow> ([], Some True)))"

definition deferred :: "bool \<Rightarrow> shutdown_action list" where
  "deferred hardExit = KillInstances # (if hardExit then [RemoveSocket] else [])"

definition shutdownSignalHandler :: "shutdown_cause \<Rightarrow> inflight_end \<Rightarrow> stop_event list \<Rightarrow> daemon
    \<Rightarrow> shutdown_action list \<times> bool option \<times> daemon" where
  "shutdownSignalHandler cause inflight es d =
     (let d = d\<lparr>d_sessions := WaitFinish (d_sessions d)\<rparr>
      in if inflight = SecondInterrupt then (deferred True, Some True, d)
         else (case stop_loop False False es of
                 (as, None) \<Rightarrow> ([ShutdownContext, GracefulStop] @ as, None, d)
               | (as, Some hardExit) \<Rightarrow>
                   ([ShutdownContext, GracefulStop] @ as @ deferred hardExit, Some hardExit, d)))"

section \<open>Facts\<close>

lemma stop_loop_result:
  "snd (stop_loop srv ins es) = None \<longleftrightarrow>
     ShutdownTimeout \<notin> set es \<and> Interrupt \<notin> set es \<and>
     \<not> ((srv \<or> ServerStopped \<in> set es) \<and> (ins \<or> InstancesStopped \<in> set es))"
proof (induction es arbitrary: srv ins)
  case (Cons e es)
  have "snd (stop_loop True True es) = Some False" by (cases es) auto
  with Cons show ?case by (cases e) (auto split: prod.splits)
qed auto

lemma stop_loop_actions: "set (fst (stop_loop srv ins es)) \<subseteq> {ServerStop}"
  by (induction srv ins es rule: stop_loop.induct) (auto split: stop_event.splits prod.splits)

lemma stop_loop_hard: "snd (stop_loop srv ins es) = Some True \<Longrightarrow> Interrupt \<in> set es"
  by (induction srv ins es rule: stop_loop.induct)
     (auto split: stop_event.splits prod.splits if_splits)

text \<open>The entries of an archive as the zip reader presents them when nothing fails.\<close>

definition plain_entry :: "string \<times> string \<Rightarrow> zip_entry" where
  "plain_entry = (\<lambda>(name, body). \<lparr>ent_Name = name, ent_Open = None, ent_Body = Ok body, ent_Close = None\<rparr>)"

definition entry_file :: "string \<times> string \<Rightarrow> 'cfg config_file" where
  "entry_file = (\<lambda>(name, body). \<lparr>f_Name = name, f_Body = body, f_config = None\<rparr>)"

lemma extract_plain:
  assumes "\<forall>(name, body) \<in> set es. name \<noteq> ''pipelines.yml''"
  shows "each (extract_entry unyaml) (map plain_entry es) (ps, fs) = Ok (ps, fs @ map entry_file es)"
  using assms
proof (induction es arbitrary: fs)
  case (Cons e es)
  then show ?case
    by (cases e) (simp add: extract_entry_def plain_entry_def entry_file_def)
qed simp

lemma run_session_known:
  "run_session se inputPlugin ls es n sid c = (r, c') \<Longrightarrow> mget (sc_sessions c) sid = Some s \<Longrightarrow>
   \<exists>s'. sc_sessions c' = mput sid s' (sc_sessions c) \<and> sc_wg c' = sc_wg c \<and> sc_pool c' = sc_pool c \<and>
     s_logstashController s' = s_logstashController s \<and> s_testexec s' = Suc (s_testexec s) \<and>
     s_noCleanup s' = s_noCleanup s"
  unfolding run_session_def ExecuteTest_def
  by (auto simp: Let_def split: result.splits prod.splits)

lemma GetSession_known: "mget (sc_sessions c) sid = Some s \<Longrightarrow> GetSession sid c = Ok s"
  by (simp add: GetSession_def)

lemma teardown_cong: "s_noCleanup s' = s_noCleanup s \<Longrightarrow> teardown tdErr rmErr s' = teardown tdErr rmErr s"
  by (simp add: teardown_def)

text \<open>Destroying a session that exists.\<close>

lemma destroy_session_known:
  assumes "mget (sc_sessions (d_sessions d)) sid = Some s" and "0 < sc_wg (d_sessions d)"
  shows "fst (destroy_session h sid d) = check (teardown (h_tdErr h) (h_rmErr h) s) ()"
    "sc_sessions (d_sessions (snd (destroy_session h sid d))) = mdel sid (sc_sessions (d_sessions d))"
    "Suc (sc_wg (d_sessions (snd (destroy_session h sid d)))) = sc_wg (d_sessions d)"
    "sc_pool (d_sessions (snd (destroy_session h sid d)))
      = Return (s_logstashController s) (teardown (h_tdErr h) (h_rmErr h) s = None) (sc_pool (d_sessions d))"
  using assms by (simp_all add: destroy_session_def DestroyByID_def Let_def)

text \<open>What is left when the session \<open>sid\<close> of \<open>d\<close>, which was \<open>s\<close>, has been destroyed.\<close>

definition session_destroyed :: "handler_env \<Rightarrow> string \<Rightarrow> session \<Rightarrow> daemon \<Rightarrow> daemon \<Rightarrow> bool" where
  "session_destroyed h sid s d d' \<longleftrightarrow>
     GetSession sid (d_sessions d') = Err (no_session sid) \<and>
     (\<forall>sid'. sid' \<noteq> sid \<longrightarrow> GetSession sid' (d_sessions d') = GetSession sid' (d_sessions d)) \<and>
     Suc (sc_wg (d_sessions d')) = sc_wg (d_sessions d) \<and>
     sc_pool (d_sessions d') = Return (s_logstashController s) (teardown (h_tdErr h) (h_rmErr h) s = None)
       (sc_pool (d_sessions d))"

lemma destroy_after_run:
  assumes "mget (sc_sessions (d_sessions d)) sid = Some s" and "0 < sc_wg (d_sessions d)"
    and "sc_sessions c = mput sid s' (sc_sessions (d_sessions d)) \<or> c = d_sessions d \<and> s' = s"
    and "sc_wg c = sc_wg (d_sessions d)" "sc_pool c = sc_pool (d_sessions d)"
    and "s_logstashController s' = s_logstashController s" "s_noCleanup s' = s_noCleanup s"
  shows "session_destroyed h sid s d (snd (destroy_session h sid (d\<lparr>d_sessions := c\<rparr>)))"
proof -
  let ?d = "d\<lparr>d_sessions := c\<rparr>"
  have "mget (sc_sessions (d_sessions ?d)) sid = Some s'" "0 < sc_wg (d_sessions ?d)"
    using assms by (auto simp: map_simps)
  note D = destroy_session_known [OF this, of h]
  show ?thesis
    using D assms(3-6) teardown_cong [OF assms(7)]
    by (auto simp: session_destroyed_def GetSession_def map_simps)
qed

lemma teardown_after_destroy:
  "session_destroyed h sid s d d' \<Longrightarrow>
   fst (TeardownTest h' sid d') = Err (Wrap ''destroy of session failed'' (no_session sid))"
  by (auto simp: session_destroyed_def TeardownTest_def destroy_session_def DestroyByID_def GetSession_def
      no_session_def split: option.splits)

text \<open>A new call of \<open>Create\<close> that does not have to wait does not look at the shutdown.\<close>

lemma Create_not_waiting:
  assumes "\<not> 1 < length (sc_sessions c)"
  shows "fst (Create False pe se al gen ps fs (WaitFinish c)) = fst (Create False pe se al gen ps fs c)"
  using assms unfolding Create_def WaitFinish_def
  by (auto simp: Let_def split: prod.splits result.splits)

lemma SetupTest_answer:
  "\<not> d_shutdownSignal d \<Longrightarrow> fst (SetupTest h False pe se al gen pipeline d) =
     (case extractZip (h_unzip h) (h_unyaml h) pipeline of
        Err e \<Rightarrow> Some (Err e)
      | Panic \<Rightarrow> Some Panic
      | Ok (ps, fs) \<Rightarrow> (case fst (Create False pe se al gen ps fs (d_sessions d)) of
            Waiting \<Rightarrow> None | Created r \<Rightarrow> Some r))"
  unfolding SetupTest_def by (auto split: result.splits prod.splits create_outcome.splits)

text \<open>The session \<open>sid\<close> is still there, with the same count of sessions and no other one changed.\<close>

definition session_kept :: "string \<Rightarrow> daemon \<Rightarrow> daemon \<Rightarrow> bool" where
  "session_kept sid d d' \<longleftrightarrow> mget (sc_sessions (d_sessions d')) sid \<noteq> None \<and>
     (\<forall>sid'. sid' \<noteq> sid \<longrightarrow> GetSession sid' (d_sessions d') = GetSession sid' (d_sessions d)) \<and>
     sc_wg (d_sessions d') = sc_wg (d_sessions d)"

lemma execute_call:
  assumes "mget (sc_sessions (d_sessions d)) sid = Some s" and "0 < sc_wg (d_sessions d)"
    and "ExecuteTest_call h se sid inputPlugin ls evs n d = (r, d')"
  shows "(\<not> (\<exists>e. r = Err e) \<longrightarrow> session_kept sid d d') \<and> (\<forall>results. r = Ok results \<longrightarrow> results = fst (h_results h) \<and>
      (\<exists>s'. GetSession sid (d_sessions d') = Ok s' \<and> s_testexec s' = Suc (s_testexec s) \<and>
        s_logstashController s' = s_logstashController s) \<and> sc_wg (d_sessions d') = sc_wg (d_sessions d)) \<and>
    (\<forall>e. r = Err e \<longrightarrow> session_destroyed h sid s d d' \<and>
      fst (TeardownTest h sid d') = Err (Wrap ''destroy of session failed'' (no_session sid)))"
proof (cases "h_unjson h evs")
  case (Ok inEvents)
  obtain q c where run: "run_session se inputPlugin ls inEvents n sid (d_sessions d) = (q, c)" by fastforce
  then obtain s' where s': "sc_sessions c = mput sid s' (sc_sessions (d_sessions d))"
    "sc_wg c = sc_wg (d_sessions d)" "sc_pool c = sc_pool (d_sessions d)"
    "s_logstashController s' = s_logstashController s" "s_testexec s' = Suc (s_testexec s)"
    "s_noCleanup s' = s_noCleanup s"
    using run_session_known [OF run assms(1)] by blast
  note call = assms(3) [unfolded ExecuteTest_call_def GetSession_known [OF assms(1)] result.case Ok run prod.case]
  show ?thesis
  proof (cases q)
    case (Ok ps)
    with call have "r = Ok (fst (h_results h))" "d' = d\<lparr>d_sessions := c\<rparr>" by auto
    then show ?thesis using s' by (simp add: GetSession_def map_simps session_kept_def)
  next
    case (Err e)
    have "session_destroyed h sid s d (snd (destroy_session h sid (d\<lparr>d_sessions := c\<rparr>)))"
      using destroy_after_run [OF assms(1,2)] s' by blast
    with Err call show ?thesis by (auto intro: teardown_after_destroy)
  next
    case Panic
    with call s' show ?thesis by (auto simp: session_kept_def GetSession_def map_simps)
  qed
next
  case (Err e)
  have "session_destroyed h sid s d (snd (destroy_session h sid (d\<lparr>d_sessions := d_sessions d\<rparr>)))"
    using destroy_after_run [OF assms(1,2)] by blast
  then have "session_destroyed h sid s d (snd (destroy_session h sid d))" by simp
  with Err assms(1,3) show ?thesis
    by (auto simp: ExecuteTest_call_def GetSession_known intro: teardown_after_destroy)
qed (use assms(1,3) in \<open>auto simp: ExecuteTest_call_def GetSession_known session_kept_def\<close>)

section \<open>A small example\<close>

text \<open>An archive format: each string is preceded by its length in unary.\<close>

definition enc_str :: "string \<Rightarrow> string" where
  "enc_str s = replicate (length s) (CHR ''1'') @ CHR ''0'' # s"

definition dec_str :: "string \<Rightarrow> string \<times> string" where
  "dec_str s = (let n = length (takeWhile (\<lambda>c. c = CHR ''1'') s); r = drop (Suc n) s
     in (take n r, drop n r))"

fun enc_entries :: "(string \<times> string) list \<Rightarrow> string" where
  "enc_entries [] = []"
| "enc_entries ((n, b) # es) = enc_str n @ enc_str b @ enc_entries es"

fun dec_entries :: "nat \<Rightarrow> string \<Rightarrow> (string \<times> string) list" where
  "dec_entries 0 s = []"
| "dec_entries (Suc k) s =
     (if s = [] then [] else let (n, s) = dec_str s; (b, s) = dec_str s in (n, b) # dec_entries k s)"

definition sample_unzip :: "string \<Rightarrow> zip_entry list result" where
  "sample_unzip s = Ok (map plain_entry (dec_entries (length s) s))"

lemma dec_enc_str [simp]: "dec_str (enc_str s @ t) = (s, t)"
proof -
  have "takeWhile (\<lambda>c. c = CHR ''1'') (enc_str s @ t) = replicate (length s) (CHR ''1'')"
    by (simp add: enc_str_def takeWhile_append)
  then show ?thesis by (simp add: dec_str_def Let_def) (simp add: enc_str_def)
qed

lemma dec_enc_entries: "length es \<le> k \<Longrightarrow> dec_entries k (enc_entries es) = es"
proof (induction k arbitrary: es)
  case (Suc k)
  then show ?case by (cases es rule: enc_entries.cases) (auto simp: enc_str_def [of "[]"] dec_enc_str, simp_all add: enc_str_def)
qed simp

lemma enc_entries_length: "length es \<le> length (enc_entries es)"
  by (induction es rule: enc_entries.induct) (auto simp: enc_str_def)

lemma sample_unzip_entries: "sample_unzip (enc_entries es) = Ok (map plain_entry es)"
  by (simp add: sample_unzip_def dec_enc_entries enc_entries_length)

definition sample_zip_env :: zip_env where
  "sample_zip_env = \<lparr>ze_ReadFile = (\<lambda>p. Ok ''body''), ze_Glob = (\<lambda>p. Ok [p]), ze_IsDir = (\<lambda>p. Ok False),
     ze_Getwd = Ok ''/'', ze_Create = (\<lambda>_. None), ze_Write = (\<lambda>_. None), ze_Close = None,
     ze_Bytes = enc_entries\<rparr>"

definition sample_parsed :: "(plugin_type \<Rightarrow> sample_plugin list, sample_plugin, string \<times> string) ast_lib" where
  "sample_parsed = sample_ast\<lparr>al_parse := (\<lambda>name body. Ok (Some
     (\<lambda>sec. if sec = Input then [(''stdin'', [Some (''id'', ''in'')])]
       else if sec = Output then [(''stdout'', [Some (''id'', ''out'')])] else [])))\<rparr>"

definition sample_archive :: archive where
  "sample_archive = \<lparr>a_Pipelines = [mk_pipeline ''main'' ''main.conf'' 1], a_File = ''/b/pipelines.yml'', a_BasePath = ''/b''\<rparr>"

definition sample_daemon :: daemon where
  "sample_daemon = New_daemon ''/socket'' ''/logstash'' [] 10 3 30 False 1
     (sample_sctl\<lparr>sc_sessions := [(''s'', newSession ''/tmp'' (Some 0) False True ''s'')], sc_wg := 1\<rparr>)"

definition sample_handler :: handler_env where
  "sample_handler = \<lparr>h_unzip = sample_unzip, h_unyaml = (\<lambda>b old. Ok [mk_pipeline ''main'' ''main.conf'' 1]),
     h_unjson = (\<lambda>s. if s = [] then Err (Ext ''eof'') else Ok []), h_results = ([''event''], None),
     h_tdErr = None, h_rmErr = None\<rparr>"

section \<open>Properties\<close>

text \<open>
  C31: the pipelines on their way from the client to the daemon. When the client has built an
  archive and the zip reader returns the entries that were written, the daemon extracts the
  pipelines that the pipelines file describes and one configuration file for each file that the
  client's pipelines refer to, in their order, named relative to the base path and with the body
  that the client's preprocessing and validation produced; the client knows the inputs of
  exactly these files. The client's own pipelines are those that the daemon gets with the nested
  keys processed: the daemon does not process them. This is for an archive in which no
  configuration file has exactly the name \<open>pipelines.yml\<close> of the pipelines file.
\<close>

theorem archive_arrives:
  fixes al :: "('cfg, 'pl, 'at) ast_lib"
  assumes "New_archive env (\<lambda>b. unyaml b []) file basePath = Ok a"
    and "ZipWithPreprocessor env al addMissingID preprocess a s = Ok (bytes, inputs)"
    and "\<forall>es. unzip (ze_Bytes env es) = Ok (map plain_entry es)"
    and "\<forall>files. archive_files env a = Ok files \<longrightarrow> (\<forall>f \<in> set files. rel_file env a f \<noteq> Ok ''pipelines.yml'')"
  shows "\<exists>ps files zs. extractZip unzip unyaml bytes = Ok (ps, map (\<lambda>z. entry_file (fst z)) zs) \<and>
    archive_files env a = Ok files \<and> list_all2 (zipped_file env al addMissingID preprocess a) files zs \<and>
    a_Pipelines a = processNestedKeys ps \<and>
    inputs \<noteq> [] \<and> set (mkeys inputs) = (\<Union>z \<in> set zs. fst ` set (fst (snd z)))"
proof -
  from assms(1) obtain body ps where body: "ze_ReadFile env file = Ok body" and ps: "unyaml body [] = Ok ps"
    and a: "a_Pipelines a = processNestedKeys ps" "a_File a = file"
    by (auto simp: New_archive_def)
  from assms(2) obtain body' files zs where body': "ze_ReadFile env (a_File a) = Ok body'"
    and files: "archive_files env a = Ok files"
    and zs: "list_all2 (zipped_file env al addMissingID preprocess a) files zs"
    and bytes: "bytes = ze_Bytes env ((''pipelines.yml'', body') # map fst zs)"
    and inputs: "inputs \<noteq> []" "set (mkeys inputs) = (\<Union>x \<in> set zs. fst ` set (fst (snd x)))"
    by (rule ZipWithPreprocessor_OkE)
  have "\<forall>f \<in> set files. rel_file env a f \<noteq> Ok ''pipelines.yml''" using assms(4) files by blast
  with zs have names: "\<forall>(name, body) \<in> set (map fst zs). name \<noteq> ''pipelines.yml''"
    by (induction rule: list_all2_induct) (auto simp: zipped_file_def)
  have "unzip bytes = Ok (map plain_entry ((''pipelines.yml'', body') # map fst zs))"
    using assms(3) bytes by simp
  moreover have "extract_entry unyaml (plain_entry (''pipelines.yml'', body')) ([], []) = Ok (ps, [])"
    using body body' ps a(2) by (simp add: extract_entry_def plain_entry_def)
  ultimately have "extractZip unzip unyaml bytes = Ok (ps, map entry_file (map fst zs))"
    using extract_plain [OF names, of unyaml ps "[]"] by (auto simp: extractZip_def)
  then show ?thesis
    using files zs a inputs by (intro exI [of _ ps] exI [of _ files] exI [of _ zs]) (simp add: comp_def)
qed

theorem archive_arrives_witness:
  "\<exists>bytes inputs ps fs. ZipWithPreprocessor sample_zip_env sample_parsed False NoopPreprocessor sample_archive ()
      = Ok (bytes, inputs) \<and> mkeys inputs = [''in''] \<and>
    extractZip sample_unzip (\<lambda>b old. Ok [mk_pipeline ''main'' ''main.conf'' 1]) bytes
      = Ok (ps, fs :: unit config_file list)"
proof -
  let ?unyaml = "\<lambda>b old. Ok [mk_pipeline ''main'' ''main.conf'' 1]"
  have new: "New_archive sample_zip_env (\<lambda>b. ?unyaml b []) ''/b/pipelines.yml'' ''/b'' = Ok sample_archive"
    by (simp add: New_archive_def sample_zip_env_def sample_archive_def processNestedKeys_def
        nested_string_def mk_pipeline_def)
  have "(case ZipWithPreprocessor sample_zip_env sample_parsed False NoopPreprocessor sample_archive () of
      Ok (bytes, inputs) \<Rightarrow> mkeys inputs | _ \<Rightarrow> []) = [''in'']" by code_simp
  then obtain bytes inputs where
    zip: "ZipWithPreprocessor sample_zip_env sample_parsed False NoopPreprocessor sample_archive () = Ok (bytes, inputs)"
    and keys: "mkeys inputs = [''in'']" by (auto split: result.splits prod.splits)
  have unzip: "\<forall>es. sample_unzip (ze_Bytes sample_zip_env es) = Ok (map plain_entry es)"
    by (simp add: sample_zip_env_def sample_unzip_entries)
  have "archive_files sample_zip_env sample_archive = Ok [''/b/main.conf'']"
    and "rel_file sample_zip_env sample_archive ''/b/main.conf'' = Ok ''/main.conf''" by code_simp+
  then have names: "\<forall>files. archive_files sample_zip_env sample_archive = Ok files \<longrightarrow>
      (\<forall>f \<in> set files. rel_file sample_zip_env sample_archive f \<noteq> Ok ''pipelines.yml'')" by simp
  obtain ps and fs :: "unit config_file list" where "extractZip sample_unzip ?unyaml bytes = Ok (ps, fs)"
    using archive_arrives [where unyaml = ?unyaml, OF new zip unzip names] by (elim exE conjE) (rule that)
  with zip keys show ?thesis by blast
qed



text \<open>
  C38: the shutdown. Whatever signal starts it and however its waits end, the sessions' end is
  awaited first, and a session that is waited for is refused; the handler returns exactly when a
  second interrupt arrives, the shutdown's time is over, or both the server and the instances
  have stopped; it then has told the instances to stop before it kills them, unless a second
  interrupt ended the wait for the sessions, and the kill is its last act but for the removal of
  the socket, which only an interrupt brings about.
\<close>

theorem shutdown_correct:
  assumes "shutdownSignalHandler cause inflight es d = (as, r, d')"
  shows "d' = d\<lparr>d_sessions := WaitFinish (d_sessions d)\<rparr> \<and>
    Create True pe se al gen ps fs (d_sessions d') = (Created (Err (Errorf ''shutdown in progress'' [])), d_sessions d') \<and>
    (r = None \<longleftrightarrow> inflight \<noteq> SecondInterrupt \<and> ShutdownTimeout \<notin> set es \<and> Interrupt \<notin> set es \<and>
       \<not> (ServerStopped \<in> set es \<and> InstancesStopped \<in> set es)) \<and>
    (\<forall>hardExit. r = Some hardExit \<longrightarrow>
      (\<exists>before. as = before @ deferred hardExit \<and> KillInstances \<notin> set before \<and>
        (ShutdownContext \<in> set before \<longleftrightarrow> inflight \<noteq> SecondInterrupt)) \<and>
      (RemoveSocket \<in> set as \<longleftrightarrow> hardExit) \<and>
      (hardExit \<longrightarrow> inflight = SecondInterrupt \<or> Interrupt \<in> set es))"
proof -
  obtain ls q where loop: "stop_loop False False es = (ls, q)" by fastforce
  note L = stop_loop_result [of False False es] stop_loop_actions [of False False es]
    stop_loop_hard [of False False es]
  have d': "d' = d\<lparr>d_sessions := WaitFinish (d_sessions d)\<rparr>"
    using assms by (auto simp: shutdownSignalHandler_def Let_def split: if_splits prod.splits option.splits)
  show ?thesis
  proof (cases "inflight = SecondInterrupt")
    case True
    then have "as = [] @ deferred True" "r = Some True" using assms by (auto simp: shutdownSignalHandler_def)
    then show ?thesis using True d'
      by (auto simp: Create_def WaitFinish_def deferred_def)
  next
    case False
    with assms loop have "r = q" and "as = (case q of None \<Rightarrow> [ShutdownContext, GracefulStop] @ ls
        | Some hard \<Rightarrow> ([ShutdownContext, GracefulStop] @ ls) @ deferred hard)"
      by (auto simp: shutdownSignalHandler_def Let_def split: option.splits)
    moreover have "KillInstances \<notin> set ls" "RemoveSocket \<notin> set ls" using L(2) loop by auto
    ultimately show ?thesis using False d' L(1,3) loop
      by (cases q) (auto simp: Create_def WaitFinish_def deferred_def)
  qed
qed

theorem shutdown_correct_witness:
  "\<exists>as d'. shutdownSignalHandler TermSignal SessionsFinished [ServerStopped, InstancesStopped] sample_daemon
      = (as, Some False, d') \<and> RemoveSocket \<notin> set as"
proof -
  obtain as r d' where h: "shutdownSignalHandler TermSignal SessionsFinished [ServerStopped, InstancesStopped] sample_daemon
      = (as, r, d')" by (cases "shutdownSignalHandler TermSignal SessionsFinished [ServerStopped, InstancesStopped] sample_daemon")
  then have r: "r = Some False" by (simp add: shutdownSignalHandler_def Let_def)
  then have "RemoveSocket \<in> set as \<longleftrightarrow> False" using shutdown_correct [OF h] by blast
  with h r show ?thesis by blast
qed

text \<open>
  A shutdown by a signal and new sessions. While a session may still be created, the call
  \<open>SetupTest\<close> after the daemon has received an interrupt or a termination signal answers as if
  there were no shutdown; only after a shutdown over the daemon's own call it is refused.
\<close>

theorem signal_keeps_accepting:
  assumes "shutdownSignalHandler cause inflight es d = (as, r, d')"
    and "\<not> d_shutdownSignal d" and "length (sc_sessions (d_sessions d)) \<le> 1"
  shows "fst (SetupTest h False pe se al gen pipeline d') = fst (SetupTest h False pe se al gen pipeline d) \<and>
    fst (SetupTest h False pe se al gen pipeline (snd (Shutdown_call d)))
      = Some (Err (Errorf ''daemon is shutting down, no new sessions accepted'' []))"
proof -
  have d': "d' = d\<lparr>d_sessions := WaitFinish (d_sessions d)\<rparr>"
    using assms(1) by (auto simp: shutdownSignalHandler_def Let_def split: if_splits prod.splits option.splits)
  have eq: "fst (Create False pe se al gen ps fs (WaitFinish (d_sessions d)))
      = fst (Create False pe se al gen ps fs (d_sessions d))" for ps fs
    using assms(3) by (intro Create_not_waiting) simp
  have "fst (SetupTest h False pe se al gen pipeline d') = fst (SetupTest h False pe se al gen pipeline d)"
    using assms(2) eq by (simp add: d' SetupTest_answer split: result.split prod.split)
  then show ?thesis using assms(2) by (simp add: SetupTest_def Shutdown_call_def)
qed

theorem signal_keeps_accepting_witness:
  "\<exists>d'. shutdownSignalHandler InterruptSignal InflightTimeout [] sample_daemon
      = ([ShutdownContext, GracefulStop], None, d') \<and>
    fst (SetupTest sample_handler False sample_env calm_session_env sample_ast sample_gen [] d')
      = fst (SetupTest sample_handler False sample_env calm_session_env sample_ast sample_gen [] sample_daemon)"
proof -
  obtain d' where h: "shutdownSignalHandler InterruptSignal InflightTimeout [] sample_daemon
      = ([ShutdownContext, GracefulStop], None, d')" by (simp add: shutdownSignalHandler_def Let_def)
  have "\<not> d_shutdownSignal sample_daemon" "length (sc_sessions (d_sessions sample_daemon)) \<le> 1"
    by (simp_all add: sample_daemon_def New_daemon_def)
  from signal_keeps_accepting [OF h this] h show ?thesis by blast
qed

text \<open>
  What a start of a Logstash instance does to the shutdown's count of instances. The factory
  always counts the instance; if it succeeds the instance's own shutdown takes it off again and
  ends the process, and if it fails nobody does: the count stays one too high for good, so the
  daemon's shutdown waits until its time is over, and a process that was already started is
  not even told to stop.
\<close>

lemma factory_counts:
  assumes "logstashControllerFactory io tempdir ordered ctxDone wg = (r, i, wg')"
  shows "wg' = wg + 1 \<and>
    (\<forall>c j. r = Ok (c, j) \<longrightarrow> j = i \<and> in_process i \<and> c_state c = stateStarted \<and>
       instance_shutdown (i\<lparr>in_shutdown := True\<rparr>) wg' =
         (stopLogstash (i\<lparr>in_shutdown := True, in_wg := 0, in_goroutines := []\<rparr>), wg) \<and>
       SIGTERM \<in> set (in_calls (fst (instance_shutdown (i\<lparr>in_shutdown := True\<rparr>) wg')))) \<and>
    (\<not> is_ok r \<longrightarrow> instance_shutdown i wg' = (i, wg + 1) \<and> instance_shutdown (i\<lparr>in_shutdown := True\<rparr>) wg' = (i\<lparr>in_shutdown := True\<rparr>, wg + 1) \<and>
       SIGTERM \<notin> set (in_calls i))"
  using assms
  by (auto simp: logstashControllerFactory_def Launch_def Start_def new_instance_def instance_shutdown_def
      stopLogstash_def Let_def newStateMachine_def executeCommand_def
      split: result.splits option.splits prod.splits)

end
