(* ===== verification/Observer.thy ===== *)
theory Observer
  imports Test_Case
begin

text \<open>
  \<open>internal/observer/summary.go\<close>: the observer that counts the comparison results of each test case
  file and prints them. The stream hands every published value to the observer's goroutine, in
  order; what it prints is collected in a list. The check mark and the empty box are the bytes of
  U+2611 and U+2610.
\<close>

record summary =
  NumberOk :: nat
  NumberNotOk :: nat

datatype observation = TestExecutionStart | TestExecutionEnd | Comparison comparison_result

record observer_state =
  o_results :: "(string, summary) gmap option"
  o_global :: summary
  o_printed :: "string list"
  o_done :: nat

definition zero_summary :: summary where
  "zero_summary = \<lparr>NumberOk = 0, NumberNotOk = 0\<rparr>"

definition new_observer :: observer_state where
  "new_observer = \<lparr>o_results = None, o_global = zero_summary, o_printed = [], o_done = 0\<rparr>"

definition getIconStatus :: "nat \<Rightarrow> string" where
  "getIconStatus numberNotOk =
     (if numberNotOk = 0 then [CHR 0xE2, CHR 0x98, CHR 0x91] else [CHR 0xE2, CHR 0x98, CHR 0x90])"

definition count_result :: "bool \<Rightarrow> summary \<Rightarrow> summary" where
  "count_result status s =
     (if status then s\<lparr>NumberOk := NumberOk s + 1\<rparr> else s\<lparr>NumberNotOk := NumberNotOk s + 1\<rparr>)"

definition ratio :: "summary \<Rightarrow> string" where
  "ratio s = itoa (NumberOk s) @ ''/'' @ itoa (NumberOk s + NumberNotOk s)"

definition result_lines :: "comparison_result \<Rightarrow> string" where
  "result_lines r =
     (if r_Status r then getIconStatus 0 @ '' '' @ r_Name r @ '' from '' @ r_Path r @ [CHR 0x0A]
      else getIconStatus 1 @ '' '' @ r_Name r @ '' from '' @ r_Path r @ '':'' @ [CHR 0x0A] @ r_Explain r @ [CHR 0x0A])"

definition summary_lines :: "summary \<Rightarrow> (string, summary) gmap \<Rightarrow> string list" where
  "summary_lines globalSummary results =
     ([CHR 0x0A] @ ''Summary: '' @ getIconStatus (NumberNotOk globalSummary) @ '' All tests: ''
        @ ratio globalSummary @ [CHR 0x0A])
     # map (\<lambda>key. let summary = (case mget results key of Some s \<Rightarrow> s | None \<Rightarrow> zero_summary)
              in [CHR 0x09] @ '' '' @ getIconStatus (NumberNotOk summary) @ '' '' @ key @ '': '' @ ratio summary @ [CHR 0x0A])
         (sort_strings (mkeys results))"

text \<open>One value of the stream. Storing into the map before the start event would panic.\<close>

fun observe :: "observation \<Rightarrow> observer_state \<Rightarrow> observer_state result" where
  "observe TestExecutionStart o1 = Ok (o1\<lparr>o_results := Some [], o_global := zero_summary\<rparr>)"
| "observe TestExecutionEnd o1 =
     Ok (o1\<lparr>o_printed := o_printed o1 @ summary_lines (o_global o1) (case o_results o1 of None \<Rightarrow> [] | Some m \<Rightarrow> m),
            o_done := o_done o1 + 1\<rparr>)"
| "observe (Comparison r) o1 =
     (case o_results o1 of
        None \<Rightarrow> Panic
      | Some results \<Rightarrow>
          (let summary = (case mget results (r_Path r) of Some s \<Rightarrow> s | None \<Rightarrow> zero_summary)
           in Ok (o1\<lparr>o_results := Some (mput (r_Path r) (count_result (r_Status r) summary) results),
                     o_global := count_result (r_Status r) (o_global o1),
                     o_printed := o_printed o1 @ [result_lines r]\<rparr>)))"

text \<open>The observer of a whole run: it starts with the property's initial value.\<close>

definition observe_run :: "comparison_result list \<Rightarrow> observer_state result" where
  "observe_run rs =
     each observe (TestExecutionStart # map Comparison rs @ [TestExecutionEnd]) new_observer"

text \<open>
  The goroutine subscribes to the property after \<open>Start\<close> has returned: when the first \<open>k\<close> values have
  been published by then, they are lost to it.
\<close>

definition observe_from :: "nat \<Rightarrow> comparison_result list \<Rightarrow> observer_state result" where
  "observe_from k rs =
     each observe (drop k (TestExecutionStart # map Comparison rs @ [TestExecutionEnd])) new_observer"

text \<open>
  The same for a run that may have ended without its last value. Whoever waits for the observer
  waits until it has subscribed, so after the last value it has lost at most the values before it.
\<close>

definition observed :: "nat \<Rightarrow> comparison_result list \<Rightarrow> bool \<Rightarrow> observer_state result" where
  "observed late rs ended =
     each observe (drop (if ended then min late (Suc (length rs)) else late)
       (TestExecutionStart # map Comparison rs @ (if ended then [TestExecutionEnd] else []))) new_observer"

section \<open>Facts\<close>

lemma observed_from: "observed late rs True = observe_from (min late (Suc (length rs))) rs"
  by (simp add: observed_def observe_from_def)

lemma observed_in_time [simp]: "observed 0 rs True = observe_run rs"
  by (simp add: observed_def observe_run_def)

lemma observe_not_Err: "observe v o1 \<noteq> Err e"
  by (cases v) (auto split: option.split simp: Let_def)

lemma observed_not_Err: "observed late rs ended \<noteq> Err e"
proof -
  have "each observe vs o1 \<noteq> Err e" for vs o1
    by (induction vs arbitrary: o1) (auto simp: rbind_Err_conv observe_not_Err simp del: observe.simps)
  then show ?thesis by (simp add: observed_def)
qed

definition outcomes :: "comparison_result list \<Rightarrow> summary" where
  "outcomes rs = \<lparr>NumberOk = length (filter r_Status rs), NumberNotOk = length (filter (\<lambda>r. \<not> r_Status r) rs)\<rparr>"

text \<open>The counts add up, component by component.\<close>

instantiation unit :: comm_monoid_add
begin

definition plus_unit :: "unit \<Rightarrow> unit \<Rightarrow> unit" where
  "plus_unit x y = ()"

definition zero_unit :: unit where
  "zero_unit = ()"

instance by standard simp_all

end

instantiation summary_ext :: (comm_monoid_add) comm_monoid_add
begin

definition plus_summary_ext :: "'a summary_scheme \<Rightarrow> 'a summary_scheme \<Rightarrow> 'a summary_scheme" where
  "plus_summary_ext x y = \<lparr>NumberOk = NumberOk x + NumberOk y, NumberNotOk = NumberNotOk x + NumberNotOk y,
     \<dots> = summary.more x + summary.more y\<rparr>"

definition zero_summary_ext :: "'a summary_scheme" where
  "zero_summary_ext = \<lparr>NumberOk = 0, NumberNotOk = 0, \<dots> = 0\<rparr>"

instance by standard (simp_all add: plus_summary_ext_def zero_summary_ext_def ac_simps)

end

definition of_path :: "string \<Rightarrow> comparison_result list \<Rightarrow> comparison_result list" where
  "of_path p rs = filter (\<lambda>r. r_Path r = p) rs"

lemma outcomes_snoc: "outcomes (rs @ [r]) = count_result (r_Status r) (outcomes rs)"
  by (simp add: outcomes_def count_result_def)

lemma of_path_snoc: "of_path p (rs @ [r]) = (if r_Path r = p then of_path p rs @ [r] else of_path p rs)"
  by (simp add: of_path_def)

definition counted :: "comparison_result list \<Rightarrow> observer_state \<Rightarrow> bool" where
  "counted rs o1 \<longleftrightarrow> (\<exists>m. o_results o1 = Some m \<and> mwf m \<and> o_global o1 = outcomes rs \<and>
     o_printed o1 = map result_lines rs \<and> o_done o1 = 0 \<and>
     (\<forall>p. mget m p = (if of_path p rs = [] then None else Some (outcomes (of_path p rs)))))"

lemma observe_counted:
  assumes "counted rs o1"
  shows "\<exists>o2. observe (Comparison r) o1 = Ok o2 \<and> counted (rs @ [r]) o2"
proof -
  from assms obtain m where m: "o_results o1 = Some m" "mwf m" "o_global o1 = outcomes rs"
    "o_printed o1 = map result_lines rs" "o_done o1 = 0"
    "\<And>p. mget m p = (if of_path p rs = [] then None else Some (outcomes (of_path p rs)))"
    unfolding counted_def by blast
  have "(case mget m (r_Path r) of Some s \<Rightarrow> s | None \<Rightarrow> zero_summary) = outcomes (of_path (r_Path r) rs)"
    using m(6) by (simp add: zero_summary_def outcomes_def)
  with m show ?thesis
    by (auto simp: counted_def Let_def mwf_mput map_simps outcomes_snoc of_path_snoc)
qed

lemma each_observe_counted:
  "counted rs o1 \<Longrightarrow> \<exists>o2. each observe (map Comparison rs') o1 = Ok o2 \<and> counted (rs @ rs') o2"
proof (induction rs' arbitrary: rs o1)
  case (Cons r rs')
  from observe_counted [OF Cons.prems] obtain o2 where o2: "observe (Comparison r) o1 = Ok o2"
    "counted (rs @ [r]) o2" by blast
  from Cons.IH [OF o2(2)] o2(1) show ?case by (auto simp del: observe.simps)
qed simp

text \<open>The results of all files make up the results of the run.\<close>

lemma outcomes_Nil: "outcomes [] = 0"
  by (simp add: outcomes_def zero_summary_ext_def zero_unit_def)

lemma outcomes_Cons: "outcomes (r # rs) = outcomes [r] + outcomes rs"
  by (simp add: outcomes_def plus_summary_ext_def)

lemma sum_list_point:
  fixes c :: "'a :: comm_monoid_add"
  shows "distinct ks \<Longrightarrow> k \<in> set ks \<Longrightarrow> (\<Sum>p\<leftarrow>ks. if p = k then c + f p else f p) = c + (\<Sum>p\<leftarrow>ks. f p)"
proof (induction ks)
  case (Cons p ks)
  have same: "k \<notin> set ks \<Longrightarrow> (\<Sum>p\<leftarrow>ks. if p = k then c + f p else f p) = (\<Sum>p\<leftarrow>ks. f p)"
    by (rule arg_cong [of _ _ sum_list]) auto
  from Cons same show ?case by (cases "p = k") (auto simp: ac_simps)
qed simp

lemma outcomes_by_path:
  "distinct keys \<Longrightarrow> r_Path ` set rs \<subseteq> set keys \<Longrightarrow> outcomes rs = (\<Sum>p\<leftarrow>keys. outcomes (of_path p rs))"
proof (induction rs)
  case Nil
  then show ?case by (simp add: of_path_def outcomes_Nil)
next
  case (Cons r rs)
  have "outcomes (of_path p (r # rs)) = (if p = r_Path r then outcomes [r] + outcomes (of_path p rs) else outcomes (of_path p rs))" for p
    using outcomes_Cons [of r "of_path p rs"] by (auto simp: of_path_def)
  then have "(\<Sum>p\<leftarrow>keys. outcomes (of_path p (r # rs))) = outcomes [r] + (\<Sum>p\<leftarrow>keys. outcomes (of_path p rs))"
    using sum_list_point [of keys "r_Path r" "outcomes [r]" "\<lambda>p. outcomes (of_path p rs)"] Cons.prems by simp
  then show ?case using Cons outcomes_Cons [of r rs] by simp
qed

text \<open>What the observer is to print at the end, over the files \<open>keys\<close>.\<close>

definition summary_report :: "comparison_result list \<Rightarrow> string list \<Rightarrow> string list" where
  "summary_report rs keys =
     ([CHR 0x0A] @ ''Summary: '' @ getIconStatus (NumberNotOk (outcomes rs)) @ '' All tests: '' @
        itoa (length (filter r_Status rs)) @ ''/'' @ itoa (length rs) @ [CHR 0x0A]) #
     map (\<lambda>p. [CHR 0x09] @ '' '' @ getIconStatus (NumberNotOk (outcomes (of_path p rs))) @ '' '' @ p @ '': '' @
         itoa (length (filter r_Status (of_path p rs))) @ ''/'' @ itoa (length (of_path p rs)) @ [CHR 0x0A]) keys"

lemma ratio_outcomes: "ratio (outcomes xs) = itoa (length (filter r_Status xs)) @ ''/'' @ itoa (length xs)"
proof -
  have "NumberOk (outcomes xs) + NumberNotOk (outcomes xs) = length xs"
    by (simp add: outcomes_def sum_length_filter_compl)
  then show ?thesis by (simp only: ratio_def) (simp add: outcomes_def)
qed

lemma summary_lines_report:
  assumes "\<And>p. mget m p = (if of_path p rs = [] then None else Some (outcomes (of_path p rs)))"
  shows "summary_lines (outcomes rs) m = summary_report rs (sort_strings (mkeys m))"
proof -
  have "(case mget m p of Some s \<Rightarrow> s | None \<Rightarrow> zero_summary) = outcomes (of_path p rs)" for p
    using assms by (simp add: zero_summary_def outcomes_def)
  then show ?thesis by (simp add: summary_lines_def summary_report_def ratio_outcomes Let_def)
qed

text \<open>A subscription in time keeps the observer from panicking.\<close>

lemma observed_in_time_Ok: "\<exists>o1. observed 0 rs ended = Ok o1"
proof -
  have "counted [] (new_observer\<lparr>o_results := Some [], o_global := zero_summary\<rparr>)"
    by (simp add: counted_def new_observer_def zero_summary_def outcomes_def of_path_def)
  from each_observe_counted [OF this, of rs] show ?thesis
    by (auto simp: observed_def each_append)
qed

section \<open>Properties\<close>

text \<open>
  C39: the summary of a run. For every sequence of comparison results the observer ends without a
  panic, having printed one entry for each result in order, then the totals, then one line for
  each test case file in the order of the names, whose counts are the numbers of its passed and
  of its compared events; the totals are the numbers over all results and the sums of the lines;
  it signals the end once.
  This needs the subscription to come first: an observer whose goroutine only subscribes when a
  result has been published already panics, storing into a nil map.
\<close>

theorem summary_correct:
  "\<exists>o1 keys. observe_run rs = Ok o1 \<and> o_done o1 = 1 \<and> o_global o1 = outcomes rs \<and>
     sorted keys \<and> distinct keys \<and> set keys = r_Path ` set rs \<and>
     o_global o1 = (\<Sum>p\<leftarrow>keys. outcomes (of_path p rs)) \<and>
     o_printed o1 = map result_lines rs @ summary_report rs keys \<and>
     (\<forall>r rs2. observe_from (Suc (length rs)) (rs @ r # rs2) = Panic)"
proof -
  have late: "observe_from (Suc (length rs)) (rs @ r # rs2) = Panic" for r rs2
    by (simp add: observe_from_def new_observer_def)
  have "counted [] (new_observer\<lparr>o_results := Some [], o_global := zero_summary\<rparr>)"
    by (simp add: counted_def new_observer_def zero_summary_def outcomes_def of_path_def)
  from each_observe_counted [OF this, of rs] obtain o2 where
    o2: "each observe (map Comparison rs) (new_observer\<lparr>o_results := Some [], o_global := zero_summary\<rparr>) = Ok o2"
    and c: "counted rs o2" by auto
  from c obtain m where m: "o_results o2 = Some m" "mwf m" "o_global o2 = outcomes rs"
    "o_printed o2 = map result_lines rs" "o_done o2 = 0"
    and get: "\<And>p. mget m p = (if of_path p rs = [] then None else Some (outcomes (of_path p rs)))"
    unfolding counted_def by blast
  have keys: "set (mkeys m) = r_Path ` set rs"
    by (auto simp: mkeys_iff get of_path_def filter_empty_conv split: if_splits)
  have dist: "distinct (sort_strings (mkeys m))" using m(2) by (simp add: sort_strings_def mwf_def)
  have "outcomes rs = (\<Sum>p\<leftarrow>sort_strings (mkeys m). outcomes (of_path p rs))"
    using outcomes_by_path [OF dist, of rs] keys by simp
  moreover have "observe_run rs = Ok (o2\<lparr>o_printed := o_printed o2 @ summary_lines (outcomes rs) m, o_done := 1\<rparr>)"
    using o2 m by (simp add: observe_run_def each_append)
  ultimately show ?thesis
    using m(3,4) summary_lines_report [OF get] late keys dist
    by (intro exI [of _ "o2\<lparr>o_printed := o_printed o2 @ summary_lines (outcomes rs) m, o_done := 1\<rparr>"]
        exI [of _ "sort_strings (mkeys m)"]) simp
qed

end
