(* ===== verification/Run.thy ===== *)
theory Run
  imports Daemon Observer "HOL-Library.Product_Lexorder"
begin

text \<open>
  \<open>internal/app/daemon/run/run.go\<close>: the client that sends pipelines and test cases to the daemon and
  compares what comes back. \<open>gjson\<close> and \<open>sjson\<close>, which read and edit the text of a JSON document,
  are a parameter; \<open>'j\<close> is the type of such texts. The daemon, as the client reaches it over gRPC,
  is a state that the calls change.
\<close>

record test_run =
  tr_socket :: string
  tr_pipeline :: string
  tr_pipelineBase :: string
  tr_logstashConfig :: string
  tr_testcasePath :: string
  tr_pluginMock :: string
  tr_metadataKey :: string
  tr_debug :: bool
  tr_addMissingID :: bool

definition New_run :: "(string \<Rightarrow> string result) \<Rightarrow> string result \<Rightarrow> test_run \<Rightarrow> test_run result" where
  "New_run absp getwd s =
     rbind (if tr_pipelineBase s = [] then rbind (absp (tr_pipeline s)) (\<lambda>absPipeline. Ok (path_dir absPipeline))
            else Ok (tr_pipelineBase s)) (\<lambda>pipelineBase.
     rbind (if \<not> isAbs pipelineBase then rbind getwd (\<lambda>cwd. Ok (path_join [cwd, pipelineBase]))
            else Ok pipelineBase) (\<lambda>pipelineBase.
       Ok (s\<lparr>tr_pipelineBase := pipelineBase\<rparr>)))"

section \<open>Processing the results\<close>

record 'j json_lib =
  j_Int :: "'j \<Rightarrow> string \<Rightarrow> int"
  j_String :: "'j \<Rightarrow> string \<Rightarrow> string"
  j_Strings :: "'j \<Rightarrow> string \<Rightarrow> string list"
  j_Object :: "'j \<Rightarrow> string \<Rightarrow> (string \<times> 'j) list option"
  j_SetString :: "'j \<Rightarrow> string \<Rightarrow> string \<Rightarrow> 'j result"
  j_SetStrings :: "'j \<Rightarrow> string \<Rightarrow> string list \<Rightarrow> 'j result"
  j_SetObject :: "'j \<Rightarrow> string \<Rightarrow> (string \<times> 'j) list \<Rightarrow> 'j result"
  j_Delete :: "'j \<Rightarrow> string \<Rightarrow> 'j result"
  j_Unmarshal :: "'j \<Rightarrow> event result"

definition result_less :: "'j json_lib \<Rightarrow> 'j \<Rightarrow> 'j \<Rightarrow> bool" where
  "result_less jl a b =
     (let idI = j_Int jl a ''__lfv_metadata.__lfv_id''; idJ = j_Int jl b ''__lfv_metadata.__lfv_id''
      in if idI = idJ
         then j_String jl a ''__lfv_metadata.__lfv_out_passed'' < j_String jl b ''__lfv_metadata.__lfv_out_passed''
         else idI < idJ)"

definition exported_metadata :: "(string \<times> 'j) list \<Rightarrow> (string \<times> 'j) list" where
  "exported_metadata m = filter (\<lambda>(key, raw). \<not> (has_prefix key ''__lfv_'' \<or> has_prefix key ''__tmp_'')) m"

definition kept_tags :: "string list \<Rightarrow> string list" where
  "kept_tags tags = filter (\<lambda>tag. \<not> has_prefix tag ''__lfv_'') tags"

definition post_process :: "'j json_lib \<Rightarrow> test_run \<Rightarrow> test_case_set \<Rightarrow> 'j \<Rightarrow> 'j result" where
  "post_process jl s t r =
     rbind (if tr_debug s then j_SetString jl r ''__lfv_id'' (j_String jl r ''__lfv_metadata.__lfv_id'') else Ok r) (\<lambda>r.
     rbind (if t_ExportOutputs t \<or> tr_debug s
            then j_SetString jl r ''__lfv_out_passed'' (j_String jl r ''__lfv_metadata.__lfv_out_passed'') else Ok r) (\<lambda>r.
     rbind (if t_ExportMetadata t then
              (case j_Object jl r ''__lfv_metadata'' of
                 None \<Rightarrow> Ok r
               | Some m \<Rightarrow> (let md = exported_metadata m
                   in if md \<noteq> [] then j_SetObject jl r (tr_metadataKey s) md else Ok r))
            else Ok r) (\<lambda>r.
     rbind (j_Delete jl r ''__lfv_metadata'') (\<lambda>r.
       if tr_debug s then Ok r
       else (let tags = kept_tags (j_Strings jl r ''tags'')
             in if tags = [] then j_Delete jl r ''tags'' else j_SetStrings jl r ''tags'' tags)))))"

text \<open>
  \<open>sort.Slice\<close> is not stable: the sorting function is a parameter that returns some permutation in
  which no element is less than an earlier one.
\<close>

definition postProcessResults :: "'j json_lib \<Rightarrow> ('j list \<Rightarrow> 'j list) \<Rightarrow> test_run \<Rightarrow> test_case_set
    \<Rightarrow> 'j list \<Rightarrow> 'j list result" where
  "postProcessResults jl sort_slice s t results = rmap (post_process jl s t) (sort_slice results)"

definition sorts_by :: "('j \<Rightarrow> 'j \<Rightarrow> bool) \<Rightarrow> ('j list \<Rightarrow> 'j list) \<Rightarrow> bool" where
  "sorts_by lt srt \<longleftrightarrow> (\<forall>xs. mset (srt xs) = mset xs \<and> sorted_wrt (\<lambda>a b. \<not> lt b a) (srt xs))"

section \<open>The run\<close>

text \<open>The lines of which the log warns: neither kind of quote can hold them unescaped.\<close>

definition validateInputLines :: "(bool \<Rightarrow> string \<Rightarrow> bool) \<Rightarrow> string list \<Rightarrow> string list" where
  "validateInputLines quotable ls = filter (\<lambda>l. \<not> quotable True l \<and> \<not> quotable False l) ls"

record implicit_io =
  im_IsDir :: "string \<Rightarrow> bool result"
  im_MkdirTemp :: "string result"
  im_Marshal :: "pipeline list \<Rightarrow> string result"
  im_write :: "string \<Rightarrow> gerror option"

definition createImplicitPipeline :: "implicit_io \<Rightarrow> test_run \<Rightarrow> file_map \<Rightarrow> (string \<times> file_map) result" where
  "createImplicitPipeline io s files =
     rbind (map_err (Wrap ''failed to read logstash config'') (im_IsDir io (tr_logstashConfig s))) (\<lambda>isdir.
     rbind (map_err (Wrap ''failed to create temporary directory for implicit pipeline'') (im_MkdirTemp io)) (\<lambda>pipelineBaseDir.
       (let config = (if isdir then path_join [tr_logstashConfig s, ''*''] else tr_logstashConfig s);
            pipelines = [mk_pipeline ''lfv_implicit'' config 1]
        in rbind (im_Marshal io pipelines) (\<lambda>body.
           (let pipelineFile = path_join [pipelineBaseDir, ''pipelines.yml'']
            in map_err (Wrap ''failed to write implicit pipelines.yml file'')
                 (check (im_write io pipelineFile) (pipelineFile, mput pipelineFile body files)))))))"

text \<open>The calls of the gRPC client on the state of the daemon.\<close>

record ('j, 'w) client =
  cl_SetupTest :: "string \<Rightarrow> 'w \<Rightarrow> string result \<times> 'w"
  cl_ExecuteTest :: "string \<Rightarrow> string \<Rightarrow> string list \<Rightarrow> string \<Rightarrow> int \<Rightarrow> 'w \<Rightarrow> 'j list result \<times> 'w"
  cl_TeardownTest :: "string \<Rightarrow> 'w \<Rightarrow> unit result \<times> 'w"

text \<open>\<open>int32(n)\<close> keeps the low 32 bits.\<close>

definition int32 :: "nat \<Rightarrow> int" where
  "int32 n = signed_take_bit 31 (int n)"

text \<open>
  \<open>rn_late\<close> is the number of values that are published before the observer's goroutine subscribes.
  When that goroutine panics, the process dies wherever the main one happens to be:
  \<open>rn_executed\<close> test case sets have been executed by then, and \<open>rn_torn_down\<close> says whether the session
  has been torn down already.
\<close>

record 'j run_env =
  rn_marshal_events :: "event list \<Rightarrow> string result"
  rn_json :: "'j json_lib"
  rn_sort :: "'j list \<Rightarrow> 'j list"
  rn_cmp :: cmp_env
  rn_late :: nat
  rn_executed :: nat
  rn_torn_down :: bool

text \<open>One test case set: the results published for the observer, and whether it passed.\<close>

definition run_test :: "('j, 'w) client \<Rightarrow> 'j run_env \<Rightarrow> test_run \<Rightarrow> string \<Rightarrow> test_case_set \<Rightarrow> 'w
    \<Rightarrow> comparison_result list \<times> bool result \<times> 'w" where
  "run_test cl env s sid t w =
     (case rn_marshal_events env (t_Events t) of
        Err e \<Rightarrow> ([], Err e, w)
      | Panic \<Rightarrow> ([], Panic, w)
      | Ok b \<Rightarrow>
          (case cl_ExecuteTest cl sid (t_InputPlugin t) (t_InputLines t) b (int32 (length (t_ExpectedEvents t))) w of
             (Err e, w) \<Rightarrow> ([], Err e, w)
           | (Panic, w) \<Rightarrow> ([], Panic, w)
           | (Ok results, w) \<Rightarrow>
               (case rbind (postProcessResults (rn_json env) (rn_sort env) s t results)
                        (rmap (j_Unmarshal (rn_json env))) of
                  Err e \<Rightarrow> ([], Err e, w)
                | Panic \<Rightarrow> ([], Panic, w)
                | Ok evs \<Rightarrow>
                    (case Compare (rn_cmp env) t evs [''diff'', ''-u''] of (rs, ok) \<Rightarrow> (rs, ok, w)))))"

fun run_tests :: "('j, 'w) client \<Rightarrow> 'j run_env \<Rightarrow> test_run \<Rightarrow> string \<Rightarrow> test_case_set list \<Rightarrow> bool \<Rightarrow> 'w
    \<Rightarrow> comparison_result list \<times> bool result \<times> 'w" where
  "run_tests cl env s sid [] testsPassed w = ([], Ok testsPassed, w)"
| "run_tests cl env s sid (t # ts) testsPassed w =
     (case run_test cl env s sid t w of
        (rs, Ok ok, w) \<Rightarrow>
          (case run_tests cl env s sid ts (if ok then testsPassed else False) w of
             (rs', r, w) \<Rightarrow> (rs @ rs', r, w))
      | (rs, Err e, w) \<Rightarrow> (rs, Err e, w)
      | (rs, Panic, w) \<Rightarrow> (rs, Panic, w))"

text \<open>
  From the set-up of the session on, the deferred call tears it down when \<open>Run\<close> returns or panics;
  its failure wraps the error of the run. A panic of the observer's goroutine ends the process
  without it.
\<close>

definition end_session :: "('j, 'w) client \<Rightarrow> string \<Rightarrow> unit result \<Rightarrow> 'w \<Rightarrow> unit result \<times> 'w" where
  "end_session cl sid res w =
     (case cl_TeardownTest cl sid w of
        (Err te, w) \<Rightarrow>
          (if res = Panic then Panic
           else Err (ErrorfErrs ''failed to teardown connection: %v, root cause: %v''
             [Some te, case res of Err e \<Rightarrow> Some e | _ \<Rightarrow> None]), w)
      | (_, w) \<Rightarrow> (res, w))"

definition run_session_tests :: "('j, 'w) client \<Rightarrow> 'j run_env \<Rightarrow> test_run \<Rightarrow> string \<Rightarrow> test_case_set list \<Rightarrow> 'w
    \<Rightarrow> observer_state result \<times> unit result \<times> 'w" where
  "run_session_tests cl env s sid tests start =
     (case run_tests cl env s sid tests True start of
        (rs, r, w) \<Rightarrow>
          (let res = rbind r (\<lambda>testsPassed.
                 if \<not> testsPassed then Err (Errorf ''failed test cases'' []) else Ok ());
               (res, w) = end_session cl sid res w
           in case observed (rn_late env) rs (is_ok r) of
                Ok obs \<Rightarrow> (Ok obs, res, w)
              | _ \<Rightarrow> (Panic, Panic,
                  if rn_torn_down env then w
                  else snd (snd (run_tests cl env s sid (take (rn_executed env) tests) True start)))))"

definition first_unknown_input :: "test_case_set list \<Rightarrow> (string, nat) gmap \<Rightarrow> test_case_set option" where
  "first_unknown_input tests inputs = find (\<lambda>t. mget inputs (t_InputPlugin t) = None) tests"

text \<open>\<open>Run\<close> from the archive on: \<open>archive\<close> and \<open>tests\<close> are what building the archive and reading the
  test cases yield. The result has the observer's state once a session was set up.\<close>

definition Run_archive :: "('j, 'w) client \<Rightarrow> 'j run_env \<Rightarrow> test_run \<Rightarrow> (string \<times> (string, nat) gmap) result
    \<Rightarrow> test_case_set list result \<Rightarrow> gerror option \<Rightarrow> 'w
    \<Rightarrow> observer_state result option \<times> unit result \<times> 'w" where
  "Run_archive cl env s archive tests dialErr w =
     (case rbind archive (\<lambda>(b, inputs). rbind tests (\<lambda>tests.
         case first_unknown_input tests inputs of
           Some t \<Rightarrow> Err (Errorf ''input plugin %q defined in test case but not present in Logstash config'' [t_InputPlugin t])
         | None \<Rightarrow> check dialErr (b, tests))) of
        Err e \<Rightarrow> (None, Err e, w)
      | Panic \<Rightarrow> (None, Panic, w)
      | Ok (b, tests) \<Rightarrow>
          (case cl_SetupTest cl b w of
             (Err e, w) \<Rightarrow> (None, Err e, w)
           | (Panic, w) \<Rightarrow> (None, Panic, w)
           | (Ok sid, w) \<Rightarrow>
               (case run_session_tests cl env s sid tests w of (obs, res, w) \<Rightarrow> (Some obs, res, w))))"

text \<open>
  \<open>Run\<close>: the implicit pipeline, the archive with the mocks applied when there are any, and the
  test cases. The files of the implicit pipeline are those that the archive then reads.
\<close>

record ('cfg, 'pl, 'at) run_files =
  rf_implicit :: implicit_io
  rf_zip :: "file_map \<Rightarrow> zip_env"
  rf_unyaml :: "string \<Rightarrow> pipeline list result"
  rf_ast :: "('cfg, 'pl, 'at) ast_lib"
  rf_first_filter :: "'cfg \<Rightarrow> 'pl option"
  rf_read_mocks :: "string \<Rightarrow> (string \<times> string) list result"
  rf_tc_files :: tc_files
  rf_tc_env :: tc_env
  rf_dial :: "gerror option"

definition build_archive :: "('cfg, 'pl, 'at) run_files \<Rightarrow> test_run \<Rightarrow> file_map \<Rightarrow> (string \<times> (string, nat) gmap) result" where
  "build_archive rf s files =
     rbind (New_archive (rf_zip rf files) (rf_unyaml rf) (tr_pipeline s) (tr_pipelineBase s)) (\<lambda>a.
     rbind (FromFile (rf_ast rf) (rf_first_filter rf) (rf_read_mocks rf) (tr_pluginMock s)) (\<lambda>m.
       ZipWithPreprocessor (rf_zip rf files) (rf_ast rf) (tr_addMissingID s)
         (if length m > 0 then ApplyMocksPreprocessor (rf_ast rf) else NoopPreprocessor) a m))"

definition Run :: "('j, 'w) client \<Rightarrow> 'j run_env \<Rightarrow> ('cfg, 'pl, 'at) run_files \<Rightarrow> test_run \<Rightarrow> 'w
    \<Rightarrow> observer_state result option \<times> unit result \<times> 'w" where
  "Run cl env rf s w =
     (case (if tr_logstashConfig s \<noteq> []
            then rbind (createImplicitPipeline (rf_implicit rf) s []) (\<lambda>(pipelineFile, files).
                   Ok (s\<lparr>tr_pipeline := pipelineFile, tr_pipelineBase := []\<rparr>, files))
            else Ok (s, [])) of
        Err e \<Rightarrow> (None, Err e, w)
      | Panic \<Rightarrow> (None, Panic, w)
      | Ok (s, files) \<Rightarrow>
          Run_archive cl env s (build_archive rf s files)
            (DiscoverTests (rf_tc_files rf) (rf_tc_env rf) (tr_testcasePath s)) (rf_dial rf) w)"

section \<open>The JSON library\<close>

text \<open>
  What the code relies on: \<open>view\<close> decodes a text. Setting or deleting a key at the top level does
  exactly that; reading a path yields the text of the value found there, and reading an object
  its members.
\<close>

definition text_at :: "(gvalue option \<Rightarrow> string) \<Rightarrow> fields \<Rightarrow> string \<Rightarrow> string" where
  "text_at show m k = show (fget m [''__lfv_metadata'', k])"

definition json_ok :: "'j json_lib \<Rightarrow> ('j \<Rightarrow> fields) \<Rightarrow> ('j \<Rightarrow> gvalue) \<Rightarrow> (gvalue option \<Rightarrow> string)
    \<Rightarrow> (gvalue option \<Rightarrow> string list) \<Rightarrow> string set \<Rightarrow> bool" where
  "json_ok jl view val show shows_list keys \<longleftrightarrow>
     (\<forall>r. \<forall>k \<in> keys. \<forall>v. \<exists>r'. j_SetString jl r k v = Ok r' \<and> view r' = mput k (VString v) (view r)) \<and>
     (\<forall>r. \<forall>k \<in> keys. \<forall>vs. \<exists>r'. j_SetStrings jl r k vs = Ok r' \<and> view r' = mput k (VList (map VString vs)) (view r)) \<and>
     (\<forall>r. \<forall>k \<in> keys. \<forall>m. \<exists>r'. j_SetObject jl r k m = Ok r' \<and>
        view r' = mput k (VMap (map (\<lambda>(i, raw). (i, val raw)) m)) (view r)) \<and>
     (\<forall>r. \<forall>k \<in> keys. \<exists>r'. j_Delete jl r k = Ok r' \<and> view r' = mdel k (view r)) \<and>
     (\<forall>r. j_String jl r ''__lfv_metadata.__lfv_id'' = text_at show (view r) ''__lfv_id'') \<and>
     (\<forall>r. j_String jl r ''__lfv_metadata.__lfv_out_passed'' = text_at show (view r) ''__lfv_out_passed'') \<and>
     (\<forall>r. j_Strings jl r ''tags'' = shows_list (mget (view r) ''tags'')) \<and>
     (\<forall>r. (case j_Object jl r ''__lfv_metadata'' of
        None \<Rightarrow> \<forall>m. mget (view r) ''__lfv_metadata'' \<noteq> Some (VMap m)
      | Some m \<Rightarrow> mget (view r) ''__lfv_metadata'' = Some (VMap (map (\<lambda>(i, raw). (i, val raw)) m))))"

definition own_keys :: "string \<Rightarrow> string set" where
  "own_keys metadataKey = {''__lfv_id'', ''__lfv_out_passed'', ''tags'', ''__lfv_metadata'', metadataKey}"

text \<open>The metadata of an event that a test case set with exported metadata sees.\<close>

definition visible_metadata :: "fields \<Rightarrow> fields" where
  "visible_metadata v = (case mget v ''__lfv_metadata'' of
     Some (VMap m) \<Rightarrow> filter (\<lambda>(key, w). \<not> (has_prefix key ''__lfv_'' \<or> has_prefix key ''__tmp_'')) m
   | _ \<Rightarrow> [])"

text \<open>What the processing of a result does to the document, key by key.\<close>

definition post_spec :: "(gvalue option \<Rightarrow> string) \<Rightarrow> (gvalue option \<Rightarrow> string list) \<Rightarrow> test_run \<Rightarrow> test_case_set
    \<Rightarrow> fields \<Rightarrow> string \<Rightarrow> gvalue option" where
  "post_spec show shows_list s t v k =
     (if k = ''__lfv_metadata'' then None
      else if k = ''tags'' \<and> \<not> tr_debug s then
        (let tags = kept_tags (shows_list (mget v ''tags''))
         in if tags = [] then None else Some (VList (map VString tags)))
      else if k = tr_metadataKey s \<and> t_ExportMetadata t \<and> visible_metadata v \<noteq> [] then
        Some (VMap (visible_metadata v))
      else if k = ''__lfv_out_passed'' \<and> (t_ExportOutputs t \<or> tr_debug s) then
        Some (VString (text_at show v ''__lfv_out_passed''))
      else if k = ''__lfv_id'' \<and> tr_debug s then Some (VString (text_at show v ''__lfv_id''))
      else mget v k)"

lemma post_spec_metadata: "post_spec show shows_list s t v ''__lfv_metadata'' = None"
  by (simp add: post_spec_def)

lemma exported_visible:
  assumes "mget v ''__lfv_metadata'' = Some (VMap (map (\<lambda>(i, raw). (i, val raw)) m))"
  shows "visible_metadata v = map (\<lambda>(i, raw). (i, val raw)) (exported_metadata m)"
proof -
  have "filter (\<lambda>(key, w). \<not> (has_prefix key ''__lfv_'' \<or> has_prefix key ''__tmp_'')) (map (\<lambda>(i, raw). (i, val raw)) m)
    = map (\<lambda>(i, raw). (i, val raw)) (exported_metadata m)"
    unfolding exported_metadata_def by (induction m) auto
  then show ?thesis by (simp add: visible_metadata_def assms)
qed

lemma fget_metadata_frame:
  "mget v ''__lfv_metadata'' = mget w ''__lfv_metadata'' \<Longrightarrow> text_at show v k = text_at show w k"
  by (simp add: text_at_def)

text \<open>The laws, one at a time.\<close>

lemma json_ok_texts:
  assumes "json_ok jl view val show shows_list keys"
  shows "j_String jl r ''__lfv_metadata.__lfv_id'' = text_at show (view r) ''__lfv_id''"
    and "j_String jl r ''__lfv_metadata.__lfv_out_passed'' = text_at show (view r) ''__lfv_out_passed''"
    and "j_Strings jl r ''tags'' = shows_list (mget (view r) ''tags'')"
  using assms unfolding json_ok_def by - (elim conjE, erule spec)+

lemma json_ok_SetString:
  assumes "json_ok jl view val show shows_list keys" and "k \<in> keys"
  obtains r' where "j_SetString jl r k v = Ok r'" and "view r' = mput k (VString v) (view r)"
proof -
  have "\<forall>r. \<forall>k \<in> keys. \<forall>v. \<exists>r'. j_SetString jl r k v = Ok r' \<and> view r' = mput k (VString v) (view r)"
    using assms(1) unfolding json_ok_def by (elim conjE)
  with assms(2) that show thesis by blast
qed

lemma json_ok_SetStrings:
  assumes "json_ok jl view val show shows_list keys" and "k \<in> keys"
  obtains r' where "j_SetStrings jl r k vs = Ok r'" and "view r' = mput k (VList (map VString vs)) (view r)"
proof -
  have "\<forall>r. \<forall>k \<in> keys. \<forall>vs. \<exists>r'. j_SetStrings jl r k vs = Ok r' \<and> view r' = mput k (VList (map VString vs)) (view r)"
    using assms(1) unfolding json_ok_def by (elim conjE)
  with assms(2) that show thesis by blast
qed

lemma json_ok_SetObject:
  assumes "json_ok jl view val show shows_list keys" and "k \<in> keys"
  obtains r' where "j_SetObject jl r k m = Ok r'"
    and "view r' = mput k (VMap (map (\<lambda>(i, raw). (i, val raw)) m)) (view r)"
proof -
  have "\<forall>r. \<forall>k \<in> keys. \<forall>m. \<exists>r'. j_SetObject jl r k m = Ok r' \<and>
      view r' = mput k (VMap (map (\<lambda>(i, raw). (i, val raw)) m)) (view r)"
    using assms(1) unfolding json_ok_def by (elim conjE)
  with assms(2) that show thesis by blast
qed

lemma json_ok_Delete:
  assumes "json_ok jl view val show shows_list keys" and "k \<in> keys"
  obtains r' where "j_Delete jl r k = Ok r'" and "view r' = mdel k (view r)"
proof -
  have "\<forall>r. \<forall>k \<in> keys. \<exists>r'. j_Delete jl r k = Ok r' \<and> view r' = mdel k (view r)"
    using assms(1) unfolding json_ok_def by (elim conjE)
  with assms(2) that show thesis by blast
qed

lemma json_ok_Object:
  assumes "json_ok jl view val show shows_list keys"
  shows "case j_Object jl r ''__lfv_metadata'' of
      None \<Rightarrow> \<forall>m. mget (view r) ''__lfv_metadata'' \<noteq> Some (VMap m)
    | Some m \<Rightarrow> mget (view r) ''__lfv_metadata'' = Some (VMap (map (\<lambda>(i, raw). (i, val raw)) m))"
  using assms unfolding json_ok_def by (elim conjE) (erule spec)

text \<open>The stages of the processing.\<close>

lemma stage_set_string:
  assumes "json_ok jl view val show shows_list keys" and "k \<in> keys"
  obtains r' where "(if b then j_SetString jl r k v else Ok r) = Ok r'"
    and "view r' = (if b then mput k (VString v) (view r) else view r)"
proof -
  obtain r' where "j_SetString jl r k v = Ok r'" "view r' = mput k (VString v) (view r)"
    using json_ok_SetString [OF assms] .
  then show thesis by (intro that [of "if b then r' else r"]) simp_all
qed

lemma stage_metadata:
  assumes "json_ok jl view val show shows_list keys" and "mkey \<in> keys"
  obtains r' where "(if b then (case j_Object jl r ''__lfv_metadata'' of None \<Rightarrow> Ok r
        | Some m \<Rightarrow> (let md = exported_metadata m in if md \<noteq> [] then j_SetObject jl r mkey md else Ok r))
      else Ok r) = Ok r'"
    and "view r' = (if b \<and> visible_metadata (view r) \<noteq> [] then mput mkey (VMap (visible_metadata (view r))) (view r) else view r)"
proof (cases "j_Object jl r ''__lfv_metadata''")
  case None
  with json_ok_Object [OF assms(1), of r] have "visible_metadata (view r) = []"
    by (auto simp: visible_metadata_def split: option.splits gvalue.splits)
  with None show thesis by (intro that [of r]) simp_all
next
  case (Some m)
  with json_ok_Object [OF assms(1), of r]
  have vis: "visible_metadata (view r) = map (\<lambda>(i, raw). (i, val raw)) (exported_metadata m)"
    by (simp add: exported_visible)
  obtain r' where "j_SetObject jl r mkey (exported_metadata m) = Ok r'"
    "view r' = mput mkey (VMap (map (\<lambda>(i, raw). (i, val raw)) (exported_metadata m))) (view r)"
    using json_ok_SetObject [OF assms] .
  with Some vis show thesis
    by (intro that [of "if b \<and> exported_metadata m \<noteq> [] then r' else r"]) (simp_all add: Let_def)
qed

lemma stage_tags:
  assumes "json_ok jl view val show shows_list keys" and "''tags'' \<in> keys"
  obtains r' where "(if b then Ok r else (let tags = kept_tags (j_Strings jl r ''tags'')
      in if tags = [] then j_Delete jl r ''tags'' else j_SetStrings jl r ''tags'' tags)) = Ok r'"
    and "view r' = (if b then view r else (let tags = kept_tags (shows_list (mget (view r) ''tags''))
      in if tags = [] then mdel ''tags'' (view r) else mput ''tags'' (VList (map VString tags)) (view r)))"
proof -
  obtain d where "j_Delete jl r ''tags'' = Ok d" "view d = mdel ''tags'' (view r)"
    using json_ok_Delete [OF assms] .
  moreover obtain p where "j_SetStrings jl r ''tags'' (kept_tags (shows_list (mget (view r) ''tags''))) = Ok p"
    "view p = mput ''tags'' (VList (map VString (kept_tags (shows_list (mget (view r) ''tags''))))) (view r)"
    using json_ok_SetStrings [OF assms] .
  ultimately show thesis
    by (intro that [of "if b then r else if kept_tags (shows_list (mget (view r) ''tags'')) = [] then d else p"])
      (simp_all add: Let_def json_ok_texts [OF assms(1)])
qed

lemma post_process_view:
  assumes ok: "json_ok jl view val show shows_list (own_keys (tr_metadataKey s))"
    and key: "tr_metadataKey s \<notin> {''__lfv_id'', ''__lfv_out_passed'', ''tags'', ''__lfv_metadata''}"
  shows "\<exists>r'. post_process jl s t r = Ok r' \<and> (\<forall>k. mget (view r') k = post_spec show shows_list s t (view r) k)"
proof -
  have keys: "''__lfv_id'' \<in> own_keys (tr_metadataKey s)" "''__lfv_out_passed'' \<in> own_keys (tr_metadataKey s)"
    "''tags'' \<in> own_keys (tr_metadataKey s)" "''__lfv_metadata'' \<in> own_keys (tr_metadataKey s)"
    "tr_metadataKey s \<in> own_keys (tr_metadataKey s)"
    by (simp_all add: own_keys_def)
  obtain r1 where r1: "(if tr_debug s then j_SetString jl r ''__lfv_id'' (text_at show (view r) ''__lfv_id'') else Ok r) = Ok r1"
    and v1: "view r1 = (if tr_debug s then mput ''__lfv_id'' (VString (text_at show (view r) ''__lfv_id'')) (view r) else view r)"
    using stage_set_string [OF ok keys(1)] .
  obtain r2 where r2: "(if t_ExportOutputs t \<or> tr_debug s
      then j_SetString jl r1 ''__lfv_out_passed'' (text_at show (view r1) ''__lfv_out_passed'') else Ok r1) = Ok r2"
    and v2: "view r2 = (if t_ExportOutputs t \<or> tr_debug s
      then mput ''__lfv_out_passed'' (VString (text_at show (view r1) ''__lfv_out_passed'')) (view r1) else view r1)"
    using stage_set_string [OF ok keys(2)] .
  have vis: "visible_metadata (view r2) = visible_metadata (view r)"
    by (simp add: visible_metadata_def v2 v1 map_simps)
  obtain r3 where r3: "(if t_ExportMetadata t then (case j_Object jl r2 ''__lfv_metadata'' of None \<Rightarrow> Ok r2
        | Some m \<Rightarrow> (let md = exported_metadata m in if md \<noteq> [] then j_SetObject jl r2 (tr_metadataKey s) md else Ok r2))
      else Ok r2) = Ok r3"
    and v3: "view r3 = (if t_ExportMetadata t \<and> visible_metadata (view r2) \<noteq> []
      then mput (tr_metadataKey s) (VMap (visible_metadata (view r2))) (view r2) else view r2)"
    using stage_metadata [OF ok keys(5)] .
  obtain r4 where r4: "j_Delete jl r3 ''__lfv_metadata'' = Ok r4" and v4: "view r4 = mdel ''__lfv_metadata'' (view r3)"
    using json_ok_Delete [OF ok keys(4)] .
  obtain r5 where r5: "(if tr_debug s then Ok r4 else (let tags = kept_tags (j_Strings jl r4 ''tags'')
      in if tags = [] then j_Delete jl r4 ''tags'' else j_SetStrings jl r4 ''tags'' tags)) = Ok r5"
    and v5: "view r5 = (if tr_debug s then view r4 else (let tags = kept_tags (shows_list (mget (view r4) ''tags''))
      in if tags = [] then mdel ''tags'' (view r4) else mput ''tags'' (VList (map VString tags)) (view r4)))"
    using stage_tags [OF ok keys(3)] .
  note v3 = v3 [unfolded vis]
  have key': "k \<noteq> tr_metadataKey s" if "k \<in> {''__lfv_id'', ''__lfv_out_passed'', ''tags'', ''__lfv_metadata''}" for k
    using key that by auto
  have tags: "mget (view r4) ''tags'' = mget (view r) ''tags''"
    by (simp add: v4 v3 v2 v1 map_simps key')
  have "post_process jl s t r = Ok r5"
    unfolding post_process_def json_ok_texts(1, 2) [OF ok] r1 rbind.simps r2 r3 r4 r5 ..
  moreover have "mget (view r5) k = post_spec show shows_list s t (view r) k" for k
  proof -
    have frame: "text_at show (mput ''__lfv_id'' x (view r)) k = text_at show (view r) k" for x k
      by (rule fget_metadata_frame) (simp add: map_simps)
    show ?thesis unfolding v5 tags post_spec_def
      by (cases "t_ExportMetadata t \<and> visible_metadata (view r) \<noteq> []")
        (auto simp: v4 v3 v2 v1 frame map_simps Let_def key')
  qed
  ultimately show ?thesis by blast
qed

section \<open>The verdict\<close>

lemma run_test_verdict:
  assumes "run_test cl env s sid t w = (rs, Ok ok, w')"
  shows "ok \<longleftrightarrow> (\<forall>r \<in> set rs. r_Status r)"
proof -
  from assms obtain evs where "Compare (rn_cmp env) t evs [''diff'', ''-u''] = (rs, Ok ok)"
    unfolding run_test_def by (auto split: result.splits prod.splits)
  then show ?thesis by (blast dest: Compare_verdict)
qed

lemma run_tests_cons:
  assumes "run_tests cl env s sid (t # ts) b w = (rs, r, w')"
  obtains (stop) r1 where "run_test cl env s sid t w = (rs, r1, w')" "\<not> is_ok r1" "\<not> is_ok r"
      "\<And>e. r1 = Err e \<Longrightarrow> r = Err e"
  | (next_test) ok1 rs1 rs2 w1 where "run_test cl env s sid t w = (rs1, Ok ok1, w1)"
      "run_tests cl env s sid ts (b \<and> ok1) w1 = (rs2, r, w')" "rs = rs1 @ rs2"
proof -
  obtain rs1 r1 w1 where t: "run_test cl env s sid t w = (rs1, r1, w1)" by (metis prod_cases3)
  show thesis
  proof (cases r1)
    case (Ok ok1)
    obtain rs2 r2 w2 where ts: "run_tests cl env s sid ts (b \<and> ok1) w1 = (rs2, r2, w2)"
      by (metis prod_cases3)
    moreover have "(if ok1 then b else False) = (b \<and> ok1)" by simp
    ultimately have "r2 = r" "w2 = w'" "rs = rs1 @ rs2" using assms t Ok by simp_all
    with t ts Ok show thesis by (intro next_test) simp_all
  qed (use assms t in \<open>auto intro!: stop\<close>)
qed

lemma run_tests_verdict:
  "run_tests cl env s sid ts b w = (rs, Ok ok, w') \<Longrightarrow> ok \<longleftrightarrow> b \<and> (\<forall>r \<in> set rs. r_Status r)"
proof (induction ts arbitrary: b w rs)
  case (Cons t ts)
  from Cons.prems show ?case
  proof (cases rule: run_tests_cons)
    case (next_test ok1 rs1 rs2 w1)
    from Cons.IH [OF next_test(2)] run_test_verdict [OF next_test(1)] next_test(3) show ?thesis by auto
  qed simp
qed simp

lemma run_session_tests_Panic:
  assumes "run_session_tests cl env s sid ts w = (obs, res, w')"
  shows "obs = Panic \<Longrightarrow> res = Panic" and "rn_late env = 0 \<Longrightarrow> obs \<noteq> Panic"
proof -
  obtain rs r w1 where ts: "run_tests cl env s sid ts True w = (rs, r, w1)" by (metis prod_cases3)
  obtain o1 where "observed 0 rs (is_ok r) = Ok o1" using observed_in_time_Ok by blast
  with assms ts show "obs = Panic \<Longrightarrow> res = Panic" "rn_late env = 0 \<Longrightarrow> obs \<noteq> Panic"
    by (auto simp: run_session_tests_def Let_def split: result.splits prod.splits)
qed

lemma run_session_tests_Ok:
  assumes "run_session_tests cl env s sid ts w = (obs, Ok (), w')"
  obtains rs w1 where "run_tests cl env s sid ts True w = (rs, Ok True, w1)" "obs = observed (rn_late env) rs True"
proof -
  obtain rs r w1 where ts: "run_tests cl env s sid ts True w = (rs, r, w1)" by (metis prod_cases3)
  obtain tr w2 where td: "cl_TeardownTest cl sid w1 = (tr, w2)" by fastforce
  from assms [unfolded run_session_tests_def ts prod.case end_session_def td Let_def]
  have "rbind r (\<lambda>p. if \<not> p then Err (Errorf ''failed test cases'' []) else Ok ()) = Ok ()"
    and obs: "obs = observed (rn_late env) rs (is_ok r)"
    by (auto split: result.splits if_splits prod.splits)
  moreover from this(1) have "r = Ok True" by (cases r) (auto split: if_splits)
  ultimately show thesis using ts by (intro that) simp_all
qed

section \<open>The session of a run\<close>

text \<open>
  What the run relies on: while the session is live a call that executes a test keeps it, unless it
  reports an error, which ends it; a teardown ends it, and fails when it has ended already.
\<close>

locale session_service =
  fixes cl :: "('j, 'w) client" and sid :: string
    and live :: "'w \<Rightarrow> bool" and gone :: "'w \<Rightarrow> bool"
  assumes execute_live: "live w \<Longrightarrow> cl_ExecuteTest cl sid inp ls evs n w = (r, w') \<Longrightarrow>
      if (\<exists>e. r = Err e) then gone w' else live w'"
    and teardown_live: "live w \<Longrightarrow> cl_TeardownTest cl sid w = (tr, w') \<Longrightarrow> gone w'"
    and teardown_gone: "gone w \<Longrightarrow> cl_TeardownTest cl sid w = (tr, w') \<Longrightarrow> gone w' \<and> (\<exists>e. tr = Err e)"
begin

lemma run_test_live:
  assumes "live w" and "run_test cl env s sid t w = (rs, r, w')"
  shows "live w' \<or> gone w' \<and> (\<exists>e. r = Err e)"
proof (cases "rn_marshal_events env (t_Events t)")
  case (Ok b)
  obtain q w1 where q: "cl_ExecuteTest cl sid (t_InputPlugin t) (t_InputLines t) b (int32 (length (t_ExpectedEvents t))) w
      = (q, w1)" by fastforce
  have "w' = w1 \<and> (\<forall>e. q = Err e \<longrightarrow> r = Err e)"
    using assms(2) Ok q unfolding run_test_def by (auto split: result.splits prod.splits)
  with execute_live [OF assms(1) q] show ?thesis by (auto split: if_splits)
qed (use assms in \<open>auto simp: run_test_def\<close>)

lemma run_tests_live:
  "live w \<Longrightarrow> run_tests cl env s sid ts b w = (rs, r, w') \<Longrightarrow> live w' \<or> gone w' \<and> (\<exists>e. r = Err e)"
proof (induction ts arbitrary: b w rs)
  case (Cons t ts)
  from Cons.prems(2) show ?case
  proof (cases rule: run_tests_cons)
    case (stop r1)
    with run_test_live [OF Cons.prems(1) stop(1)] show ?thesis by auto
  next
    case (next_test ok1 rs1 rs2 w1)
    have "live w1" using run_test_live [OF Cons.prems(1) next_test(1)] by simp
    from Cons.IH [OF this next_test(2)] show ?thesis .
  qed
qed simp

lemma session_over:
  assumes "live w" and "run_session_tests cl env s sid ts w = (obs, res, w')"
  shows "obs \<noteq> Panic \<Longrightarrow> gone w'"
    and "is_ok res \<Longrightarrow> \<exists>rs. obs = observed (rn_late env) rs True \<and> (\<forall>r \<in> set rs. r_Status r)"
proof -
  obtain rs r w1 where ts: "run_tests cl env s sid ts True w = (rs, r, w1)" by (metis prod_cases3)
  obtain tr w2 where td: "cl_TeardownTest cl sid w1 = (tr, w2)" by fastforce
  from assms(2) [unfolded run_session_tests_def ts prod.case end_session_def td Let_def]
  have "obs \<noteq> Panic \<Longrightarrow> w' = w2" by (auto split: result.splits)
  with run_tests_live [OF assms(1) ts] td show "obs \<noteq> Panic \<Longrightarrow> gone w'"
    by (auto dest: teardown_live teardown_gone)
  assume "is_ok res"
  then have "res = Ok ()" by (simp add: is_ok_iff)
  then obtain rs w1 where "run_tests cl env s sid ts True w = (rs, Ok True, w1)" "obs = observed (rn_late env) rs True"
    using assms(2) by (auto elim: run_session_tests_Ok)
  with run_tests_verdict [OF this(1)]
  show "\<exists>rs. obs = observed (rn_late env) rs True \<and> (\<forall>r \<in> set rs. r_Status r)" by blast
qed

end

text \<open>The client over the daemon; the environment of each call is what the number of calls selects.\<close>

definition daemon_client :: "(nat \<Rightarrow> handler_env) \<Rightarrow> (nat \<Rightarrow> session_env) \<Rightarrow> (string \<Rightarrow> daemon \<times> nat \<Rightarrow> string result \<times> daemon \<times> nat)
    \<Rightarrow> (string, daemon \<times> nat) client" where
  "daemon_client h se setup_call =
     \<lparr>cl_SetupTest = setup_call,
      cl_ExecuteTest = (\<lambda>sid inp ls evs n (d, k).
        case ExecuteTest_call (h k) (se k) sid inp ls evs n d of (r, d) \<Rightarrow> (r, d, Suc k)),
      cl_TeardownTest = (\<lambda>sid (d, k). case TeardownTest (h k) sid d of (r, d) \<Rightarrow> (r, d, Suc k))\<rparr>"

definition session_live :: "string \<Rightarrow> daemon \<Rightarrow> daemon \<times> nat \<Rightarrow> bool" where
  "session_live sid d0 = (\<lambda>(d, k). session_kept sid d0 d \<and> 0 < sc_wg (d_sessions d))"

definition session_gone :: "string \<Rightarrow> daemon \<Rightarrow> daemon \<times> nat \<Rightarrow> bool" where
  "session_gone sid d0 = (\<lambda>(d, k). GetSession sid (d_sessions d) = Err (no_session sid) \<and>
     (\<forall>sid'. sid' \<noteq> sid \<longrightarrow> GetSession sid' (d_sessions d) = GetSession sid' (d_sessions d0)) \<and>
     Suc (sc_wg (d_sessions d)) = sc_wg (d_sessions d0))"

interpretation daemon_service: session_service "daemon_client h se setup_call" sid "session_live sid d0" "session_gone sid d0"
proof
  fix w w' :: "daemon \<times> nat" and r inp ls evs n
  assume "session_live sid d0 w"
    and "cl_ExecuteTest (daemon_client h se setup_call) sid inp ls evs n w = (r, w')"
  moreover obtain d k where w: "w = (d, k)" by fastforce
  moreover obtain q d1 where q: "ExecuteTest_call (h k) (se k) sid inp ls evs n d = (q, d1)" by fastforce
  ultimately have w': "w' = (d1, Suc k)" "r = q" and kept: "session_kept sid d0 d" "0 < sc_wg (d_sessions d)"
    by (auto simp: daemon_client_def session_live_def)
  from kept obtain s where "mget (sc_sessions (d_sessions d)) sid = Some s" by (auto simp: session_kept_def)
  from execute_call [OF this kept(2) q] kept w'
  show "if \<exists>e. r = Err e then session_gone sid d0 w' else session_live sid d0 w'"
    by (auto simp: session_live_def session_gone_def session_kept_def session_destroyed_def)
next
  fix w w' :: "daemon \<times> nat" and tr
  assume "session_live sid d0 w" and "cl_TeardownTest (daemon_client h se setup_call) sid w = (tr, w')"
  moreover obtain d k where w: "w = (d, k)" by fastforce
  moreover obtain q d1 where q: "TeardownTest (h k) sid d = (q, d1)" by fastforce
  ultimately have w': "w' = (d1, Suc k)" and kept: "session_kept sid d0 d" "0 < sc_wg (d_sessions d)"
    by (auto simp: daemon_client_def session_live_def)
  from kept obtain s where s: "mget (sc_sessions (d_sessions d)) sid = Some s" by (auto simp: session_kept_def)
  have "d1 = snd (destroy_session (h k) sid d)"
    using q by (auto simp: TeardownTest_def split: prod.splits result.splits)
  with destroy_session_known [OF s kept(2)] kept w' show "session_gone sid d0 w'"
    by (auto simp: session_gone_def session_kept_def GetSession_def map_simps)
next
  fix w w' :: "daemon \<times> nat" and tr
  assume "session_gone sid d0 w" and "cl_TeardownTest (daemon_client h se setup_call) sid w = (tr, w')"
  moreover obtain d k where w: "w = (d, k)" by fastforce
  moreover have "mget (sc_sessions (d_sessions d)) sid = None"
    using calculation by (auto simp: session_gone_def GetSession_def split: option.splits)
  ultimately show "session_gone sid d0 w' \<and> (\<exists>e. tr = Err e)"
    by (auto simp: session_gone_def daemon_client_def TeardownTest_def destroy_session_def DestroyByID_def
        GetSession_def)
qed

section \<open>A small example\<close>

definition gvalue_view :: "gvalue \<Rightarrow> fields" where
  "gvalue_view v = (case v of VMap m \<Rightarrow> m | _ \<Rightarrow> [])"

definition sample_show :: "gvalue option \<Rightarrow> string" where
  "sample_show v = (case v of Some (VString s) \<Rightarrow> s | _ \<Rightarrow> [])"

definition sample_shows :: "gvalue option \<Rightarrow> string list" where
  "sample_shows v = (case v of Some (VList vs) \<Rightarrow> map (\<lambda>w. sample_show (Some w)) vs | _ \<Rightarrow> [])"

definition sample_json :: "gvalue json_lib" where
  "sample_json = \<lparr>j_Int = (\<lambda>r p. int (length (text_at sample_show (gvalue_view r) (drop 15 p)))),
     j_String = (\<lambda>r p. text_at sample_show (gvalue_view r) (drop 15 p)),
     j_Strings = (\<lambda>r p. sample_shows (mget (gvalue_view r) p)),
     j_Object = (\<lambda>r p. case mget (gvalue_view r) p of Some (VMap m) \<Rightarrow> Some m | _ \<Rightarrow> None),
     j_SetString = (\<lambda>r k v. Ok (VMap (mput k (VString v) (gvalue_view r)))),
     j_SetStrings = (\<lambda>r k vs. Ok (VMap (mput k (VList (map VString vs)) (gvalue_view r)))),
     j_SetObject = (\<lambda>r k m. Ok (VMap (mput k (VMap m) (gvalue_view r)))),
     j_Delete = (\<lambda>r k. Ok (VMap (mdel k (gvalue_view r)))),
     j_Unmarshal = (\<lambda>r. Ok (Some (gvalue_view r)))\<rparr>"

lemma sample_json_ok: "json_ok sample_json gvalue_view id sample_show sample_shows keys"
  by (auto simp: json_ok_def sample_json_def gvalue_view_def split: option.split gvalue.split)

definition result_key :: "'j json_lib \<Rightarrow> 'j \<Rightarrow> int \<times> string" where
  "result_key jl r = (j_Int jl r ''__lfv_metadata.__lfv_id'', j_String jl r ''__lfv_metadata.__lfv_out_passed'')"

lemma result_less_key: "result_less jl a b \<longleftrightarrow> result_key jl a < result_key jl b"
  by (auto simp: result_less_def result_key_def Let_def)

lemma sorts_by_sort_key: "sorts_by (result_less jl) (sort_key (result_key jl))"
  unfolding sorts_by_def result_less_key
proof (intro allI conjI)
  show "sorted_wrt (\<lambda>a b. \<not> result_key jl b < result_key jl a) (sort_key (result_key jl) xs)" for xs
    using sorted_sort_key [of "result_key jl" xs] by (simp add: sorted_map not_less)
qed simp

definition sample_run :: test_run where
  "sample_run = \<lparr>tr_socket = ''/socket'', tr_pipeline = ''/b/pipelines.yml'', tr_pipelineBase = ''/b'',
     tr_logstashConfig = [], tr_testcasePath = ''/t.json'', tr_pluginMock = [],
     tr_metadataKey = ''__metadata'', tr_debug = False, tr_addMissingID = False\<rparr>"

definition sample_result :: "string \<Rightarrow> gvalue" where
  "sample_result i = VMap [(''message'', VString i),
     (''__lfv_metadata'', VMap [(''__lfv_id'', VString i), (''kept'', VString i)])]"

section \<open>Properties\<close>

text \<open>
  C33: the processing of the results. The results are put in the order of their ids and, of one id,
  of the outputs passed, whatever sorting function is used; none is lost. Each of them then has
  exactly the fields that the specification says: the verifier's own metadata is gone, the
  metadata of the event appears under the chosen key when it is to be exported, the tags of the
  verifier are removed (with the whole list if no other is left) and every other field is as it
  was; in debug mode the id and the output appear and the tags stay.
\<close>

theorem post_process_correct:
  assumes "json_ok jl view val show shows_list (own_keys (tr_metadataKey s))"
    and "tr_metadataKey s \<notin> {''__lfv_id'', ''__lfv_out_passed'', ''tags'', ''__lfv_metadata''}"
    and "sorts_by (result_less jl) sort_slice"
  shows "\<exists>rs rs'. postProcessResults jl sort_slice s t results = Ok rs' \<and> mset rs = mset results \<and>
    sorted (map (result_key jl) rs) \<and>
    list_all2 (\<lambda>r r'. \<forall>k. mget (view r') k = post_spec show shows_list s t (view r) k) rs rs'"
proof -
  obtain g where g: "post_process jl s t r = Ok (g r)"
    "\<And>k. mget (view (g r)) k = post_spec show shows_list s t (view r) k" for r
    using post_process_view [OF assms(1,2)] by metis
  have "postProcessResults jl sort_slice s t results = Ok (map g (sort_slice results))"
    unfolding postProcessResults_def using g(1) by (intro rmap_total)
  moreover have "sorted (map (result_key jl) (sort_slice results))" "mset (sort_slice results) = mset results"
    using assms(3) by (simp_all add: sorts_by_def result_less_key sorted_map not_less)
  ultimately show ?thesis
    using g(2) by (intro exI [of _ "sort_slice results"] exI [of _ "map g (sort_slice results)"])
      (simp add: list_all2_conv_all_nth)
qed

theorem post_process_correct_witness:
  "\<exists>rs'. postProcessResults sample_json (sort_key (result_key sample_json)) sample_run
      (sample_set\<lparr>t_ExportMetadata := True\<rparr>) [sample_result ''22'', sample_result ''1''] = Ok rs' \<and>
    length rs' = 2 \<and> (\<forall>r \<in> set rs'. mget (gvalue_view r) ''__lfv_metadata'' = None)"
proof -
  have key: "tr_metadataKey sample_run \<notin> {''__lfv_id'', ''__lfv_out_passed'', ''tags'', ''__lfv_metadata''}"
    by (simp add: sample_run_def)
  obtain rs rs' where "postProcessResults sample_json (sort_key (result_key sample_json)) sample_run
      (sample_set\<lparr>t_ExportMetadata := True\<rparr>) [sample_result ''22'', sample_result ''1''] = Ok rs'"
    and m: "mset rs = mset [sample_result ''22'', sample_result ''1'']"
    and v: "list_all2 (\<lambda>r r'. \<forall>k. mget (gvalue_view r') k = post_spec sample_show sample_shows sample_run
      (sample_set\<lparr>t_ExportMetadata := True\<rparr>) (gvalue_view r) k) rs rs'"
    using post_process_correct [OF sample_json_ok key sorts_by_sort_key,
      of "sample_set\<lparr>t_ExportMetadata := True\<rparr>" "[sample_result ''22'', sample_result ''1'']"] by (elim exE conjE) (rule that)
  moreover have "length rs' = 2" using mset_eq_length [OF m] list_all2_lengthD [OF v] by simp
  moreover have "mget (gvalue_view r) ''__lfv_metadata'' = None" if r: "r \<in> set rs'" for r
  proof -
    obtain p where p: "p < length rs'" "rs' ! p = r" using r by (auto simp: in_set_conv_nth)
    from list_all2_nthD2 [OF v p(1)]
    have "mget (gvalue_view r) ''__lfv_metadata'' = post_spec sample_show sample_shows sample_run
        (sample_set\<lparr>t_ExportMetadata := True\<rparr>) (gvalue_view (rs ! p)) ''__lfv_metadata''" unfolding p(2) ..
    then show ?thesis unfolding post_spec_metadata .
  qed
  ultimately show ?thesis by blast
qed

text \<open>
  What a run leaves behind: from the set-up of its session on, however the test cases end, the session
  is gone from the daemon afterwards and no other one has changed, unless the observer's goroutine
  has panicked.
\<close>

lemma run_ends_session:
  assumes "mget (sc_sessions (d_sessions d)) sid = Some s" and "0 < sc_wg (d_sessions d)"
    and "run_session_tests (daemon_client h se setup_call) env t sid tests (d, k) = (obs, res, d', k')"
    and "obs \<noteq> Panic"
  shows "GetSession sid (d_sessions d') = Err (no_session sid) \<and>
    (\<forall>sid'. sid' \<noteq> sid \<longrightarrow> GetSession sid' (d_sessions d') = GetSession sid' (d_sessions d)) \<and>
    Suc (sc_wg (d_sessions d')) = sc_wg (d_sessions d) \<and>
    (is_ok res \<longrightarrow> (\<exists>rs. obs = observed (rn_late env) rs True \<and> (\<forall>r \<in> set rs. r_Status r)))"
proof -
  have "session_live sid d (d, k)" using assms(1,2) by (simp add: session_live_def session_kept_def)
  note over = daemon_service.session_over [OF this assms(3)]
  from over(1) [OF assms(4)] show ?thesis by (intro conjI impI over(2)) (simp_all add: session_gone_def)
qed

definition sample_run_env :: "string run_env" where
  "sample_run_env = \<lparr>rn_marshal_events = (\<lambda>_. Ok []),
     rn_json = \<lparr>j_Int = (\<lambda>_ _. 0), j_String = (\<lambda>_ _. []), j_Strings = (\<lambda>_ _. []), j_Object = (\<lambda>_ _. None),
       j_SetString = (\<lambda>r _ _. Ok r), j_SetStrings = (\<lambda>r _ _. Ok r), j_SetObject = (\<lambda>r _ _. Ok r),
       j_Delete = (\<lambda>r _. Ok r), j_Unmarshal = (\<lambda>_. Ok None)\<rparr>,
     rn_sort = id, rn_cmp = sample_cmp, rn_late = 0, rn_executed = 0, rn_torn_down = False\<rparr>"

end
