(* ===== verification/Invocation.thy ===== *)
theory Invocation
  imports Logstash_Config
begin

text \<open>
  How the standalone mode prepares a Logstash process: \<open>internal/logstash/invocation.go\<close>,
  \<open>pipelineconfigdir.go\<close> and \<open>copyfile.go\<close>. The files written below the temporary directory are a map
  from path to contents; the files that are read lie elsewhere, and what the operating system
  says of them, and of each write, is a parameter. The configuration that the library parses is a
  struct of the library with a field for each kind of section; the assignment of nil to one of
  these fields is the parameter \<open>set_nil\<close>.
\<close>

record copy_io =
  cp_Stat :: "string \<Rightarrow> bool result"
  cp_ReadDir :: "string \<Rightarrow> (string \<times> bool) list result"
  cp_Open :: "string \<Rightarrow> string result"
  cp_Create :: "string \<Rightarrow> gerror option"
  cp_Copy :: "string \<Rightarrow> (nat \<times> gerror) option"
  cp_Close :: "string \<Rightarrow> gerror option"
  cp_StatDest :: "string \<Rightarrow> gerror option"
  cp_WriteFile :: "string \<Rightarrow> gerror option"

section \<open>Copying files\<close>

text \<open>A copy that fails halfway leaves the bytes written so far.\<close>

definition copyFile :: "copy_io \<Rightarrow> string \<Rightarrow> string \<Rightarrow> file_map \<Rightarrow> unit result \<times> file_map" where
  "copyFile io sourcePath destPath files =
     (case cp_Open io sourcePath of
        Err e \<Rightarrow> (Err e, files)
      | Panic \<Rightarrow> (Panic, files)
      | Ok body \<Rightarrow>
          (case cp_Create io destPath of
             Some e \<Rightarrow> (Err e, files)
           | None \<Rightarrow>
               (case cp_Copy io destPath of
                  Some (n, e) \<Rightarrow> (Err e, mput destPath (take n body) files)
                | None \<Rightarrow> (check (cp_Close io destPath) (), mput destPath body files))))"

definition allFilesExist :: "copy_io \<Rightarrow> string \<Rightarrow> string list \<Rightarrow> bool" where
  "allFilesExist io dir filenames = list_all (\<lambda>filename. is_ok (cp_Stat io (path_join [dir, filename]))) filenames"

fun copy_files :: "copy_io \<Rightarrow> string \<Rightarrow> string \<Rightarrow> string list \<Rightarrow> file_map \<Rightarrow> unit result \<times> file_map" where
  "copy_files io sourceDir dest [] files = (Ok (), files)"
| "copy_files io sourceDir dest (f # fs) files =
     (case copyFile io (path_join [sourceDir, f]) (path_join [dest, f]) files of
        (Ok _, files) \<Rightarrow> copy_files io sourceDir dest fs files
      | (r, files) \<Rightarrow> (r, files))"

text \<open>
  The loop of \<open>copyAllFiles\<close> over the directories that are left; \<open>missing\<close> is the error when there
  are none.
\<close>

fun copy_first :: "copy_io \<Rightarrow> gerror \<Rightarrow> string list \<Rightarrow> string list \<Rightarrow> string \<Rightarrow> file_map \<Rightarrow> string result \<times> file_map" where
  "copy_first io missing [] sourceFiles dest files = (Err missing, files)"
| "copy_first io missing (sourceDir # sourceDirs) sourceFiles dest files =
     (if \<not> allFilesExist io sourceDir sourceFiles then copy_first io missing sourceDirs sourceFiles dest files
      else (case copy_files io sourceDir dest sourceFiles files of
              (Ok _, files) \<Rightarrow> (Ok sourceDir, files)
            | (Err e, files) \<Rightarrow> (Err e, files)
            | (Panic, files) \<Rightarrow> (Panic, files)))"

definition copyAllFiles :: "copy_io \<Rightarrow> string list \<Rightarrow> string list \<Rightarrow> string \<Rightarrow> file_map \<Rightarrow> string result \<times> file_map" where
  "copyAllFiles io sourceDirs sourceFiles dest files =
     copy_first io (Errorf ''couldn't find the wanted files (%s) in any of these directories: %s''
         [join '', '' sourceFiles, join '', '' sourceDirs])
       sourceDirs sourceFiles dest files"

section \<open>The pipeline directory\<close>

definition getFilesInDir :: "copy_io \<Rightarrow> string \<Rightarrow> bool \<Rightarrow> string list result" where
  "getFilesInDir io dir includeDir =
     rbind (cp_ReadDir io dir) (\<lambda>fs.
       Ok (sort_strings (map (\<lambda>(n, isdir). if includeDir then path_join [dir, n] else n)
             (filter (\<lambda>(n, isdir). \<not> isdir) fs))))"

definition flattenFilenames :: "copy_io \<Rightarrow> string list \<Rightarrow> string list result" where
  "flattenFilenames io filenames =
     each (\<lambda>f result. rbind (cp_Stat io f) (\<lambda>isdir.
       if isdir then rbind (getFilesInDir io f True) (\<lambda>sub. Ok (result @ sub)) else Ok (result @ [f])))
       filenames []"

text \<open>The two assignments of \<open>removeInputOutput\<close>; the parser yields \<open>None\<close> for a nil value.\<close>

definition without_io :: "(plugin_type \<Rightarrow> 'cfg \<Rightarrow> 'cfg) \<Rightarrow> 'cfg \<Rightarrow> 'cfg" where
  "without_io set_nil config =
     (let config = set_nil Input config;
          config = set_nil Output config
      in config)"

definition removeInputOutput :: "copy_io \<Rightarrow> ('cfg, 'pl, 'at) ast_lib \<Rightarrow> (plugin_type \<Rightarrow> 'cfg \<Rightarrow> 'cfg) \<Rightarrow> string
    \<Rightarrow> file_map \<Rightarrow> unit result \<times> file_map" where
  "removeInputOutput io al set_nil path files =
     (case mget files path of
        None \<Rightarrow> (Err (Ext ''no such file or directory''), files)
      | Some body \<Rightarrow>
          (case al_parse al path body of
             Err e \<Rightarrow> (Err e, files)
           | Panic \<Rightarrow> (Panic, files)
           | Ok None \<Rightarrow> (Err (Errorf ''could not parse the following Logstash config file: %v'' [path]), files)
           | Ok (Some config) \<Rightarrow>
               (case cp_WriteFile io path of
                  Some e \<Rightarrow> (Err e, files)
                | None \<Rightarrow> (Ok (), mput path (al_render al (without_io set_nil config)) files))))"

text \<open>\<open>os.RemoveAll\<close>.\<close>

definition under :: "string \<Rightarrow> string \<Rightarrow> bool" where
  "under dir p \<longleftrightarrow> p = dir \<or> has_prefix p (dir @ ''/'')"

definition remove_all :: "string \<Rightarrow> file_map \<Rightarrow> file_map" where
  "remove_all dir files = filter (\<lambda>(p, body). \<not> under dir p) files"

definition same_name :: "string \<Rightarrow> gerror" where
  "same_name base = Errorf ''The collected list of configuration files contains two files with the name %q which isn't allowed.'' [base]"

fun install_files :: "copy_io \<Rightarrow> ('cfg, 'pl, 'at) ast_lib \<Rightarrow> (plugin_type \<Rightarrow> 'cfg \<Rightarrow> 'cfg) \<Rightarrow> string \<Rightarrow> string list
    \<Rightarrow> file_map \<Rightarrow> unit result \<times> file_map" where
  "install_files io al set_nil dir [] files = (Ok (), files)"
| "install_files io al set_nil dir (f # fs) files =
     (let dest = path_join [dir, path_base f]
      in case cp_StatDest io dest of
           Some err \<Rightarrow> (Err err, remove_all dir files)
         | None \<Rightarrow>
             if mget files dest \<noteq> None then (Err (same_name (path_base f)), remove_all dir files)
             else (case copyFile io f dest files of
                     (Err e, files) \<Rightarrow> (Err (Wrap ''Config file copy failed: %s'' e), remove_all dir files)
                   | (Panic, files) \<Rightarrow> (Panic, files)
                   | (Ok _, files) \<Rightarrow>
                       (case removeInputOutput io al set_nil dest files of
                          (Err e, files) \<Rightarrow>
                            (Err (Wrap ''Failed to remove the input and output sections: %s'' e), remove_all dir files)
                        | (Panic, files) \<Rightarrow> (Panic, files)
                        | (Ok _, files) \<Rightarrow> install_files io al set_nil dir fs files)))"

definition getPipelineConfigDir :: "copy_io \<Rightarrow> ('cfg, 'pl, 'at) ast_lib \<Rightarrow> (plugin_type \<Rightarrow> 'cfg \<Rightarrow> 'cfg) \<Rightarrow> string
    \<Rightarrow> string list \<Rightarrow> file_map \<Rightarrow> unit result \<times> file_map" where
  "getPipelineConfigDir io al set_nil dir configs files =
     (case flattenFilenames io configs of
        Err e \<Rightarrow> (Err (Wrap ''Error listing configuration files: %s'' e), files)
      | Panic \<Rightarrow> (Panic, files)
      | Ok allFiles \<Rightarrow> install_files io al set_nil dir allFiles files)"

section \<open>The invocation\<close>

record invocation =
  inv_LogstashPath :: string
  inv_args :: "string list"
  inv_ioConfigFile :: string
  inv_logDir :: string
  inv_logFile :: string
  inv_tempDir :: string

record inv_io =
  iv_copy :: copy_io
  iv_MkdirTemp :: "string result"
  iv_Mkdir :: "string \<Rightarrow> gerror option"
  iv_CreateTemp :: "string \<Rightarrow> string result"
  iv_at_least :: "string \<Rightarrow> bool"

definition copyConfigFiles :: "copy_io \<Rightarrow> string \<Rightarrow> string \<Rightarrow> file_map \<Rightarrow> string result \<times> file_map" where
  "copyConfigFiles io logstashPath configDir files =
     copyAllFiles io
       [clean (path_join [path_dir logstashPath, ''../config'']),
        clean (path_join [path_dir logstashPath, ''../etc/logstash'']),
        ''/etc/logstash'']
       [''jvm.options'', ''log4j2.properties''] configDir files"

fun first_error :: "('a \<Rightarrow> gerror option) \<Rightarrow> 'a list \<Rightarrow> gerror option" where
  "first_error f [] = None"
| "first_error f (x # xs) = (case f x of Some e \<Rightarrow> Some e | None \<Rightarrow> first_error f xs)"

text \<open>The settings directory of Logstash 5 and later: the copied files and an empty settings file.\<close>

definition write_settings :: "inv_io \<Rightarrow> string \<Rightarrow> string \<Rightarrow> file_map \<Rightarrow> unit result \<times> file_map" where
  "write_settings io logstashPath configDir files =
     (case copyConfigFiles (iv_copy io) logstashPath configDir files of
        (Err e, files) \<Rightarrow> (Err e, files)
      | (Panic, files) \<Rightarrow> (Panic, files)
      | (Ok _, files) \<Rightarrow>
          (let yml = path_join [configDir, ''logstash.yml'']
           in case cp_WriteFile (iv_copy io) yml of
                Some e \<Rightarrow> (Err e, files)
              | None \<Rightarrow> (Ok (), mput yml [] files)))"

definition invocation_args :: "(string \<Rightarrow> bool) \<Rightarrow> string \<Rightarrow> string \<Rightarrow> string list \<Rightarrow> string list" where
  "invocation_args at_least tempDir logfilePath logstashArgs =
     [''-w'', ''1'', ''--debug'', ''-f'', path_join [tempDir, ''pipeline.d'']]
     @ (if at_least ''2.2.0'' then [''-b'', ''1''] else [])
     @ (if at_least ''5.0.0'' then [''-l'', path_dir logfilePath, ''--path.settings'', path_join [tempDir, ''config''],
          ''--path.data'', path_join [tempDir, ''data'']]
        else [''-l'', logfilePath])
     @ logstashArgs"

definition NewInvocation :: "inv_io \<Rightarrow> ('cfg, 'pl, 'at) ast_lib \<Rightarrow> (plugin_type \<Rightarrow> 'cfg \<Rightarrow> 'cfg) \<Rightarrow> string \<Rightarrow> string list
    \<Rightarrow> string list \<Rightarrow> file_map \<Rightarrow> invocation result \<times> file_map" where
  "NewInvocation io al set_nil logstashPath logstashArgs configs files =
     (if configs = []
      then (Err (Errorf ''must provide non-empty list of configuration file or directory names'' []), files)
      else case iv_MkdirTemp io of
        Err e \<Rightarrow> (Err e, files)
      | Panic \<Rightarrow> (Panic, files)
      | Ok tempDir \<Rightarrow>
          (let configDir = path_join [tempDir, ''config'']; dataDir = path_join [tempDir, ''data''];
               logDir = path_join [tempDir, ''log'']; pipelineDir = path_join [tempDir, ''pipeline.d''];
               logfilePath = path_join [logDir, ''logstash-plain.log'']
           in case first_error (iv_Mkdir io) [configDir, dataDir, logDir, pipelineDir] of
                Some e \<Rightarrow> (Err e, remove_all tempDir files)
              | None \<Rightarrow>
            (case cp_Create (iv_copy io) logfilePath of
               Some e \<Rightarrow> (Err e, remove_all tempDir files)
             | None \<Rightarrow>
            (case getPipelineConfigDir (iv_copy io) al set_nil pipelineDir configs (mput logfilePath [] files) of
               (Err e, files) \<Rightarrow> (Err e, remove_all tempDir files)
             | (Panic, files) \<Rightarrow> (Panic, files)
             | (Ok _, files) \<Rightarrow>
            (case iv_CreateTemp io pipelineDir of
               Err e \<Rightarrow> (Err e, remove_all tempDir files)
             | Panic \<Rightarrow> (Panic, files)
             | Ok ioConfigFile \<Rightarrow>
            (case (if iv_at_least io ''5.0.0'' then write_settings io logstashPath configDir (mput ioConfigFile [] files)
                   else (Ok (), mput ioConfigFile [] files)) of
               (Err e, files) \<Rightarrow> (Err e, remove_all tempDir files)
             | (Panic, files) \<Rightarrow> (Panic, files)
             | (Ok _, files) \<Rightarrow>
                 (Ok \<lparr>inv_LogstashPath = logstashPath,
                      inv_args = invocation_args (iv_at_least io) tempDir logfilePath logstashArgs,
                      inv_ioConfigFile = ioConfigFile, inv_logDir = logDir, inv_logFile = logfilePath,
                      inv_tempDir = tempDir\<rparr>, files)))))))"

text \<open>\<open>WriteAt(b, 0)\<close> overwrites the first bytes; \<open>Truncate\<close> cuts what is longer.\<close>

definition Args :: "gerror option \<Rightarrow> gerror option \<Rightarrow> invocation \<Rightarrow> string \<Rightarrow> string \<Rightarrow> file_map
    \<Rightarrow> string list result \<times> file_map" where
  "Args writeErr truncateErr iv inputs outputs files =
     (let ioConfig = inputs @ [CHR 0x0A] @ outputs;
          old = (case mget files (inv_ioConfigFile iv) of None \<Rightarrow> [] | Some b \<Rightarrow> b);
          written = ioConfig @ drop (length ioConfig) old
      in case writeErr of
           Some e \<Rightarrow> (Err e, files)
         | None \<Rightarrow>
             (case truncateErr of
                Some e \<Rightarrow> (Err e, mput (inv_ioConfigFile iv) written files)
              | None \<Rightarrow> (Ok (inv_args iv),
                         mput (inv_ioConfigFile iv) (take (length ioConfig) written) files)))"

definition Release_invocation :: "invocation \<Rightarrow> file_map \<Rightarrow> file_map" where
  "Release_invocation iv files = remove_all (inv_tempDir iv) files"

section \<open>Facts\<close>

lemma mget_remove_all [map_simps]: "mget (remove_all dir files) p = (if under dir p then None else mget files p)"
  unfolding remove_all_def mget_def by (induction files) auto

text \<open>An operating system in which nothing fails; the files \<open>fs\<close> can be read.\<close>

definition calm_copy :: "copy_io \<Rightarrow> (string \<Rightarrow> string) \<Rightarrow> string set \<Rightarrow> bool" where
  "calm_copy io body fs \<longleftrightarrow> (\<forall>f \<in> fs. cp_Open io f = Ok (body f)) \<and>
     (\<forall>p. cp_Create io p = None \<and> cp_Copy io p = None \<and> cp_Close io p = None \<and>
       cp_StatDest io p = None \<and> cp_WriteFile io p = None)"

definition dest :: "string \<Rightarrow> string \<Rightarrow> string" where
  "dest dir f = dir @ ''/'' @ path_base f"

lemma dest_join: "plain_dir dir \<Longrightarrow> plain_elem (path_base f) \<Longrightarrow> path_join [dir, path_base f] = dest dir f"
  by (simp add: dest_def path_join_plain(1))

lemma under_dest: "under dir (dest dir f)"
  by (simp add: under_def dest_def has_prefix_def)

lemma dest_inject: "dest dir f = dest dir g \<longleftrightarrow> path_base f = path_base g"
  by (simp add: dest_def)

text \<open>
  What an assignment to a field of the struct does: the plugins of that kind are gone, the others
  are as they were.
\<close>

definition nil_ok :: "('cfg, 'pl, 'at) ast_lib \<Rightarrow> (plugin_type \<Rightarrow> 'cfg \<Rightarrow> 'cfg) \<Rightarrow> bool" where
  "nil_ok al set_nil \<longleftrightarrow> (\<forall>sec sec' cfg. al_plugins al sec' (set_nil sec cfg) =
     (if sec' = sec then [] else al_plugins al sec' cfg))"

lemma without_io_plugins:
  "nil_ok al set_nil \<Longrightarrow> al_plugins al sec (without_io set_nil cfg) =
     (if sec = Filter then al_plugins al Filter cfg else [])"
  by (cases sec) (simp_all add: nil_ok_def without_io_def)

text \<open>An installation of the files \<open>fs\<close>, each of which is parsed to \<open>cfg f\<close>, in which nothing fails.\<close>

definition calm_install :: "copy_io \<Rightarrow> ('cfg, 'pl, 'at) ast_lib \<Rightarrow> string \<Rightarrow> (string \<Rightarrow> 'cfg) \<Rightarrow> string list \<Rightarrow> bool" where
  "calm_install io al dir cfg fs \<longleftrightarrow> plain_dir dir \<and>
     (\<exists>body. calm_copy io body (set fs) \<and>
       (\<forall>f \<in> set fs. al_parse al (dest dir f) (body f) = Ok (Some (cfg f)) \<and> plain_elem (path_base f)))"

lemma install_present:
  assumes "calm_install io al dir cfg fs"
  shows "f \<in> set fs \<Longrightarrow> mget files (dest dir f) \<noteq> None \<Longrightarrow>
   install_files io al set_nil dir (f # gs) files = (Err (same_name (path_base f)), remove_all dir files)"
  using assms by (auto simp: calm_install_def calm_copy_def dest_join Let_def)

text \<open>The files after one more file was installed.\<close>

definition installed :: "copy_io \<Rightarrow> ('cfg, 'pl, 'at) ast_lib \<Rightarrow> (plugin_type \<Rightarrow> 'cfg \<Rightarrow> 'cfg) \<Rightarrow> string \<Rightarrow> (string \<Rightarrow> 'cfg)
    \<Rightarrow> string \<Rightarrow> file_map \<Rightarrow> file_map \<Rightarrow> bool" where
  "installed io al set_nil dir cfg f files files' \<longleftrightarrow>
     (\<forall>gs. install_files io al set_nil dir (f # gs) files = install_files io al set_nil dir gs files') \<and>
     (\<forall>p. mget files' p = (if p = dest dir f then Some (al_render al (without_io set_nil (cfg f))) else mget files p))"

lemma installed_get:
  "installed io al set_nil dir cfg f files files' \<Longrightarrow>
   mget files' p = (if p = dest dir f then Some (al_render al (without_io set_nil (cfg f))) else mget files p)"
  by (simp only: installed_def)

lemma installed_run:
  "installed io al set_nil dir cfg f files files' \<Longrightarrow>
   install_files io al set_nil dir (f # gs) files = install_files io al set_nil dir gs files'"
  by (simp only: installed_def)

lemma install_absent:
  assumes "calm_install io al dir cfg fs" and "f \<in> set fs" and "mget files (dest dir f) = None"
  obtains files' where "installed io al set_nil dir cfg f files files'"
proof -
  from assms(1) obtain body where "plain_dir dir" "calm_copy io body (set fs)"
    "\<forall>f \<in> set fs. al_parse al (dest dir f) (body f) = Ok (Some (cfg f)) \<and> plain_elem (path_base f)"
    unfolding calm_install_def by blast
  then show thesis using assms(2,3)
    by (intro that [of "mput (dest dir f) (al_render al (without_io set_nil (cfg f))) (mput (dest dir f) (body f) files)"])
      (simp add: installed_def calm_copy_def dest_join copyFile_def removeInputOutput_def check_def map_simps Let_def)
qed

lemma install_distinct:
  assumes C: "calm_install io al dir cfg fs"
  shows "set gs \<subseteq> set fs \<Longrightarrow> distinct (map path_base gs) \<Longrightarrow> \<forall>f \<in> set gs. mget files (dest dir f) = None \<Longrightarrow>
   \<exists>files'. install_files io al set_nil dir gs files = (Ok (), files') \<and>
     (\<forall>f \<in> set gs. mget files' (dest dir f) = Some (al_render al (without_io set_nil (cfg f)))) \<and>
     (\<forall>p. p \<notin> dest dir ` set gs \<longrightarrow> mget files' p = mget files p)"
proof (induction gs arbitrary: files)
  case (Cons f gs)
  obtain files1 where files1: "installed io al set_nil dir cfg f files files1"
    using install_absent [OF C, of f files] Cons.prems(1,3) by auto
  have fresh: "dest dir f \<notin> dest dir ` set gs" using Cons.prems(2) by (auto simp: dest_inject)
  then have "\<forall>g \<in> set gs. mget files1 (dest dir g) = None"
    using Cons.prems(3) by (auto simp: installed_get [OF files1] image_iff)
  with Cons.IH [of files1] Cons.prems(1,2) obtain files' where
    run: "install_files io al set_nil dir gs files1 = (Ok (), files')"
    and got: "\<forall>g \<in> set gs. mget files' (dest dir g) = Some (al_render al (without_io set_nil (cfg g)))"
    and frame: "\<forall>p. p \<notin> dest dir ` set gs \<longrightarrow> mget files' p = mget files1 p" by auto
  have "mget files' (dest dir f) = Some (al_render al (without_io set_nil (cfg f)))"
    using frame fresh by (simp add: installed_get [OF files1])
  then show ?case unfolding installed_run [OF files1] using run got frame
    by (intro exI [of _ files']) (simp add: installed_get [OF files1])
qed simp

lemma install_clash:
  assumes C: "calm_install io al dir cfg fs"
  shows "set gs \<subseteq> set fs \<Longrightarrow> \<not> distinct (map path_base gs) \<or> (\<exists>f \<in> set gs. mget files (dest dir f) \<noteq> None) \<Longrightarrow>
   \<exists>f \<in> set gs. \<exists>files'. install_files io al set_nil dir gs files = (Err (same_name (path_base f)), files') \<and>
     (mget files (dest dir f) \<noteq> None \<or> 2 \<le> count_list (map path_base gs) (path_base f)) \<and>
     (\<forall>p. mget files' p = (if under dir p then None else mget files p))"
proof (induction gs arbitrary: files)
  case (Cons f gs)
  show ?case
  proof (cases "mget files (dest dir f)")
    case (Some b)
    with install_present [OF C, of f files set_nil gs] Cons.prems(1) show ?thesis
      by (intro bexI [of _ f] exI [of _ "remove_all dir files"]) (simp_all add: mget_remove_all)
  next
    case None
    obtain files1 where files1: "installed io al set_nil dir cfg f files files1"
      using install_absent [OF C, of f files] Cons.prems(1) None by auto
    have "\<not> distinct (map path_base gs) \<or> (\<exists>g \<in> set gs. mget files1 (dest dir g) \<noteq> None)"
      using Cons.prems(2) None by (auto simp: installed_get [OF files1] dest_inject)
    with Cons.IH [of files1] Cons.prems(1) obtain g files' where g: "g \<in> set gs"
      "install_files io al set_nil dir gs files1 = (Err (same_name (path_base g)), files')"
      "mget files1 (dest dir g) \<noteq> None \<or> 2 \<le> count_list (map path_base gs) (path_base g)"
      and frame: "\<forall>p. mget files' p = (if under dir p then None else mget files1 p)" by auto
    have "mget files (dest dir g) \<noteq> None \<or> 2 \<le> count_list (map path_base (f # gs)) (path_base g)"
    proof (cases "path_base f = path_base g")
      case True
      have "count_list (map path_base gs) (path_base g) \<noteq> 0" using g(1) by (simp add: count_list_0_iff)
      with True show ?thesis by simp
    qed (use g(3) in \<open>auto simp: installed_get [OF files1] dest_inject split: if_splits\<close>)
    moreover have "mget files' p = (if under dir p then None else mget files p)" for p
      using frame under_dest [of dir f] by (auto simp: installed_get [OF files1])
    ultimately show ?thesis unfolding installed_run [OF files1]
      using g(1,2) by (intro bexI [of _ g] exI [of _ files']) simp_all
  qed
qed simp

lemma copy_first_found:
  assumes "\<not> (\<exists>d \<in> set ds. allFilesExist io d ns)" and "allFilesExist io d ns"
  shows "copy_first io missing (ds @ d # es) ns dst files =
    (case copy_files io d dst ns files of (Ok _, files) \<Rightarrow> (Ok d, files)
      | (Err e, files) \<Rightarrow> (Err e, files) | (Panic, files) \<Rightarrow> (Panic, files))"
  using assms by (induction ds) auto

lemma copy_first_missing:
  "\<not> (\<exists>d \<in> set ds. allFilesExist io d ns) \<Longrightarrow> copy_first io missing ds ns dst files = (Err missing, files)"
  by (induction ds) auto

text \<open>The files come from the first directory that has all of them; without one nothing is copied.\<close>

lemma copyAllFiles_cases:
  obtains (found) ds d es where "dirs = ds @ d # es" "\<not> (\<exists>d \<in> set ds. allFilesExist io d ns)" "allFilesExist io d ns"
      "copyAllFiles io dirs ns dst files =
        (case copy_files io d dst ns files of (Ok _, files) \<Rightarrow> (Ok d, files)
          | (Err e, files) \<Rightarrow> (Err e, files) | (Panic, files) \<Rightarrow> (Panic, files))"
  | (missing) "\<not> (\<exists>d \<in> set dirs. allFilesExist io d ns)"
      "copyAllFiles io dirs ns dst files = (Err (Errorf
        ''couldn't find the wanted files (%s) in any of these directories: %s'' [join '', '' ns, join '', '' dirs]), files)"
proof (cases "\<exists>d \<in> set dirs. allFilesExist io d ns")
  case True
  then obtain ds d es where "dirs = ds @ d # es" "allFilesExist io d ns" "\<forall>d \<in> set ds. \<not> allFilesExist io d ns"
    using split_list_first_prop [OF True] by blast
  then show thesis by (intro found [of ds d es]) (auto simp: copyAllFiles_def copy_first_found)
qed (auto intro: missing simp: copyAllFiles_def copy_first_missing)

lemma Args_content:
  "Args None None i inputs outputs files
     = (Ok (inv_args i), mput (inv_ioConfigFile i) (inputs @ [CHR 0x0A] @ outputs) files)"
  by (simp add: Args_def Let_def)

lemma NewInvocation_cases:
  assumes "NewInvocation io al set_nil path args configs files = (r, files')"
    and "iv_MkdirTemp io = Ok tempDir" and "configs \<noteq> []"
  obtains (failed) e files0 where "r = Err e" "files' = remove_all tempDir files0"
  | (panic) "r = Panic"
  | (ready) i where "r = Ok i" "inv_tempDir i = tempDir" "inv_LogstashPath i = path"
      "inv_args i = invocation_args (iv_at_least io) tempDir (inv_logFile i) args"
  using assms unfolding NewInvocation_def
  by (auto simp: Let_def split: option.splits result.splits prod.splits)

section \<open>Properties\<close>

text \<open>
  C37: the pipeline directory of an invocation. When the files can be read, written and parsed, the
  configuration files are installed exactly if no two of them have the same base name: then each
  is in the directory under that name, rendered from a configuration that has the filter plugins of
  the parsed one and no input or output plugins, and nothing else has changed; otherwise the call
  fails, naming a base name that occurs twice, and leaves nothing in the directory.
\<close>

theorem config_dir_correct:
  assumes "flattenFilenames io configs = Ok fs" and "calm_install io al dir cfg fs"
    and "\<forall>p. under dir p \<longrightarrow> mget files p = None" and "nil_ok al set_nil"
  shows "if distinct (map path_base fs)
    then \<exists>files'. getPipelineConfigDir io al set_nil dir configs files = (Ok (), files') \<and>
      (\<forall>f \<in> set fs. \<exists>c. mget files' (dest dir f) = Some (al_render al c) \<and>
        al_plugins al Input c = [] \<and> al_plugins al Output c = [] \<and>
        al_plugins al Filter c = al_plugins al Filter (cfg f)) \<and>
      (\<forall>p. p \<notin> dest dir ` set fs \<longrightarrow> mget files' p = mget files p)
    else \<exists>f \<in> set fs. \<exists>files'. getPipelineConfigDir io al set_nil dir configs files
        = (Err (same_name (path_base f)), files') \<and>
      2 \<le> count_list (map path_base fs) (path_base f) \<and> (\<forall>p. mget files' p = mget files p)"
proof -
  have fresh: "\<forall>f \<in> set fs. mget files (dest dir f) = None" using assms(3) under_dest by blast
  have run: "getPipelineConfigDir io al set_nil dir configs files = install_files io al set_nil dir fs files"
    by (simp add: getPipelineConfigDir_def assms(1))
  show ?thesis
  proof (cases "distinct (map path_base fs)")
    case True
    from install_distinct [OF assms(2) subset_refl True fresh, of set_nil] obtain files' where
      "install_files io al set_nil dir fs files = (Ok (), files')"
      and got: "\<forall>f \<in> set fs. mget files' (dest dir f) = Some (al_render al (without_io set_nil (cfg f)))"
      and "\<forall>p. p \<notin> dest dir ` set fs \<longrightarrow> mget files' p = mget files p" by blast
    moreover have "\<exists>c. mget files' (dest dir f) = Some (al_render al c) \<and>
        al_plugins al Input c = [] \<and> al_plugins al Output c = [] \<and>
        al_plugins al Filter c = al_plugins al Filter (cfg f)" if "f \<in> set fs" for f
      using got that without_io_plugins [OF assms(4)] by (intro exI [of _ "without_io set_nil (cfg f)"]) simp
    ultimately show ?thesis unfolding run using True by simp
  next
    case False
    then obtain f files' where "f \<in> set fs"
      "install_files io al set_nil dir fs files = (Err (same_name (path_base f)), files')"
      "2 \<le> count_list (map path_base fs) (path_base f)"
      "\<forall>p. mget files' p = (if under dir p then None else mget files p)"
      using install_clash [OF assms(2) subset_refl, of files set_nil] fresh by auto
    with False assms(3) show ?thesis unfolding run by auto
  qed
qed

definition sample_copy :: copy_io where
  "sample_copy = \<lparr>cp_Stat = (\<lambda>p. Ok (p = ''/a'')), cp_ReadDir = (\<lambda>p. Ok [(''y'', False), (''x'', False)]),
     cp_Open = (\<lambda>p. Ok p), cp_Create = (\<lambda>p. None), cp_Copy = (\<lambda>p. None), cp_Close = (\<lambda>p. None),
     cp_StatDest = (\<lambda>p. None), cp_WriteFile = (\<lambda>p. None)\<rparr>"

text \<open>
  An example: a parsed file with a plugin of each kind; the rendering lists the plugins' names.
\<close>

definition sample_set_nil :: "plugin_type \<Rightarrow> (plugin_type \<Rightarrow> sample_plugin list) \<Rightarrow> plugin_type \<Rightarrow> sample_plugin list" where
  "sample_set_nil sec cfg = cfg(sec := [])"

lemma sample_nil_ok: "al_plugins al = (\<lambda>sec cfg. cfg sec) \<Longrightarrow> nil_ok al sample_set_nil"
  by (simp add: nil_ok_def sample_set_nil_def)

definition sample_tree :: "plugin_type \<Rightarrow> sample_plugin list" where
  "sample_tree sec = (case sec of Input \<Rightarrow> [(''stdin'', [])] | Filter \<Rightarrow> [(''mutate'', [])] | Output \<Rightarrow> [(''stdout'', [])])"

definition naming_ast :: "(plugin_type \<Rightarrow> sample_plugin list, sample_plugin, string \<times> string) ast_lib" where
  "naming_ast = sample_ast\<lparr>al_parse := (\<lambda>name body. Ok (Some sample_tree)),
     al_render := (\<lambda>cfg. concat (map (\<lambda>sec. concat (map fst (cfg sec))) [Input, Filter, Output]))\<rparr>"

lemma naming_fields [simp]: "al_plugins naming_ast = (\<lambda>sec cfg. cfg sec)"
  "al_parse naming_ast = (\<lambda>name body. Ok (Some sample_tree))"
  "al_render naming_ast cfg = concat (map fst (cfg Input)) @ concat (map fst (cfg Filter)) @ concat (map fst (cfg Output))"
  by (simp_all add: naming_ast_def sample_ast_def)

theorem config_dir_correct_witness:
  "(\<exists>files'. getPipelineConfigDir sample_copy naming_ast sample_set_nil ''/t'' [''/b/x''] [] = (Ok (), files') \<and>
      mget files' ''/t/x'' = Some ''mutate'') \<and>
   (\<exists>f files'. getPipelineConfigDir sample_copy naming_ast sample_set_nil ''/t'' [''/a'', ''/b/x''] [(''/other'', [])]
      = (Err (same_name (path_base f)), files') \<and> f \<in> {''/a/x'', ''/a/y'', ''/b/x''} \<and> mget files' ''/other'' = Some [])"
proof
  have flat: "flattenFilenames sample_copy [''/a'', ''/b/x''] = Ok [''/a/x'', ''/a/y'', ''/b/x'']"
    "flattenFilenames sample_copy [''/b/x''] = Ok [''/b/x'']" by code_simp+
  have bases: "map path_base [''/a/x'', ''/a/y'', ''/b/x''] = [''x'', ''y'', ''x'']" "path_base ''/b/x'' = ''x''" by code_simp+
  have "plain_dir ''/t''"
    unfolding plain_dir_def by (rule exI [of _ "[''t'']"]) (simp add: plain_elem_def)
  moreover have "\<forall>f \<in> set [''/a/x'', ''/a/y'', ''/b/x'']. plain_elem (path_base f)" by code_simp
  ultimately have calm: "calm_install sample_copy naming_ast ''/t'' (\<lambda>_. sample_tree) [''/a/x'', ''/a/y'', ''/b/x'']"
    "calm_install sample_copy naming_ast ''/t'' (\<lambda>_. sample_tree) [''/b/x'']"
    unfolding calm_install_def
    by (intro conjI exI [of _ id]; simp add: calm_copy_def sample_copy_def)+
  have fresh: "\<forall>p. under ''/t'' p \<longrightarrow> mget [(''/other'', [])] p = (None :: string option)"
    "\<forall>p. under ''/t'' p \<longrightarrow> mget [] p = (None :: string option)"
    by (auto simp: under_def has_prefix_def)
  note nil = sample_nil_ok [OF naming_fields(1)]
  have one: "distinct (map path_base [''/b/x''])" by simp
  obtain files' c where "getPipelineConfigDir sample_copy naming_ast sample_set_nil ''/t'' [''/b/x''] [] = (Ok (), files')"
    "mget files' (dest ''/t'' ''/b/x'') = Some (al_render naming_ast c)"
    "al_plugins naming_ast Input c = []" "al_plugins naming_ast Output c = []"
    "al_plugins naming_ast Filter c = al_plugins naming_ast Filter sample_tree"
    using config_dir_correct [OF flat(2) calm(2) fresh(2) nil, unfolded if_P [OF one]] by auto
  then show "\<exists>files'. getPipelineConfigDir sample_copy naming_ast sample_set_nil ''/t'' [''/b/x''] [] = (Ok (), files') \<and>
      mget files' ''/t/x'' = Some ''mutate''"
    by (intro exI [of _ files']) (simp add: dest_def bases(2) sample_tree_def)
  have dup: "\<not> distinct (map path_base [''/a/x'', ''/a/y'', ''/b/x''])" unfolding bases by simp
  obtain f files' where "f \<in> set [''/a/x'', ''/a/y'', ''/b/x'']"
    "getPipelineConfigDir sample_copy naming_ast sample_set_nil ''/t'' [''/a'', ''/b/x''] [(''/other'', [])]
      = (Err (same_name (path_base f)), files')"
    "\<forall>p. mget files' p = mget [(''/other'', [])] p"
    using config_dir_correct [OF flat(1) calm(1) fresh(1) nil, unfolded if_not_P [OF dup]] by (elim bexE exE conjE) (rule that)
  then show "\<exists>f files'. getPipelineConfigDir sample_copy naming_ast sample_set_nil ''/t'' [''/a'', ''/b/x''] [(''/other'', [])]
      = (Err (same_name (path_base f)), files') \<and> f \<in> {''/a/x'', ''/a/y'', ''/b/x''} \<and> mget files' ''/other'' = Some []"
    by (intro exI [of _ f] exI [of _ files']) simp
qed

text \<open>
  Preparing an invocation. A failure of \<open>NewInvocation\<close> after its temporary directory was made
  leaves no file below that directory; a success yields the arguments that end with the user's
  own and name the pipeline directory, with the batch size from version 2.2 on and the settings
  directory from 5.0 on. The input and output configuration that \<open>Args\<close> writes is exactly the
  given one, whatever longer one an earlier call has written.
\<close>

theorem invocation_correct:
  assumes "NewInvocation io al set_nil path args configs files = (r, files')"
    and "iv_MkdirTemp io = Ok tempDir" and "configs \<noteq> []"
  shows "(\<forall>e p. r = Err e \<and> under tempDir p \<longrightarrow> mget files' p = None) \<and>
    (\<forall>i. r = Ok i \<longrightarrow> inv_tempDir i = tempDir \<and> inv_LogstashPath i = path \<and>
       inv_args i = invocation_args (iv_at_least io) tempDir (inv_logFile i) args \<and>
       (\<forall>ins0 outs0 ins outs fs. \<exists>fs'.
          Args None None i ins outs (snd (Args None None i ins0 outs0 fs)) = (Ok (inv_args i), fs') \<and>
          mget fs' (inv_ioConfigFile i) = Some (ins @ [CHR 0x0A] @ outs)))"
proof -
  from assms show ?thesis
    by (cases rule: NewInvocation_cases) (auto simp: Args_content map_simps)
qed

definition sample_inv_io :: inv_io where
  "sample_inv_io = \<lparr>iv_copy = sample_copy, iv_MkdirTemp = Ok ''/t'', iv_Mkdir = (\<lambda>p. None),
     iv_CreateTemp = (\<lambda>d. Ok (d @ ''/io.conf'')), iv_at_least = (\<lambda>v. v = ''2.2.0'')\<rparr>"

theorem invocation_correct_witness:
  "\<exists>i files'. NewInvocation sample_inv_io sample_ast sample_set_nil ''/bin/logstash'' [''--x''] [''/b/x''] [] = (Ok i, files') \<and>
    inv_args i = [''-w'', ''1'', ''--debug'', ''-f'', ''/t/pipeline.d'', ''-b'', ''1'', ''-l'', inv_logFile i, ''--x'']"
proof -
  have "is_ok (fst (NewInvocation sample_inv_io sample_ast sample_set_nil ''/bin/logstash'' [''--x''] [''/b/x''] []))" by code_simp
  then obtain i files' where
    new: "NewInvocation sample_inv_io sample_ast sample_set_nil ''/bin/logstash'' [''--x''] [''/b/x''] [] = (Ok i, files')"
    by (cases "NewInvocation sample_inv_io sample_ast sample_set_nil ''/bin/logstash'' [''--x''] [''/b/x''] []")
      (auto simp: is_ok_iff)
  have "iv_MkdirTemp sample_inv_io = Ok ''/t''" "iv_at_least sample_inv_io = (\<lambda>v. v = ''2.2.0'')"
    by (simp_all add: sample_inv_io_def)
  moreover have "path_join [''/t'', ''pipeline.d''] = ''/t/pipeline.d''" by code_simp
  ultimately have "inv_args i = [''-w'', ''1'', ''--debug'', ''-f'', ''/t/pipeline.d'', ''-b'', ''1'', ''-l'', inv_logFile i, ''--x'']"
    using invocation_correct [OF new, of "''/t''"] by (simp add: invocation_args_def)
  with new show ?thesis by blast
qed

end
