(* ===== verification/Process.thy ===== *)
theory Process
  imports Invocation Limited_Env Instance_Log Test_Case
begin

text \<open>
  The Logstash processes of the standalone mode: \<open>internal/logstash/process.go\<close>,
  \<open>parallel_process.go\<close>, \<open>eventreader.go\<close>, \<open>result.go\<close> and \<open>deleted_tempfile.go\<close>. What the child process
  does is a parameter: how it ends, what it has logged and printed, and the contents of the
  output files.
\<close>

section \<open>Reading events\<close>

fun read_lines :: "(string \<Rightarrow> event result) \<Rightarrow> string list \<Rightarrow> gerror option \<Rightarrow> event list
    \<Rightarrow> event list \<times> gerror option" where
  "read_lines unjson [] scanErr events = (events, scanErr)"
| "read_lines unjson (l # ls) scanErr events =
     (case unjson l of
        Ok event \<Rightarrow> read_lines unjson ls scanErr (events @ [event])
      | _ \<Rightarrow> (events, Some (Errorf ''Logstash emitted this line which can't be parsed as JSON: %s'' [l])))"

definition readEvents :: "(string \<Rightarrow> event result) \<Rightarrow> string \<Rightarrow> event list \<times> gerror option" where
  "readEvents unjson r =
     (let (ls, tooLong) = scan r
      in read_lines unjson ls (if tooLong then Some (Ext ''bufio.Scanner: token too long'') else None) [])"

section \<open>One process per test case file\<close>

record 'e process_result =
  res_Success :: bool
  res_Events :: 'e
  res_Log :: string
  res_Output :: string

text \<open>How a child process has ended.\<close>

record ended =
  en_waitErr :: "gerror option"
  en_log :: string
  en_stdio :: string
  en_output :: "string \<Rightarrow> string"

record proc_io =
  pi_TempFile :: "string result"
  pi_WriteAt :: "gerror option"
  pi_Truncate :: "gerror option"
  pi_StdinPipe :: "gerror option"
  pi_start :: "gerror option"

record process =
  pr_command :: string
  pr_args :: "string list"
  pr_env :: "string list"
  pr_output :: string
  pr_born :: bool

definition newProcessWithArgs :: "gerror option \<Rightarrow> string \<Rightarrow> string list \<Rightarrow> string list \<Rightarrow> process result" where
  "newProcessWithArgs pipeErr command args env =
     check pipeErr \<lparr>pr_command = command, pr_args = args, pr_env = env, pr_output = [], pr_born = False\<rparr>"

definition stdin_input :: "string \<Rightarrow> string \<Rightarrow> string" where
  "stdin_input codec fieldHash = ''input { stdin { codec => '' @ codec @ '' add_field => '' @ fieldHash @ '' } }''"

definition file_output :: "string \<Rightarrow> string" where
  "file_output name = ''output { file { path => '' @ quote name @ '' codec => '' @ quote ''json_lines'' @ '' } }''"

text \<open>A nil field set serialises as an empty one; closing the temporary file deletes it.\<close>

definition NewProcess :: "proc_io \<Rightarrow> string list \<Rightarrow> invocation \<Rightarrow> string \<Rightarrow> fields option \<Rightarrow> string list
    \<Rightarrow> file_map \<Rightarrow> process result \<times> file_map" where
  "NewProcess io environ iv inputCodec fs keptEnvVars files =
     (case pi_TempFile io of
        Err e \<Rightarrow> (Err e, files)
      | Panic \<Rightarrow> (Panic, files)
      | Ok name \<Rightarrow>
          (let files = mput name [] files
           in case LogstashHash (case fs of None \<Rightarrow> [] | Some m \<Rightarrow> m) of
                Err e \<Rightarrow> (Err e, mdel name files)
              | Panic \<Rightarrow> (Panic, files)
              | Ok fieldHash \<Rightarrow>
            (let env = GetLimitedEnvironment environ keptEnvVars
             in case Args (pi_WriteAt io) (pi_Truncate io) iv (stdin_input inputCodec fieldHash) (file_output name) files of
                  (Err e, files) \<Rightarrow> (Err e, mdel name files)
                | (Panic, files) \<Rightarrow> (Panic, files)
                | (Ok args, files) \<Rightarrow>
              (case newProcessWithArgs (pi_StdinPipe io) (inv_LogstashPath iv) args env of
                 Err e \<Rightarrow> (Err e, mdel name files)
               | Panic \<Rightarrow> (Panic, files)
               | Ok p \<Rightarrow> (Ok (p\<lparr>pr_output := name\<rparr>), files)))))"

definition Start_process :: "proc_io \<Rightarrow> process \<Rightarrow> process result" where
  "Start_process io p = check (pi_start io) (p\<lparr>pr_born := True\<rparr>)"

text \<open>\<open>Wait\<close>: a result may come with an error.\<close>

definition Wait_process :: "(string \<Rightarrow> event result) \<Rightarrow> ended \<Rightarrow> process
    \<Rightarrow> event list process_result option \<times> gerror option" where
  "Wait_process unjson en p =
     (if \<not> pr_born p then (None, Some (Errorf ''can't wait on an unborn process'' []))
      else let result = \<lparr>res_Success = (en_waitErr en = None), res_Events = [], res_Log = en_log en,
                         res_Output = en_stdio en\<rparr>
           in case en_waitErr en of
                Some e \<Rightarrow> (Some result, Some e)
              | None \<Rightarrow>
                  (let (evs, err) = readEvents unjson (en_output en (pr_output p))
                   in (Some (result\<lparr>res_Events := evs, res_Success := (err = None)\<rparr>), err)))"

text \<open>
  The temporary file of a process, \<open>deleted_tempfile.go\<close>: creating it, and closing it, which removes it even
  when the closing itself fails; a failed removal is only logged.
\<close>

definition newDeletedTempFile :: "string result \<Rightarrow> file_map \<Rightarrow> string result \<times> file_map" where
  "newDeletedTempFile created files =
     (case created of Ok name \<Rightarrow> (Ok name, mput name [] files) | r \<Rightarrow> (r, files))"

definition Close_temp :: "gerror option \<Rightarrow> gerror option \<Rightarrow> string \<Rightarrow> file_map \<Rightarrow> unit result \<times> file_map" where
  "Close_temp closeErr removeErr name files =
     (check closeErr (), if removeErr = None then mdel name files else files)"

definition Release_process :: "process \<Rightarrow> file_map \<Rightarrow> file_map" where
  "Release_process p files = mdel (pr_output p) files"

section \<open>One process for all test case files\<close>

text \<open>\<open>ts_sender\<close> is the accepted connection, if the accept has succeeded.\<close>

record test_stream =
  ts_senderPath :: string
  ts_sender :: bool
  ts_receiver :: string
  ts_inputCodec :: string
  ts_fields :: "fields option"

record stream_io =
  si_MkdirTemp :: "string result"
  si_Listen :: "gerror option"
  si_Accept :: "gerror option"
  si_TempFile :: "string result"

text \<open>A failure to listen ends the process, by \<open>log.Fatalf\<close>.\<close>

definition NewTestStream :: "stream_io \<Rightarrow> string \<Rightarrow> fields option \<Rightarrow> file_map \<Rightarrow> test_stream result \<times> file_map" where
  "NewTestStream io inputCodec fs files =
     (case si_MkdirTemp io of
        Err e \<Rightarrow> (Err e, files)
      | Panic \<Rightarrow> (Panic, files)
      | Ok dir \<Rightarrow>
          if si_Listen io \<noteq> None then (Err (Fatal ''Unable to create unix socket for listening: %s''), files)
          else (case si_TempFile io of
                  Err e \<Rightarrow> (Err e, files)
                | Panic \<Rightarrow> (Panic, files)
                | Ok name \<Rightarrow>
                    (Ok \<lparr>ts_senderPath = path_join [dir, ''socket''], ts_sender = (si_Accept io = None),
                         ts_receiver = name, ts_inputCodec = inputCodec, ts_fields = fs\<rparr>,
                     mput name [] files)))"

text \<open>\<open>Write\<close>: \<open>ready\<close> says whether Logstash has connected in time; a nil connection refuses.\<close>

definition Write_stream :: "bool \<Rightarrow> gerror option \<Rightarrow> test_stream \<Rightarrow> unit result" where
  "Write_stream ready writeErr ts =
     (if \<not> ready then Err (Errorf ''Write timeout error'' [])
      else if \<not> ts_sender ts then Err (Ext ''invalid argument'') else check writeErr ())"

definition Close_stream :: "gerror option \<Rightarrow> test_stream \<Rightarrow> unit result \<times> test_stream" where
  "Close_stream closeErr ts =
     (if ts_sender ts then (check closeErr (), ts\<lparr>ts_sender := False\<rparr>) else (Ok (), ts))"

definition Cleanup_stream :: "test_stream \<Rightarrow> file_map \<Rightarrow> file_map" where
  "Cleanup_stream ts files = mdel (ts_receiver ts) (remove_all (path_dir (ts_senderPath ts)) files)"

definition CleanupTestStreams :: "test_stream list \<Rightarrow> file_map \<Rightarrow> file_map" where
  "CleanupTestStreams tss files = fold Cleanup_stream tss files"

text \<open>The index of the test case in the metadata; storing into a nil map panics.\<close>

definition with_testcase :: "nat \<Rightarrow> fields option \<Rightarrow> fields result" where
  "with_testcase i fs =
     (case fs of
        None \<Rightarrow> Panic
      | Some m \<Rightarrow>
          (case mget m ''@metadata'' of
             None \<Rightarrow> Ok (mput ''@metadata'' (VMap [(''__lfv_testcase'', VString (itoa i))]) m)
           | Some (VMap sub) \<Rightarrow> Ok (mput ''@metadata'' (VMap (mput ''__lfv_testcase'' (VString (itoa i)) sub)) m)
           | Some _ \<Rightarrow> Err (Errorf ''the supplied contents of the @metadata field must be a hash (found %T instead)'' [])))"

definition socket_input :: "test_stream \<Rightarrow> string \<Rightarrow> string" where
  "socket_input ts fieldHash =
     ''unix { mode => '' @ quote ''client'' @ '' path => '' @ quote (ts_senderPath ts) @ '' codec => ''
       @ ts_inputCodec ts @ '' add_field => '' @ fieldHash @ '' }''"

definition socket_output :: "nat \<Rightarrow> test_stream \<Rightarrow> string" where
  "socket_output i ts =
     ''if [@metadata][__lfv_testcase] == '' @ [CHR ''\"''] @ itoa i @ [CHR ''\"'']
       @ '' { file { path => '' @ quote (ts_receiver ts) @ '' codec => '' @ quote ''json_lines'' @ '' } }''"

text \<open>The field sets are updated in place.\<close>

fun socket_plugins :: "nat \<Rightarrow> test_stream list \<Rightarrow> (test_stream list \<times> string list \<times> string list) result" where
  "socket_plugins i [] = Ok ([], [], [])"
| "socket_plugins i (ts # tss) =
     rbind (with_testcase i (ts_fields ts)) (\<lambda>fs.
     rbind (LogstashHash fs) (\<lambda>fieldHash.
     rbind (socket_plugins (Suc i) tss) (\<lambda>(tss, ins, outs).
       Ok (ts\<lparr>ts_fields := Some fs\<rparr> # tss, socket_input ts fieldHash # ins, socket_output i ts # outs))))"

definition getSocketInOutPlugins :: "test_stream list \<Rightarrow> (test_stream list \<times> string list \<times> string list) result" where
  "getSocketInOutPlugins tss = socket_plugins 0 tss"

record parallel_process =
  pp_command :: string
  pp_args :: "string list"
  pp_env :: "string list"
  pp_streams :: "test_stream list"
  pp_born :: bool

definition NewParallelProcess :: "proc_io \<Rightarrow> string list \<Rightarrow> invocation \<Rightarrow> test_stream list \<Rightarrow> string list
    \<Rightarrow> file_map \<Rightarrow> parallel_process result \<times> file_map" where
  "NewParallelProcess io environ iv tss keptEnvVars files =
     (case getSocketInOutPlugins tss of
        Err e \<Rightarrow> (Err e, CleanupTestStreams tss files)
      | Panic \<Rightarrow> (Panic, files)
      | Ok (tss, logstashInput, logstashOutput) \<Rightarrow>
          (let env = GetLimitedEnvironment environ keptEnvVars;
               inputs = ''input { '' @ join '' '' logstashInput @ '' } '';
               outputs = ''output { '' @ join '' '' logstashOutput @ '' }''
           in case Args (pi_WriteAt io) (pi_Truncate io) iv inputs outputs files of
                (Err e, files) \<Rightarrow> (Err e, CleanupTestStreams tss files)
              | (Panic, files) \<Rightarrow> (Panic, files)
              | (Ok args, files) \<Rightarrow>
                  (Ok \<lparr>pp_command = inv_LogstashPath iv, pp_args = args, pp_env = env,
                       pp_streams = tss, pp_born = False\<rparr>, files)))"

definition Start_parallel :: "proc_io \<Rightarrow> parallel_process \<Rightarrow> parallel_process result" where
  "Start_parallel io p = check (pi_start io) (p\<lparr>pp_born := True\<rparr>)"

text \<open>
  The expression \<^verbatim>\<open>An unexpected error occurred.*closed stream.*IOError\<close>, of which no part matches a
  line break: the rest after the first occurrence of each part must hold the next one.
\<close>

fun after :: "string \<Rightarrow> string \<Rightarrow> string option" where
  "after p [] = (if p = [] then Some [] else None)"
| "after p (c # s) = (if has_prefix (c # s) p then Some (drop (length p) (c # s)) else after p s)"

definition closed_stream_error :: "string \<Rightarrow> bool" where
  "closed_stream_error log =
     list_ex (\<lambda>l. case after ''An unexpected error occurred'' l of
         None \<Rightarrow> False
       | Some r \<Rightarrow> (case after ''closed stream'' r of None \<Rightarrow> False | Some r2 \<Rightarrow> after ''IOError'' r2 \<noteq> None))
       (split_on newline log)"

definition strip_path :: "string \<Rightarrow> event \<Rightarrow> event" where
  "strip_path senderPath ev =
     (case ev of
        None \<Rightarrow> None
      | Some m \<Rightarrow> if mget m ''path'' = Some (VString senderPath) then Some (mdel ''path'' m) else Some m)"

fun wait_streams :: "(string \<Rightarrow> event result) \<Rightarrow> (string \<Rightarrow> string) \<Rightarrow> test_stream list
    \<Rightarrow> event list list process_result \<times> gerror option \<Rightarrow> event list list process_result \<times> gerror option" where
  "wait_streams unjson output [] st = st"
| "wait_streams unjson output (ts # tss) (result, err) =
     (let (evs, err) = readEvents unjson (output (ts_receiver ts))
      in wait_streams unjson output tss
           (result\<lparr>res_Success := (err = None),
                   res_Events := res_Events result @ [map (strip_path (ts_senderPath ts)) evs]\<rparr>, err))"

definition Wait_parallel :: "(string \<Rightarrow> event result) \<Rightarrow> ended \<Rightarrow> parallel_process
    \<Rightarrow> event list list process_result option \<times> gerror option" where
  "Wait_parallel unjson en p =
     (if \<not> pp_born p then (None, Some (Errorf ''can't wait on an unborn process'' []))
      else let result = \<lparr>res_Success = (en_waitErr en = None), res_Events = [], res_Log = en_log en,
                         res_Output = en_stdio en\<rparr>
           in if en_waitErr en \<noteq> None \<and> \<not> closed_stream_error (en_log en) then (Some result, en_waitErr en)
              else (let (result, err) = wait_streams unjson (en_output en) (pp_streams p) (result\<lparr>res_Success := True\<rparr>, None)
                    in (Some result, err)))"

section \<open>Facts\<close>

lemma read_lines_enc:
  "\<forall>ev \<in> set evs. unjson (enc ev) = Ok ev \<Longrightarrow>
   read_lines unjson (map enc evs @ ls) scanErr acc = read_lines unjson ls scanErr (acc @ evs)"
  by (induction evs arbitrary: acc) simp_all

lemma wait_streams_eq:
  "wait_streams unjson output tss (result, err) =
     (let errs = err # map (\<lambda>ts. snd (readEvents unjson (output (ts_receiver ts)))) tss
      in (result\<lparr>res_Success := (if tss = [] then res_Success result else last errs = None),
                 res_Events := res_Events result @ map (\<lambda>ts. map (strip_path (ts_senderPath ts))
                   (fst (readEvents unjson (output (ts_receiver ts))))) tss\<rparr>, last errs))"
  by (induction tss arbitrary: result err) (simp_all add: split_beta Let_def)

lemma with_testcase_Ok:
  assumes "with_testcase i fs = Ok fs'"
  shows "fget fs' [''@metadata'', ''__lfv_testcase''] = Some (VString (itoa i))"
    and "\<exists>m. fs = Some m \<and> (\<forall>k. k \<noteq> ''@metadata'' \<longrightarrow> mget fs' k = mget m k)"
  using assms by (auto simp: with_testcase_def map_simps split: option.splits gvalue.splits)

lemma socket_plugins_Ok:
  "socket_plugins i tss = Ok (tss', ins, outs) \<Longrightarrow> length tss' = length tss \<and> length ins = length tss \<and>
   length outs = length tss \<and>
   (\<forall>j < length tss. \<exists>fs h. with_testcase (i + j) (ts_fields (tss ! j)) = Ok fs \<and> LogstashHash fs = Ok h \<and>
     tss' ! j = (tss ! j)\<lparr>ts_fields := Some fs\<rparr> \<and> ins ! j = socket_input (tss ! j) h \<and>
     outs ! j = socket_output (i + j) (tss ! j))"
proof (induction tss arbitrary: i tss' ins outs)
  case (Cons ts tss)
  from Cons.prems obtain fs h tss1 ins1 outs1 where
    h: "with_testcase i (ts_fields ts) = Ok fs" "LogstashHash fs = Ok h"
    and rest: "socket_plugins (Suc i) tss = Ok (tss1, ins1, outs1)"
    and eq: "tss' = ts\<lparr>ts_fields := Some fs\<rparr> # tss1" "ins = socket_input ts h # ins1" "outs = socket_output i ts # outs1"
    by auto
  from Cons.IH [OF rest] h eq show ?case by (auto simp: nth_Cons split: nat.splits)
qed simp

text \<open>Only the listening can end the process.\<close>

lemma NewTestStream_exits:
  assumes "NewTestStream io codec fs files = (Err e, files')" and "is_fatal e"
  shows "si_Listen io \<noteq> None \<or> si_MkdirTemp io = Err e \<or> si_TempFile io = Err e"
  using assms by (auto simp: NewTestStream_def split: result.splits if_splits)

lemma socket_plugins_not_fatal: "socket_plugins i tss \<noteq> Err (Fatal m)"
proof (induction tss arbitrary: i)
  case (Cons ts tss)
  have "with_testcase i (ts_fields ts) \<noteq> Err (Fatal m)"
    by (auto simp: with_testcase_def split: option.split gvalue.split)
  with Cons LogstashHash_not_fatal show ?case by (auto simp: rbind_Err_conv)
qed simp

lemma NewParallelProcess_exits:
  assumes "NewParallelProcess io environ iv tss kept files = (Err e, files')" and "is_fatal e"
  shows "pi_WriteAt io = Some e \<or> pi_Truncate io = Some e"
proof -
  from assms(2) obtain m where "e = Fatal m" by (cases e) auto
  with assms(1) socket_plugins_not_fatal [of 0 tss m] show ?thesis
    by (auto simp: NewParallelProcess_def getSocketInOutPlugins_def Args_def Let_def
        split: result.splits prod.splits option.splits)
qed

lemma Release_closes: "Release_process p files = snd (Close_temp closeErr None (pr_output p) files)"
  by (simp add: Release_process_def Close_temp_def)

lemma temp_file_roundtrip:
  "newDeletedTempFile (Ok name) files = (r, files') \<Longrightarrow> mget files name = None \<Longrightarrow>
   mget (snd (Close_temp closeErr None name files')) p = mget files p"
  by (auto simp: newDeletedTempFile_def Close_temp_def map_simps)

text \<open>The result of waiting for the one process.\<close>

lemma parallel_wait:
  assumes "pp_born p" and "en_waitErr en = None \<or> closed_stream_error (en_log en)"
  shows "\<exists>res err. Wait_parallel unjson en p = (Some res, err) \<and>
    res_Events res = map (\<lambda>ts. map (strip_path (ts_senderPath ts))
      (fst (readEvents unjson (en_output en (ts_receiver ts))))) (pp_streams p) \<and>
    err = (if pp_streams p = [] then None
      else snd (readEvents unjson (en_output en (ts_receiver (last (pp_streams p)))))) \<and>
    res_Success res = (err = None) \<and> res_Log res = en_log en"
  using assms by (auto simp: Wait_parallel_def wait_streams_eq Let_def last_map)

section \<open>Properties\<close>

text \<open>
  Reading the events that Logstash has written. Events written one to a line, each within the
  scanner's limit, are read back unchanged and in order without an error; a line beyond the limit
  of 64 KiB ends the reading with an error and loses that event and all after it.
\<close>

lemma read_events_roundtrip:
  assumes "\<forall>ev \<in> set evs. unjson (enc ev) = Ok ev" and "\<forall>ev \<in> set evs. fits (enc ev)"
  shows "readEvents unjson (unlines (map enc evs)) = (evs, None) \<and>
    (\<forall>l rest. newline \<notin> set l \<and> max_token \<le> length l \<longrightarrow>
      readEvents unjson (unlines (map enc evs) @ l @ rest) = (evs, Some (Ext ''bufio.Scanner: token too long'')))"
proof -
  have fits: "\<forall>l \<in> set (map enc evs). fits l" using assms(2) by simp
  have "readEvents unjson (unlines (map enc evs) @ s)
      = read_lines unjson (fst (scan s)) (if snd (scan s) then Some (Ext ''bufio.Scanner: token too long'') else None) evs" for s
    using read_lines_enc [OF assms(1), of "fst (scan s)"] by (simp add: readEvents_def scan_unlines [OF fits])
  from this [of "[]"] this show ?thesis by (simp add: scan_oversized)
qed

definition sample_unjson :: "string \<Rightarrow> event result" where
  "sample_unjson l = (if has_prefix l ''{'' then Ok (Some [(''line'', VString l)]) else Err (Ext ''invalid character''))"

text \<open>
  C35: the result of the process that runs all test cases. When the process ends well, or with the
  known error of its socket input, every test case gets the events of its own output file up to
  the first that cannot be read, without the path field that names its socket; whether they were
  read without an error is only reported for the last test case: an error in any other is lost,
  and its events are compared as if they were complete.
\<close>

theorem parallel_wait_correct:
  assumes "pp_born p" and "en_waitErr en = None \<or> closed_stream_error (en_log en)"
  shows "\<exists>res err. Wait_parallel unjson en p = (Some res, err) \<and>
    res_Events res = map (\<lambda>ts. map (strip_path (ts_senderPath ts))
      (fst (readEvents unjson (en_output en (ts_receiver ts))))) (pp_streams p) \<and>
    err = (if pp_streams p = [] then None
      else snd (readEvents unjson (en_output en (ts_receiver (last (pp_streams p)))))) \<and>
    res_Success res = (err = None) \<and> res_Log res = en_log en"
  by (rule parallel_wait [OF assms])

definition sample_stream :: "string \<Rightarrow> test_stream" where
  "sample_stream n = \<lparr>ts_senderPath = ''/t/socket'', ts_sender = True, ts_receiver = n, ts_inputCodec = ''line'',
     ts_fields = Some []\<rparr>"

theorem parallel_wait_correct_witness:
  "\<exists>res. Wait_parallel sample_unjson
      \<lparr>en_waitErr = None, en_log = [], en_stdio = [], en_output = (\<lambda>n. if n = ''a'' then ''bad'' else ''{b}'')\<rparr>
      \<lparr>pp_command = [], pp_args = [], pp_env = [], pp_streams = [sample_stream ''a'', sample_stream ''b''], pp_born = True\<rparr>
    = (Some res, None) \<and> res_Success res \<and> res_Events res = [[], [Some [(''line'', VString ''{b}'')]]]"
  (is "\<exists>res. Wait_parallel _ ?en ?p = _ \<and> _")
proof -
  have p: "pp_born ?p" and en: "en_waitErr ?en = None \<or> closed_stream_error (en_log ?en)" by simp_all
  have ev: "readEvents sample_unjson ''bad'' = ([], Some (Errorf ''Logstash emitted this line which can't be parsed as JSON: %s'' [''bad'']))"
    "readEvents sample_unjson ''{b}'' = ([Some [(''line'', VString ''{b}'')]], None)"
    by (simp_all add: readEvents_def scan_def raw_lines_def newline_def max_token_def drop_cr_def sample_unjson_def has_prefix_def)
  have strip: "strip_path ''/t/socket'' (Some [(''line'', VString ''{b}'')]) = Some [(''line'', VString ''{b}'')]"
    by (simp add: strip_path_def)
  show ?thesis using parallel_wait_correct [OF p en, of sample_unjson]
    by (simp add: sample_stream_def ev strip) blast
qed



end
