(* ===== verification/Standalone.thy ===== *)
theory Standalone
  imports Process Observer
begin

text \<open>
  The standalone mode, \<open>internal/app/standalone/standalone.go\<close>: finding Logstash, preparing the
  invocation, running one process per test case file or one for all, and the verdict. What is
  printed to the terminal beside the observer's summary is omitted.
\<close>

record standalone =
  al_quiet :: bool
  al_diffCommand :: string
  al_testcasePath :: string
  al_keptEnvVars :: "string list"
  al_logstashPaths :: "string list"
  al_logstashVersion :: string
  al_logstashArgs :: "string list"
  al_logstashOutput :: bool
  al_configPaths :: "string list"
  al_unixSockets :: bool
  al_unixSocketCommTimeout :: int

definition New_standalone :: "bool \<Rightarrow> string \<Rightarrow> string \<Rightarrow> string list \<Rightarrow> string list \<Rightarrow> string \<Rightarrow> string list \<Rightarrow> bool
    \<Rightarrow> string list \<Rightarrow> bool \<Rightarrow> int \<Rightarrow> standalone" where
  "New_standalone quiet diffCommand testcasePath keptEnvVars logstashPaths logstashVersion logstashArgs logstashOutput
      configPaths unixSockets unixSocketCommTimeout =
     \<lparr>al_quiet = quiet, al_diffCommand = diffCommand, al_testcasePath = testcasePath, al_keptEnvVars = keptEnvVars,
      al_logstashPaths = logstashPaths, al_logstashVersion = logstashVersion, al_logstashArgs = logstashArgs,
      al_logstashOutput = logstashOutput, al_configPaths = configPaths, al_unixSockets = unixSockets,
      al_unixSocketCommTimeout = unixSocketCommTimeout\<rparr>"

declare New_standalone_def [simp]

definition autoVersion :: string where
  "autoVersion = ''auto''"

definition defaultKeptEnvVars :: "string list" where
  "defaultKeptEnvVars = [''PATH'']"

definition defaultLogstashPaths :: "string list" where
  "defaultLogstashPaths = [''/opt/logstash/bin/logstash'', ''/usr/share/logstash/bin/logstash'']"

section \<open>Finding Logstash\<close>

text \<open>\<open>stat\<close> tells a regular file from others, and its permission bits; 0111 are the bits 0, 3 and 6.\<close>

definition executable :: "nat \<Rightarrow> bool" where
  "executable perm \<longleftrightarrow> odd perm \<and> odd (perm div 8) \<and> odd (perm div 64)"

fun findExecutable :: "(string \<Rightarrow> (bool \<times> nat) result) \<Rightarrow> bool \<Rightarrow> string list \<Rightarrow> string list \<Rightarrow> string result" where
  "findExecutable stat windows paths [] =
     Err (Errorf ''no existing executable found among candidates: %s'' paths)"
| "findExecutable stat windows paths (p # ps) =
     (case stat p of
        Ok (regular, perm) \<Rightarrow>
          if \<not> regular then findExecutable stat windows paths ps
          else if \<not> windows \<and> \<not> executable perm then findExecutable stat windows paths ps
          else Ok p
      | _ \<Rightarrow> findExecutable stat windows paths ps)"

section \<open>One process per test case file\<close>

definition getLogstashOutputMessage :: "string \<Rightarrow> string \<Rightarrow> string" where
  "getLogstashOutputMessage output log =
     (if output \<noteq> [] then [CHR 0x0A] @ ''Process output:'' @ [CHR 0x0A] @ output
      else [CHR 0x0A] @ ''The process wrote nothing to stdout or stderr.'') @
     (if log \<noteq> [] then [CHR 0x0A] @ ''Log:'' @ [CHR 0x0A] @ log
      else [CHR 0x0A] @ ''The process wrote nothing to its logfile.'')"

text \<open>The error for a failed wait; without a result its output cannot be read.\<close>

definition wait_error :: "'e process_result option \<Rightarrow> gerror \<Rightarrow> 'a result" where
  "wait_error result e =
     (case result of
        None \<Rightarrow> Panic
      | Some r \<Rightarrow> Err (Wrap (''Error running Logstash: %s.'' @ getLogstashOutputMessage (res_Output r) (res_Log r)) e))"

record test_io =
  tt_proc :: proc_io
  tt_write :: "string \<Rightarrow> gerror option"
  tt_close :: "gerror option"
  tt_ended :: "string list \<Rightarrow> ended"

record test_env =
  tn_environ :: "string list"
  tn_unjson :: "string \<Rightarrow> event result"
  tn_cmp :: cmp_env
  tn_diff :: "string list"
  tn_kept :: "string list"

text \<open>The round of the loop for one test case set; the process is returned for its deferred release.\<close>

definition run_one :: "test_env \<Rightarrow> test_io \<Rightarrow> invocation \<Rightarrow> test_case_set \<Rightarrow> file_map
    \<Rightarrow> comparison_result list \<times> bool result \<times> file_map \<times> process option" where
  "run_one env io iv t files =
     (case NewProcess (tt_proc io) (tn_environ env) iv (t_Codec t) (t_InputFields t) (tn_kept env) files of
        (Err e, files) \<Rightarrow> ([], Err e, files, None)
      | (Panic, files) \<Rightarrow> ([], Panic, files, None)
      | (Ok p, files) \<Rightarrow>
          (case Start_process (tt_proc io) p of
             Err e \<Rightarrow> ([], Err e, files, Some p)
           | Panic \<Rightarrow> ([], Panic, files, Some p)
           | Ok p \<Rightarrow>
               (case first_error (\<lambda>line. tt_write io (line @ [CHR 0x0A])) (t_InputLines t) of
                  Some e \<Rightarrow> ([], Err e, files, Some p)
                | None \<Rightarrow>
                    (case tt_close io of
                       Some e \<Rightarrow> ([], Err e, files, Some p)
                     | None \<Rightarrow>
                         (case Wait_process (tn_unjson env) (tt_ended io (t_InputLines t)) p of
                            (result, Some e) \<Rightarrow> ([], wait_error result e, files, Some p)
                          | (None, None) \<Rightarrow> ([], Panic, files, Some p)
                          | (Some result, None) \<Rightarrow>
                              (case Compare (tn_cmp env) t (res_Events result) (tn_diff env) of
                                 (rs, r) \<Rightarrow> (rs, r, files, Some p)))))))"

definition release :: "process option \<Rightarrow> file_map \<Rightarrow> file_map" where
  "release p files = (case p of None \<Rightarrow> files | Some p \<Rightarrow> Release_process p files)"

fun runTests :: "test_env \<Rightarrow> (nat \<Rightarrow> test_io) \<Rightarrow> invocation \<Rightarrow> nat \<Rightarrow> test_case_set list \<Rightarrow> bool \<Rightarrow> file_map
    \<Rightarrow> comparison_result list \<times> bool result \<times> file_map" where
  "runTests env io iv k [] ok files = ([], Ok ok, files)"
| "runTests env io iv k (t # ts) ok files =
     (case run_one env (io k) iv t files of
        (rs, Ok currentOk, files, p) \<Rightarrow>
          (case runTests env io iv (Suc k) ts (if \<not> currentOk then False else ok) files of
             (rs', r, files) \<Rightarrow> (rs @ rs', r, release p files))
      | (rs, r, files, p) \<Rightarrow> (rs, r, release p files))"

section \<open>One process for all test case files\<close>

record sockets_io =
  so_stream :: "nat \<Rightarrow> stream_io"
  so_proc :: proc_io
  so_ready :: "nat \<Rightarrow> bool"
  so_write :: "nat \<Rightarrow> string \<Rightarrow> gerror option"
  so_close :: "nat \<Rightarrow> gerror option"
  so_ended :: "string list list \<Rightarrow> ended"

fun new_streams :: "(nat \<Rightarrow> stream_io) \<Rightarrow> nat \<Rightarrow> test_case_set list \<Rightarrow> test_stream list \<Rightarrow> file_map
    \<Rightarrow> test_stream list result \<times> file_map" where
  "new_streams io k [] tss files = (Ok tss, files)"
| "new_streams io k (t # ts) tss files =
     (case NewTestStream (io k) (t_Codec t) (t_InputFields t) files of
        (Err e, files) \<Rightarrow> (Err e, if is_fatal e then files else CleanupTestStreams tss files)
      | (Panic, files) \<Rightarrow> (Panic, files)
      | (Ok s, files) \<Rightarrow> new_streams io (Suc k) ts (tss @ [s]) files)"

text \<open>The error of the first line that cannot be written.\<close>

fun write_lines :: "bool \<Rightarrow> (string \<Rightarrow> gerror option) \<Rightarrow> test_stream \<Rightarrow> string list \<Rightarrow> unit result" where
  "write_lines ready io ts [] = Ok ()"
| "write_lines ready io ts (l # ls) =
     (case Write_stream ready (io (l @ [CHR 0x0A])) ts of
        Ok _ \<Rightarrow> write_lines ready io ts ls
      | r \<Rightarrow> r)"

fun feed_streams :: "sockets_io \<Rightarrow> nat \<Rightarrow> (test_case_set \<times> test_stream) list \<Rightarrow> unit result" where
  "feed_streams io k [] = Ok ()"
| "feed_streams io k ((t, s) # rest) =
     (case write_lines (so_ready io k) (so_write io k) s (t_InputLines t) of
        Ok _ \<Rightarrow>
          (case fst (Close_stream (so_close io k) s) of
             Ok _ \<Rightarrow> feed_streams io (Suc k) rest
           | r \<Rightarrow> r)
      | r \<Rightarrow> r)"

text \<open>An error of a comparison is printed, and counts as a failed test.\<close>

fun compare_all :: "cmp_env \<Rightarrow> string list \<Rightarrow> (test_case_set \<times> event list) list \<Rightarrow> bool
    \<Rightarrow> comparison_result list \<times> bool result" where
  "compare_all cmp diff [] ok = ([], Ok ok)"
| "compare_all cmp diff ((t, evs) # rest) ok =
     (case Compare cmp t evs diff of
        (rs, Panic) \<Rightarrow> (rs, Panic)
      | (rs, r) \<Rightarrow>
          (case compare_all cmp diff rest (if r = Ok True then ok else False) of
             (rs', r') \<Rightarrow> (rs @ rs', r')))"

definition runParallelTests :: "test_env \<Rightarrow> sockets_io \<Rightarrow> invocation \<Rightarrow> test_case_set list \<Rightarrow> file_map
    \<Rightarrow> comparison_result list \<times> bool result \<times> file_map" where
  "runParallelTests env io iv tests files =
     (case new_streams (so_stream io) 0 tests [] files of
        (Err e, files) \<Rightarrow> ([], Err e, files)
      | (Panic, files) \<Rightarrow> ([], Panic, files)
      | (Ok tss, files) \<Rightarrow>
          (case NewParallelProcess (so_proc io) (tn_environ env) iv tss (tn_kept env) files of
             (Err e, files) \<Rightarrow> ([], Err e, files)
           | (Panic, files) \<Rightarrow> ([], Panic, files)
           | (Ok p, files) \<Rightarrow>
               (let (rs, r) =
                  (case Start_parallel (so_proc io) p of
                     Err e \<Rightarrow> ([], Err e)
                   | Panic \<Rightarrow> ([], Panic)
                   | Ok p \<Rightarrow>
                       (case feed_streams io 0 (zip tests tss) of
                          Err e \<Rightarrow> ([], Err e)
                        | Panic \<Rightarrow> ([], Panic)
                        | Ok _ \<Rightarrow>
                            (case Wait_parallel (tn_unjson env) (so_ended io (map t_InputLines tests)) p of
                               (result, Some e) \<Rightarrow> ([], wait_error result e)
                             | (None, None) \<Rightarrow> ([], Panic)
                             | (Some result, None) \<Rightarrow>
                                 compare_all (tn_cmp env) (tn_diff env) (zip tests (res_Events result)) True)))
                in (rs, r, CleanupTestStreams (pp_streams p) files))))"

section \<open>The run\<close>

record ('cfg, 'pl, 'at, 'v) alone_io =
  ao_shellwords :: "string \<Rightarrow> string list result"
  ao_tc_files :: tc_files
  ao_tc_env :: tc_env
  ao_stat :: "string \<Rightarrow> (bool \<times> nat) result"
  ao_windows :: bool
  ao_run :: "string \<Rightarrow> string list \<Rightarrow> string list \<Rightarrow> string result"
  ao_NewVersion :: "string \<Rightarrow> 'v result"
  ao_at_least :: "'v \<Rightarrow> string \<Rightarrow> bool"
  ao_inv :: inv_io
  ao_ast :: "('cfg, 'pl, 'at) ast_lib"
  ao_set_nil :: "plugin_type \<Rightarrow> 'cfg \<Rightarrow> 'cfg"
  ao_environ :: "string list"
  ao_unjson :: "string \<Rightarrow> event result"
  ao_cmp :: cmp_env
  ao_tests :: "nat \<Rightarrow> test_io"
  ao_sockets :: sockets_io
  ao_late :: nat
  ao_left :: file_map

text \<open>
  \<open>Run\<close>. \<open>fmt.Errorf(err.Error())\<close> makes an error of the text of another, taken as a format: it is
  an error wrapped without a message. The results are those published for the observer, which
  sees the end only when no error occurs; in quiet mode there is none. \<open>ao_late\<close> is the number of
  values that are published before the observer's goroutine subscribes; when it panics, the
  process ends with the files \<open>ao_left\<close>, wherever the main goroutine is. When the process has ended
  by \<open>log.Fatalf\<close>, the deferred \<open>Release\<close> does not run.
\<close>

definition alone_version :: "('cfg, 'pl, 'at, 'v) alone_io \<Rightarrow> standalone \<Rightarrow> string \<Rightarrow> string list \<Rightarrow> 'v result" where
  "alone_version io s logstashPath allKeptEnvVars =
     (if al_logstashVersion s = autoVersion
      then map_err (Wrap ''Could not auto-detect the Logstash version: %s'')
             (DetectVersion (ao_run io) (ao_NewVersion io) (ao_environ io) logstashPath allKeptEnvVars)
      else map_err (Wrap ''The given Logstash version %q could not be parsed as a version number (%s).'')
             (ao_NewVersion io (al_logstashVersion s)))"

definition alone_setup :: "('cfg, 'pl, 'at, 'v) alone_io \<Rightarrow> standalone
    \<Rightarrow> (string list \<times> test_case_set list \<times> string \<times> 'v) result" where
  "alone_setup io s =
     rbind (map_err (Wrap ''Error parsing diff command %q: %s'') (ao_shellwords io (al_diffCommand s))) (\<lambda>diffCmd.
     rbind (map_err (Wrap []) (DiscoverTests (ao_tc_files io) (ao_tc_env io) (al_testcasePath s))) (\<lambda>tests.
       (let paths = al_logstashPaths s @ defaultLogstashPaths
        in rbind (map_err (Wrap ''Error locating Logstash: %s'') (findExecutable (ao_stat io) (ao_windows io) paths paths)) (\<lambda>logstashPath.
           rbind (alone_version io s logstashPath (defaultKeptEnvVars @ al_keptEnvVars s)) (\<lambda>targetVersion.
             Ok (diffCmd, tests, logstashPath, targetVersion))))))"

definition run_alone :: "('cfg, 'pl, 'at, 'v) alone_io \<Rightarrow> standalone \<Rightarrow> file_map
    \<Rightarrow> comparison_result list \<times> bool result \<times> file_map" where
  "run_alone io s files =
     (case alone_setup io s of
        Err e \<Rightarrow> ([], Err e, files)
      | Panic \<Rightarrow> ([], Panic, files)
      | Ok (diffCmd, tests, logstashPath, targetVersion) \<Rightarrow>
          (case NewInvocation ((ao_inv io)\<lparr>iv_at_least := ao_at_least io targetVersion\<rparr>) (ao_ast io) (ao_set_nil io)
                  logstashPath (al_logstashArgs s) (al_configPaths s) files of
             (Err e, files) \<Rightarrow> ([], Err (Wrap ''An error occurred while setting up the Logstash environment: %s'' e), files)
           | (Panic, files) \<Rightarrow> ([], Panic, files)
           | (Ok iv, files) \<Rightarrow>
               (let env = \<lparr>tn_environ = ao_environ io, tn_unjson = ao_unjson io, tn_cmp = ao_cmp io, tn_diff = diffCmd,
                           tn_kept = defaultKeptEnvVars @ al_keptEnvVars s\<rparr>;
                    (rs, r, files) =
                      (if al_unixSockets s then
                         (if ao_windows io then ([], Err (Errorf ''Use of Unix domain sockets for communication with Logstash is not supported on Windows.'' []), files)
                          else (case runParallelTests env (ao_sockets io) iv tests files of
                                  (rs, r, files) \<Rightarrow> (rs, on_error (Wrap []) r, files)))
                       else (case runTests env (ao_tests io) iv 0 tests True files of
                               (rs, r, files) \<Rightarrow> (rs, map_err (Wrap []) r, files)))
                in (rs, r, if has_exited r then files else Release_invocation iv files))))"

definition Run_standalone :: "('cfg, 'pl, 'at, 'v) alone_io \<Rightarrow> standalone \<Rightarrow> file_map
    \<Rightarrow> observer_state result option \<times> unit result \<times> file_map" where
  "Run_standalone io s files =
     (case run_alone io s files of
        (rs, r, files) \<Rightarrow>
          (let res = rbind r (\<lambda>status. if status then Ok () else Err (Errorf ''failed test cases'' []))
           in if al_quiet s then (None, res, files)
              else (case observed (ao_late io) rs (is_ok r) of
                      Ok obs \<Rightarrow> (Some (Ok obs), res, files)
                    | _ \<Rightarrow> (Some Panic, Panic, ao_left io))))"

section \<open>Facts\<close>

lemma Compare_status: "Compare cmp t evs diff = (rs, Ok ok) \<Longrightarrow> ok \<longleftrightarrow> (\<forall>r \<in> set rs. r_Status r)"
  using Compare_verdict by blast

lemma run_one_verdict:
  assumes "run_one env io iv t files = (rs, Ok ok, files', p)"
  shows "ok \<longleftrightarrow> (\<forall>r \<in> set rs. r_Status r)"
proof -
  have "wait_error x e \<noteq> Ok ok" for x :: "event list process_result option" and e
    by (simp add: wait_error_def split: option.split)
  with assms obtain evs where "Compare (tn_cmp env) t evs (tn_diff env) = (rs, Ok ok)"
    unfolding run_one_def by (auto split: result.splits prod.splits option.splits)
  then show ?thesis by (rule Compare_status)
qed

lemma runTests_cons:
  assumes "runTests env io iv k (t # ts) ok files = (rs, r, files')"
  obtains (stop) r1 f1 p where "run_one env (io k) iv t files = (rs, r1, f1, p)" "\<not> is_ok r1" "r = r1"
  | (next_test) ok1 rs1 rs2 f1 f2 p where "run_one env (io k) iv t files = (rs1, Ok ok1, f1, p)"
      "runTests env io iv (Suc k) ts (ok \<and> ok1) f1 = (rs2, r, f2)" "rs = rs1 @ rs2"
proof -
  obtain rs1 r1 f1 p where t: "run_one env (io k) iv t files = (rs1, r1, f1, p)" by (metis prod_cases4)
  show thesis
  proof (cases r1)
    case (Ok ok1)
    obtain rs2 r2 f2 where ts: "runTests env io iv (Suc k) ts (ok \<and> ok1) f1 = (rs2, r2, f2)" by (metis prod_cases3)
    moreover have "(if \<not> ok1 then False else ok) = (ok \<and> ok1)" by simp
    ultimately have "r2 = r" "rs = rs1 @ rs2" using assms t Ok by simp_all
    with t ts Ok show thesis by (intro next_test) simp_all
  qed (use assms t in \<open>auto intro!: stop\<close>)
qed

lemma runTests_verdict:
  "runTests env io iv k ts ok files = (rs, Ok b, files') \<Longrightarrow> b \<longleftrightarrow> ok \<and> (\<forall>r \<in> set rs. r_Status r)"
proof (induction ts arbitrary: k ok files rs files')
  case (Cons t ts)
  from Cons.prems show ?case
  proof (cases rule: runTests_cons)
    case (next_test ok1 rs1 rs2 f1 f2 p)
    from Cons.IH [OF next_test(2)] run_one_verdict [OF next_test(1)] next_test(3) show ?thesis by auto
  qed auto
qed simp

lemma compare_all_cons:
  assumes "compare_all cmp diff ((t, evs) # rest) ok = (rs, r)"
  obtains (stop) "Compare cmp t evs diff = (rs, Panic)" "r = Panic"
  | (next_test) rs1 r1 rs2 where "Compare cmp t evs diff = (rs1, r1)" "r1 \<noteq> Panic" "rs = rs1 @ rs2"
      "compare_all cmp diff rest (ok \<and> r1 = Ok True) = (rs2, r)"
proof -
  obtain rs1 r1 where c: "Compare cmp t evs diff = (rs1, r1)" by fastforce
  show thesis
  proof (cases "r1 = Panic")
    case True
    with assms c show thesis by (intro stop) simp_all
  next
    case False
    obtain rs2 r2 where rest: "compare_all cmp diff rest (ok \<and> r1 = Ok True) = (rs2, r2)" by fastforce
    moreover have "(if r1 = Ok True then ok else False) = (ok \<and> r1 = Ok True)" by simp
    ultimately have "r2 = r" "rs = rs1 @ rs2" using assms c False by (auto split: result.splits)
    with c False rest show thesis by (intro next_test) simp_all
  qed
qed

lemma compare_all_verdict:
  "compare_all cmp diff ts ok = (rs, Ok True) \<Longrightarrow> ok \<and> (\<forall>r \<in> set rs. r_Status r)"
proof (induction ts arbitrary: ok rs)
  case (Cons x ts)
  obtain t evs where x: "x = (t, evs)" by fastforce
  from Cons.prems [unfolded x] show ?case
  proof (cases rule: compare_all_cons)
    case (next_test rs1 r1 rs2)
    from Cons.IH [OF next_test(4)] next_test(1,3) Compare_status show ?thesis by fastforce
  qed simp
qed simp

lemma runParallelTests_verdict:
  assumes "runParallelTests env io iv tests files = (rs, Ok True, files')"
  shows "\<forall>r \<in> set rs. r_Status r"
proof -
  have "wait_error x e \<noteq> Ok True" for x :: "event list list process_result option" and e
    by (simp add: wait_error_def split: option.split)
  with assms obtain ts where "compare_all (tn_cmp env) (tn_diff env) ts True = (rs, Ok True)"
    unfolding runParallelTests_def by (auto simp: Let_def split: result.splits prod.splits option.splits)
  then show ?thesis by (blast dest: compare_all_verdict)
qed

lemma run_alone_verdict:
  assumes "run_alone io s files = (rs, Ok True, files')"
  shows "\<forall>r \<in> set rs. r_Status r"
  using assms unfolding run_alone_def
  by (auto simp: Let_def split: result.splits prod.splits if_splits
      dest: runTests_verdict runParallelTests_verdict)

text \<open>
  The end of the process by \<open>log.Fatalf\<close>: what the operating system hands over is an error value and
  never that, so a test case set's socket could not be listened on.
\<close>

definition system_errors :: "sockets_io \<Rightarrow> gerror set" where
  "system_errors io = {e. (\<exists>i. si_MkdirTemp (so_stream io i) = Err e \<or> si_TempFile (so_stream io i) = Err e \<or>
       (\<exists>l. so_write io i l = Some e) \<or> so_close io i = Some e) \<or>
     pi_WriteAt (so_proc io) = Some e \<or> pi_Truncate (so_proc io) = Some e \<or> pi_start (so_proc io) = Some e}"

lemma new_streams_exits:
  assumes "\<forall>e \<in> system_errors sio. \<not> is_fatal e"
  shows "new_streams (so_stream sio) k ts tss files = (Err e, files') \<Longrightarrow> is_fatal e \<Longrightarrow>
    \<exists>i < k + length ts. si_Listen (so_stream sio i) \<noteq> None"
proof (induction ts arbitrary: k tss files)
  case (Cons t ts)
  obtain r f where s: "NewTestStream (so_stream sio k) (t_Codec t) (t_InputFields t) files = (r, f)" by fastforce
  show ?case
  proof (cases r)
    case (Ok s1)
    with Cons.prems s have "new_streams (so_stream sio) (Suc k) ts (tss @ [s1]) f = (Err e, files')" by simp
    from Cons.IH [OF this Cons.prems(2)] show ?thesis by simp
  next
    case (Err e1)
    with Cons.prems s have "e1 = e" by simp
    moreover have "si_MkdirTemp (so_stream sio k) \<noteq> Err e" "si_TempFile (so_stream sio k) \<noteq> Err e"
      using assms Cons.prems(2) by (auto simp: system_errors_def)
    ultimately have "si_Listen (so_stream sio k) \<noteq> None"
      using NewTestStream_exits [OF s [unfolded Err]] Cons.prems(2) by auto
    then show ?thesis by (intro exI [of _ k]) simp
  next
    case Panic
    with Cons.prems s show ?thesis by simp
  qed
qed simp

lemma write_lines_error:
  "write_lines ready io ts ls = Err e \<Longrightarrow> is_fatal e \<Longrightarrow> \<exists>l. io l = Some e"
proof (induction ls)
  case (Cons l ls)
  then show ?case
    by (auto simp: Write_stream_def check_def split: result.splits if_splits option.splits)
qed simp

lemma feed_streams_error:
  "feed_streams io k ts = Err e \<Longrightarrow> is_fatal e \<Longrightarrow> e \<in> system_errors io"
proof (induction io k ts rule: feed_streams.induct)
  case (2 io k t s rest)
  show ?case
  proof (cases "write_lines (so_ready io k) (so_write io k) s (t_InputLines t)")
    case (Ok u)
    then show ?thesis using "2"
      by (auto simp: Close_stream_def check_def system_errors_def split: if_splits option.splits)
  next
    case (Err e1)
    with "2.prems" have "e1 = e" by simp
    with write_lines_error [OF Err] "2.prems"(2) show ?thesis by (auto simp: system_errors_def)
  qed (use "2.prems" in simp)
qed simp

lemma compare_all_no_error: "snd (compare_all cmp diff ts ok) \<noteq> Err e"
proof (induction ts arbitrary: ok)
  case (Cons t ts)
  obtain t1 evs where t: "t = (t1, evs)" by fastforce
  obtain rs r where C: "Compare cmp t1 evs diff = (rs, r)" by fastforce
  have "snd (compare_all cmp diff ts b) \<noteq> Err e" for b by (rule Cons.IH)
  then show ?case by (cases r) (simp_all add: t C split_beta)
qed simp

lemma wait_error_not_fatal: "wait_error x e \<noteq> Err (Fatal m)"
  by (simp add: wait_error_def split: option.split)

lemma runParallelTests_exits:
  assumes "runParallelTests env io iv tests files = (rs, r, files')" and "has_exited r"
    and system: "\<forall>e \<in> system_errors io. \<not> is_fatal e"
  shows "\<exists>i < length tests. si_Listen (so_stream io i) \<noteq> None"
proof (rule ccontr)
  assume none: "\<not> ?thesis"
  obtain m where r: "r = Err (Fatal m)" using assms(2) by (auto simp: has_exited_iff)
  obtain q f1 where new: "new_streams (so_stream io) 0 tests [] files = (q, f1)" by fastforce
  have "q \<noteq> Err (Fatal m)" using new_streams_exits [OF system] none new by fastforce
  then obtain tss where q: "q = Ok tss" using assms(1) r new by (cases q) (auto simp: runParallelTests_def)
  obtain p f2 where pp: "NewParallelProcess (so_proc io) (tn_environ env) iv tss (tn_kept env) f1 = (p, f2)" by fastforce
  have "p \<noteq> Err (Fatal m)"
    using NewParallelProcess_exits [of "so_proc io" _ iv tss _ f1 "Fatal m" f2] pp system
    by (fastforce simp: system_errors_def)
  then obtain pr where p: "p = Ok pr" using assms(1) r new q pp by (cases p) (auto simp: runParallelTests_def)
  have start: "pi_start (so_proc io) \<noteq> Some (Fatal m)" using system by (auto simp: system_errors_def)
  have feed: "feed_streams io 0 (zip tests tss) \<noteq> Err (Fatal m)" using feed_streams_error [of io 0] system by fastforce
  have cmp: "snd (compare_all (tn_cmp env) (tn_diff env) ts True) \<noteq> Err (Fatal m)" for ts
    by (rule compare_all_no_error)
  from assms(1) [unfolded runParallelTests_def new q pp p prod.case result.case] r start feed cmp wait_error_not_fatal
  show False
    by (auto simp: Start_parallel_def check_def Let_def split_beta split: option.splits result.splits prod.splits)
qed

lemma alone_setup_not_fatal: "alone_setup io s \<noteq> Err (Fatal m)"
  by (auto simp: alone_setup_def alone_version_def rbind_Err_conv map_err_Err Let_def)

lemma runTests_wrapped: "\<not> has_exited (map_err (Wrap w) r)"
  by (cases r) auto

lemma run_alone_exits:
  assumes "run_alone io s files = (rs, r, files')" and "has_exited r"
    and "\<forall>e \<in> system_errors (ao_sockets io). \<not> is_fatal e"
  shows "al_unixSockets s \<and> (\<exists>tests. DiscoverTests (ao_tc_files io) (ao_tc_env io) (al_testcasePath s) = Ok tests \<and>
    (\<exists>i < length tests. si_Listen (so_stream (ao_sockets io) i) \<noteq> None))"
proof -
  obtain m where r: "r = Err (Fatal m)" using assms(2) by (auto simp: has_exited_iff)
  from assms(1) r obtain diff tests path v where st: "alone_setup io s = Ok (diff, tests, path, v)"
    using alone_setup_not_fatal [of io s m] by (cases "alone_setup io s") (auto simp: run_alone_def)
  then have tests: "DiscoverTests (ao_tc_files io) (ao_tc_env io) (al_testcasePath s) = Ok tests"
    by (auto simp: alone_setup_def Let_def)
  obtain q f1 where new: "NewInvocation ((ao_inv io)\<lparr>iv_at_least := ao_at_least io v\<rparr>) (ao_ast io) (ao_set_nil io)
      path (al_logstashArgs s) (al_configPaths s) files = (q, f1)" by fastforce
  note run = assms(1) [unfolded run_alone_def st result.case prod.case new]
  from run r obtain iv where q: "q = Ok iv" by (cases q) auto
  let ?env = "\<lparr>tn_environ = ao_environ io, tn_unjson = ao_unjson io, tn_cmp = ao_cmp io, tn_diff = diff,
    tn_kept = defaultKeptEnvVars @ al_keptEnvVars s\<rparr>"
  obtain rs1 r1 f2 where par: "runParallelTests ?env (ao_sockets io) iv tests f1 = (rs1, r1, f2)" by (rule prod_cases3)
  obtain rs2 r2 f3 where seq: "runTests ?env (ao_tests io) iv 0 tests True f1 = (rs2, r2, f3)" by (rule prod_cases3)
  have "map_err (Wrap []) r2 \<noteq> Err (Fatal m)" by (auto simp: map_err_Err)
  with run q r par seq have "al_unixSockets s" and "on_error (Wrap []) r1 = Err (Fatal m)"
    by (auto simp: Let_def split: if_splits)
  moreover from this(2) have "has_exited r1" by (auto simp: on_error_def map_err_Err split: if_splits)
  ultimately show ?thesis using tests runParallelTests_exits [OF par _ assms(3)] by blast
qed

text \<open>The files of a run: the invocation's directory is removed again, unless the process has exited.\<close>

lemma run_alone_files:
  assumes "run_alone io s files = (rs, r, files')" and "iv_MkdirTemp (ao_inv io) = Ok tempDir"
    and "r \<noteq> Panic" and "al_configPaths s \<noteq> []" and "\<not> has_exited r"
  shows "files' = files \<or> (\<exists>files0. files' = remove_all tempDir files0)"
proof (cases "alone_setup io s")
  case (Ok st)
  obtain diffCmd tests path v where st: "st = (diffCmd, tests, path, v)" by (metis prod_cases4)
  obtain i f1 where new: "NewInvocation ((ao_inv io)\<lparr>iv_at_least := ao_at_least io v\<rparr>) (ao_ast io) (ao_set_nil io)
      path (al_logstashArgs s) (al_configPaths s) files = (i, f1)" by fastforce
  note run = assms(1) [unfolded run_alone_def Ok st result.case prod.case new]
  have temp: "iv_MkdirTemp ((ao_inv io)\<lparr>iv_at_least := ao_at_least io v\<rparr>) = Ok tempDir" using assms(2) by simp
  from new temp assms(4) show ?thesis
  proof (cases rule: NewInvocation_cases)
    case (failed e files0)
    with run show ?thesis by auto
  next
    case panic
    with run assms(3) show ?thesis by simp
  next
    case (ready iv)
    with run assms(5) show ?thesis by (auto simp: Release_invocation_def Let_def split: prod.splits)
  qed
qed (use assms(1,3) in \<open>auto simp: run_alone_def\<close>)

text \<open>A test case set that a process of its own serves without any error, with the events \<open>evs\<close>.\<close>

definition alone_ok :: "test_env \<Rightarrow> test_io \<Rightarrow> test_case_set \<Rightarrow> event list \<Rightarrow> bool" where
  "alone_ok env io t evs \<longleftrightarrow>
     (\<exists>name. pi_TempFile (tt_proc io) = Ok name \<and>
       readEvents (tn_unjson env) (en_output (tt_ended io (t_InputLines t)) name) = (evs, None)) \<and>
     pi_WriteAt (tt_proc io) = None \<and> pi_Truncate (tt_proc io) = None \<and> pi_StdinPipe (tt_proc io) = None \<and>
     pi_start (tt_proc io) = None \<and> is_ok (LogstashHash (case t_InputFields t of None \<Rightarrow> [] | Some m \<Rightarrow> m)) \<and>
     (\<forall>l. tt_write io l = None) \<and> tt_close io = None \<and> en_waitErr (tt_ended io (t_InputLines t)) = None"

lemma first_error_None [simp]: "first_error (\<lambda>x. None) xs = None"
  by (induction xs) simp_all

lemma run_one_ok:
  assumes "alone_ok env io t evs"
  shows "\<exists>files' p. run_one env io iv t files =
    (fst (Compare (tn_cmp env) t evs (tn_diff env)), snd (Compare (tn_cmp env) t evs (tn_diff env)), files', Some p)"
proof -
  from assms obtain name h where io: "pi_TempFile (tt_proc io) = Ok name"
    "readEvents (tn_unjson env) (en_output (tt_ended io (t_InputLines t)) name) = (evs, None)"
    "LogstashHash (case t_InputFields t of None \<Rightarrow> [] | Some m \<Rightarrow> m) = Ok h"
    "pi_WriteAt (tt_proc io) = None" "pi_Truncate (tt_proc io) = None" "pi_StdinPipe (tt_proc io) = None"
    "pi_start (tt_proc io) = None" "\<forall>l. tt_write io l = None" "tt_close io = None"
    "en_waitErr (tt_ended io (t_InputLines t)) = None"
    unfolding alone_ok_def is_ok_iff by blast
  obtain p files' where new: "NewProcess (tt_proc io) (tn_environ env) iv (t_Codec t) (t_InputFields t) (tn_kept env) files
      = (Ok p, files')" and p: "pr_output p = name"
    by (simp add: NewProcess_def io Args_content newProcessWithArgs_def check_def Let_def)
  show ?thesis
    by (simp add: run_one_def new p Start_process_def Wait_process_def check_def io split_beta Let_def)
qed

text \<open>Sockets that serve all test case sets without any error, with the events \<open>evss\<close>.\<close>

definition stream_of :: "(nat \<Rightarrow> string) \<Rightarrow> (nat \<Rightarrow> string) \<Rightarrow> nat \<Rightarrow> test_case_set \<Rightarrow> test_stream" where
  "stream_of dirs names i t = \<lparr>ts_senderPath = path_join [dirs i, ''socket''], ts_sender = True,
     ts_receiver = names i, ts_inputCodec = t_Codec t, ts_fields = t_InputFields t\<rparr>"

definition streams_of :: "(nat \<Rightarrow> string) \<Rightarrow> (nat \<Rightarrow> string) \<Rightarrow> nat \<Rightarrow> test_case_set list \<Rightarrow> test_stream list" where
  "streams_of dirs names k ts = map2 (stream_of dirs names) [k..<k + length ts] ts"

lemma streams_of_simps [simp]:
  "streams_of dirs names k [] = []"
  "streams_of dirs names k (t # ts) = stream_of dirs names k t # streams_of dirs names (Suc k) ts"
  by (simp_all add: streams_of_def upt_conv_Cons del: upt_Suc)

definition sockets_ok :: "test_env \<Rightarrow> sockets_io \<Rightarrow> test_case_set list \<Rightarrow> event list list \<Rightarrow> bool" where
  "sockets_ok env io tests evss \<longleftrightarrow> (\<exists>dirs names.
     (\<forall>i. si_MkdirTemp (so_stream io i) = Ok (dirs i) \<and> si_Listen (so_stream io i) = None \<and>
       si_Accept (so_stream io i) = None \<and> si_TempFile (so_stream io i) = Ok (names i) \<and>
       so_ready io i \<and> (\<forall>l. so_write io i l = None) \<and> so_close io i = None) \<and>
     pi_WriteAt (so_proc io) = None \<and> pi_Truncate (so_proc io) = None \<and> pi_start (so_proc io) = None \<and>
     is_ok (getSocketInOutPlugins (streams_of dirs names 0 tests)) \<and>
     en_waitErr (so_ended io (map t_InputLines tests)) = None \<and> length evss = length tests \<and>
     (\<forall>i < length tests. \<exists>evs. readEvents (tn_unjson env) (en_output (so_ended io (map t_InputLines tests)) (names i))
        = (evs, None) \<and> evss ! i = map (strip_path (path_join [dirs i, ''socket''])) evs))"

lemma new_streams_ok:
  assumes "\<forall>i. si_MkdirTemp (io i) = Ok (dirs i) \<and> si_Listen (io i) = None \<and>
    si_Accept (io i) = None \<and> si_TempFile (io i) = Ok (names i)"
  shows "\<exists>files'. new_streams io k ts tss files = (Ok (tss @ streams_of dirs names k ts), files')"
proof (induction ts arbitrary: k tss files)
  case (Cons t ts)
  have "NewTestStream (io k) (t_Codec t) (t_InputFields t) files = (Ok (stream_of dirs names k t), mput (names k) [] files)"
    by (simp add: NewTestStream_def assms stream_of_def)
  with Cons.IH [of "Suc k" "tss @ [stream_of dirs names k t]" "mput (names k) [] files"] show ?case by simp
qed simp

lemma write_lines_ok: "ts_sender s \<Longrightarrow> (\<And>l. io l = None) \<Longrightarrow> write_lines True io s ls = Ok ()"
  by (induction ls) (simp_all add: Write_stream_def check_def)

lemma feed_streams_ok:
  assumes "\<forall>i. so_ready io i \<and> (\<forall>l. so_write io i l = None) \<and> so_close io i = None"
  shows "feed_streams io k (zip ts (streams_of dirs names k ts)) = Ok ()"
  by (induction ts arbitrary: k) (simp_all add: assms write_lines_ok stream_of_def Close_stream_def check_def)

lemma socket_plugins_streams:
  "socket_plugins i tss = Ok (tss', ins, outs) \<Longrightarrow>
   map ts_senderPath tss' = map ts_senderPath tss \<and> map ts_receiver tss' = map ts_receiver tss"
  by (induction tss arbitrary: i tss' ins outs) auto

lemma kept_streams:
  assumes "map ts_senderPath tss' = map ts_senderPath (streams_of dirs names 0 tests)"
    and "map ts_receiver tss' = map ts_receiver (streams_of dirs names 0 tests)"
  shows "i < length tests \<Longrightarrow>
      ts_senderPath (tss' ! i) = path_join [dirs i, ''socket''] \<and> ts_receiver (tss' ! i) = names i"
    and "length tss' = length tests"
proof -
  let ?tss = "streams_of dirs names 0 tests"
  have l: "length ?tss = length tests" by (simp add: streams_of_def)
  show tl: "length tss' = length tests" using assms(1) l by (metis length_map)
  assume i: "i < length tests"
  have "?tss ! i = stream_of dirs names i (tests ! i)" using i by (simp add: streams_of_def)
  with assms i tl l show "ts_senderPath (tss' ! i) = path_join [dirs i, ''socket''] \<and> ts_receiver (tss' ! i) = names i"
    by (metis nth_map stream_of_def test_stream.select_convs(1,3))
qed

lemma runParallelTests_ok:
  assumes "sockets_ok env io tests evss"
  shows "\<exists>files'. runParallelTests env io iv tests files =
    (fst (compare_all (tn_cmp env) (tn_diff env) (zip tests evss) True),
     snd (compare_all (tn_cmp env) (tn_diff env) (zip tests evss) True), files')"
proof -
  from assms obtain dirs names where
    io: "\<forall>i. si_MkdirTemp (so_stream io i) = Ok (dirs i) \<and> si_Listen (so_stream io i) = None \<and>
      si_Accept (so_stream io i) = None \<and> si_TempFile (so_stream io i) = Ok (names i)"
    "\<forall>i. so_ready io i \<and> (\<forall>l. so_write io i l = None) \<and> so_close io i = None"
    and proc: "pi_WriteAt (so_proc io) = None" "pi_Truncate (so_proc io) = None" "pi_start (so_proc io) = None"
    and plugins: "is_ok (getSocketInOutPlugins (streams_of dirs names 0 tests))"
    and en: "en_waitErr (so_ended io (map t_InputLines tests)) = None" and len: "length evss = length tests"
    and evs: "\<forall>i < length tests. \<exists>evs. readEvents (tn_unjson env) (en_output (so_ended io (map t_InputLines tests)) (names i))
        = (evs, None) \<and> evss ! i = map (strip_path (path_join [dirs i, ''socket''])) evs"
    unfolding sockets_ok_def by blast
  let ?tss = "streams_of dirs names 0 tests" and ?en = "so_ended io (map t_InputLines tests)"
  obtain f1 where new: "new_streams (so_stream io) 0 tests [] files = (Ok ?tss, f1)"
    using new_streams_ok [OF io(1), of 0 tests "[]" files] by auto
  from plugins obtain tss' ins outs where g: "getSocketInOutPlugins ?tss = Ok (tss', ins, outs)"
    by (auto simp: is_ok_iff)
  then have keep: "map ts_senderPath tss' = map ts_senderPath ?tss" "map ts_receiver tss' = map ts_receiver ?tss"
    using socket_plugins_streams unfolding getSocketInOutPlugins_def by blast+
  obtain p f2 where pp: "NewParallelProcess (so_proc io) (tn_environ env) iv ?tss (tn_kept env) f1 = (Ok p, f2)"
    and p: "pp_streams p = tss'"
    by (simp add: NewParallelProcess_def g proc Args_content Let_def)
  have feed: "feed_streams io 0 (zip tests ?tss) = Ok ()" by (rule feed_streams_ok [OF io(2)])
  note nth = kept_streams(1) [OF keep] and tlen = kept_streams(2) [OF keep]
  have born: "pp_born (p\<lparr>pp_born := True\<rparr>)" and streams: "pp_streams (p\<lparr>pp_born := True\<rparr>) = tss'"
    using p by simp_all
  obtain res err where w: "Wait_parallel (tn_unjson env) ?en (p\<lparr>pp_born := True\<rparr>) = (Some res, err)"
    and res: "res_Events res = map (\<lambda>ts. map (strip_path (ts_senderPath ts))
        (fst (readEvents (tn_unjson env) (en_output ?en (ts_receiver ts))))) tss'"
    and err: "err = (if tss' = [] then None else snd (readEvents (tn_unjson env) (en_output ?en (ts_receiver (last tss')))))"
    using parallel_wait [OF born, of ?en "tn_unjson env", unfolded streams] en by blast
  have "res_Events res = evss"
    using res evs nth tlen len by (auto intro!: nth_equalityI)
  moreover have "err = None"
  proof (cases "tss' = []")
    case False
    then have "length tests - 1 < length tests" "last tss' = tss' ! (length tests - 1)"
      using tlen by (cases tests; simp add: last_conv_nth)+
    with err False evs nth show ?thesis by fastforce
  qed (use err in simp)
  ultimately show ?thesis
    by (simp add: runParallelTests_def new pp Start_parallel_def proc check_def feed w split_beta Let_def)
qed

lemma compare_all_False: "snd (compare_all cmp diff xs False) \<noteq> Ok True"
  using compare_all_verdict by (metis prod.collapse)

lemma runTests_compare:
  "list_all2 (\<lambda>i (t, evs). alone_ok env (io i) t evs) [k..<k + length ts] (zip ts evss) \<Longrightarrow> length evss = length ts \<Longrightarrow>
   runTests env io iv k ts ok files = (rs, r, files') \<Longrightarrow>
   (\<forall>b. r = Ok b \<longrightarrow> compare_all (tn_cmp env) (tn_diff env) (zip ts evss) ok = (rs, Ok b)) \<and>
   (\<not> is_ok r \<longrightarrow> snd (compare_all (tn_cmp env) (tn_diff env) (zip ts evss) ok) \<noteq> Ok True)"
proof (induction ts arbitrary: k evss ok files rs files')
  case (Cons t ts)
  from Cons.prems(2) obtain evs evss1 where evss: "evss = evs # evss1" by (cases evss) auto
  with Cons.prems(1) have here: "alone_ok env (io k) t evs"
    and later: "list_all2 (\<lambda>i (t, evs). alone_ok env (io i) t evs) [Suc k..<Suc k + length ts] (zip ts evss1)"
    by (simp_all add: upt_conv_Cons del: upt_Suc)
  let ?C = "Compare (tn_cmp env) t evs (tn_diff env)"
  from run_one_ok [OF here, of iv files] obtain f1 p where
    one: "run_one env (io k) iv t files = (fst ?C, snd ?C, f1, Some p)" by blast
  from Cons.prems(3) show ?case
  proof (cases rule: runTests_cons)
    case (stop r1 f p)
    with one have C: "?C = (rs, r)" "\<not> is_ok r" by (auto simp: prod_eq_iff)
    have "snd (compare_all (tn_cmp env) (tn_diff env) (zip (t # ts) evss) ok) \<noteq> Ok True"
      using C compare_all_False [of "tn_cmp env" "tn_diff env" "zip ts evss1"]
      by (cases r) (simp_all add: evss split_beta)
    with C show ?thesis by auto
  next
    case (next_test ok1 rs1 rs2 f f2 p1)
    with one have C: "?C = (rs1, Ok ok1)" by (auto simp: prod_eq_iff)
    have "length evss1 = length ts" using Cons.prems(2) evss by simp
    note IH = Cons.IH [OF later this next_test(2)]
    let ?X = "compare_all (tn_cmp env) (tn_diff env) (zip ts evss1) (ok \<and> ok1)"
    have eq: "compare_all (tn_cmp env) (tn_diff env) (zip (t # ts) evss) ok = (rs1 @ fst ?X, snd ?X)"
      by (cases ok1) (simp_all add: evss C split_beta)
    show ?thesis unfolding eq next_test(3) snd_conv using IH by (intro conjI allI impI) simp_all
  qed
qed auto

lemma findExecutable_first:
  "(\<exists>ds p es perm. ps = ds @ p # es \<and> findExecutable stat windows paths ps = Ok p \<and>
     stat p = Ok (True, perm) \<and> (windows \<or> executable perm) \<and>
     (\<forall>q \<in> set ds. \<not> (\<exists>perm. stat q = Ok (True, perm) \<and> (windows \<or> executable perm)))) \<or>
   (\<exists>e. findExecutable stat windows paths ps = Err e) \<and>
     (\<forall>q \<in> set ps. \<not> (\<exists>perm. stat q = Ok (True, perm) \<and> (windows \<or> executable perm)))"
proof (induction ps)
  case (Cons p ps)
  show ?case
  proof (cases "\<exists>perm. stat p = Ok (True, perm) \<and> (windows \<or> executable perm)")
    case True
    then obtain perm where "stat p = Ok (True, perm)" "windows \<or> executable perm" by blast
    then show ?thesis by (intro disjI1 exI [of _ "[]"] exI [of _ p] exI [of _ ps] exI [of _ perm]) auto
  next
    case False
    then have skip: "findExecutable stat windows paths (p # ps) = findExecutable stat windows paths ps"
      by (auto split: result.splits)
    from Cons.IH show ?thesis
    proof
      assume "\<exists>ds p es perm. ps = ds @ p # es \<and> findExecutable stat windows paths ps = Ok p \<and>
        stat p = Ok (True, perm) \<and> (windows \<or> executable perm) \<and>
        (\<forall>q \<in> set ds. \<not> (\<exists>perm. stat q = Ok (True, perm) \<and> (windows \<or> executable perm)))"
      then obtain ds q es perm where "ps = ds @ q # es" "findExecutable stat windows paths ps = Ok q"
        "stat q = Ok (True, perm)" "windows \<or> executable perm"
        "\<forall>q \<in> set ds. \<not> (\<exists>perm. stat q = Ok (True, perm) \<and> (windows \<or> executable perm))" by blast
      with False skip show ?thesis
        by (intro disjI1 exI [of _ "p # ds"] exI [of _ q] exI [of _ es] exI [of _ perm]) auto
    next
      assume "(\<exists>e. findExecutable stat windows paths ps = Err e) \<and>
        (\<forall>q \<in> set ps. \<not> (\<exists>perm. stat q = Ok (True, perm) \<and> (windows \<or> executable perm)))"
      with False skip show ?thesis by (intro disjI2) auto
    qed
  qed
qed simp

section \<open>Properties\<close>

text \<open>
  C34: the two ways of running the test cases agree. When nothing fails and Logstash yields the same
  events for each test case file, the path fields of the sockets removed, one process for all of
  them gives the same verdict and publishes the same results as one process for each, as long as
  no comparison reports an error; after such an error neither reports a success.
\<close>

theorem modes_agree:
  assumes "\<forall>i < length tests. alone_ok env (aio i) (tests ! i) (evss ! i)" and "sockets_ok env sio tests evss"
    and "runTests env aio iv 0 tests True files = (rs, r, f1)"
    and "runParallelTests env sio iv tests files = (rs', r', f2)"
  shows "(\<forall>b. r = Ok b \<longrightarrow> r' = Ok b \<and> rs' = rs) \<and> (\<not> is_ok r \<longrightarrow> r' \<noteq> Ok True)"
proof -
  have len: "length evss = length tests" using assms(2) by (auto simp: sockets_ok_def)
  then have "list_all2 (\<lambda>i (t, evs). alone_ok env (aio i) t evs) [0..<0 + length tests] (zip tests evss)"
    using assms(1) by (simp add: list_all2_conv_all_nth)
  from runTests_compare [OF this len assms(3)] runParallelTests_ok [OF assms(2), of iv files] assms(4)
  show ?thesis by auto
qed

section \<open>A small example\<close>

definition line_unjson :: "string \<Rightarrow> event result" where
  "line_unjson l = Ok (Some [(''message'', VString l)])"

definition sample_ended :: "string list \<Rightarrow> ended" where
  "sample_ended ls = \<lparr>en_waitErr = None, en_log = [], en_stdio = [], en_output = (\<lambda>name. unlines ls)\<rparr>"

definition sample_proc_io :: proc_io where
  "sample_proc_io = \<lparr>pi_TempFile = Ok ''/o'', pi_WriteAt = None, pi_Truncate = None, pi_StdinPipe = None, pi_start = None\<rparr>"

definition sample_test_io :: test_io where
  "sample_test_io = \<lparr>tt_proc = sample_proc_io, tt_write = (\<lambda>l. None), tt_close = None, tt_ended = sample_ended\<rparr>"

definition sample_sockets :: sockets_io where
  "sample_sockets = \<lparr>so_stream = (\<lambda>i. \<lparr>si_MkdirTemp = Ok ''/s'', si_Listen = None, si_Accept = None, si_TempFile = Ok ''/o''\<rparr>),
     so_proc = sample_proc_io, so_ready = (\<lambda>i. True), so_write = (\<lambda>i l. None), so_close = (\<lambda>i. None),
     so_ended = (\<lambda>lss. sample_ended (concat lss))\<rparr>"

definition sample_alone_io :: "(plugin_type \<Rightarrow> sample_plugin list, sample_plugin, string \<times> string, string) alone_io" where
  "sample_alone_io = \<lparr>ao_shellwords = (\<lambda>s. Ok [s]),
     ao_tc_files = \<lparr>tf_abs = Ok, tf_open = (\<lambda>p. None), tf_read = (\<lambda>p. Ok []), tf_isdir = (\<lambda>p. Ok False),
       tf_readdir = (\<lambda>p. Ok [])\<rparr>,
     ao_tc_env = sample_tc_env\<lparr>te_unjson := (\<lambda>_ _. Ok default_set)\<rparr>, ao_stat = (\<lambda>p. Ok (True, 493)), ao_windows = False, ao_run = (\<lambda>p args env. Ok []),
     ao_NewVersion = Ok, ao_at_least = (\<lambda>v w. False), ao_inv = sample_inv_io, ao_ast = sample_ast, ao_set_nil = sample_set_nil,
     ao_environ = [], ao_unjson = line_unjson, ao_cmp = sample_cmp, ao_tests = (\<lambda>k. sample_test_io),
     ao_sockets = sample_sockets, ao_late = 0, ao_left = []\<rparr>"

definition sample_standalone :: standalone where
  "sample_standalone = \<lparr>al_quiet = True, al_diffCommand = ''diff'', al_testcasePath = ''/c.json'', al_keptEnvVars = [],
     al_logstashPaths = [], al_logstashVersion = ''7.0.0'', al_logstashArgs = [], al_logstashOutput = False,
     al_configPaths = [''/b/x''], al_unixSockets = False, al_unixSocketCommTimeout = 60000000000\<rparr>"

lemma sample_tests:
  obtains t where "DiscoverTests (ao_tc_files sample_alone_io) (ao_tc_env sample_alone_io) ''/c.json'' = Ok [t]"
    "t_InputLines t = []" "t_ExpectedEvents t = []" "t_InputFields t = Some []"
proof -
  have "(case DiscoverTests (ao_tc_files sample_alone_io) (ao_tc_env sample_alone_io) ''/c.json'' of
      Ok ts \<Rightarrow> length ts = 1 \<and> t_InputLines (hd ts) = [] \<and> t_ExpectedEvents (hd ts) = [] \<and> t_InputFields (hd ts) = Some []
    | _ \<Rightarrow> False)" by code_simp
  then show thesis using that by (auto simp: length_Suc_conv split: result.splits)
qed

lemma sample_alone_ok:
  assumes "t_InputLines t = []" and "t_InputFields t = Some []" and "tn_unjson env = line_unjson"
  shows "alone_ok env sample_test_io t []"
  using assms by (simp add: alone_ok_def sample_test_io_def sample_proc_io_def sample_ended_def unlines_def
      readEvents_def LogstashHash_def is_ok_iff)

lemma sample_Compare:
  "t_ExpectedEvents t = [] \<Longrightarrow> \<exists>rs. Compare cmp t [] diff = (rs, Ok True) \<and> length rs = 1"
  by (simp add: Compare_def)

lemma sample_runTests:
  assumes "t_InputLines t = []" and "t_InputFields t = Some []" and "t_ExpectedEvents t = []"
    and "tn_unjson env = line_unjson"
  shows "\<exists>rs f. runTests env (\<lambda>k. sample_test_io) iv 0 [t] True files = (rs, Ok True, f) \<and> length rs = 1"
proof -
  obtain rs where "Compare (tn_cmp env) t [] (tn_diff env) = (rs, Ok True)" "length rs = 1"
    using sample_Compare [OF assms(3)] by blast
  moreover have "\<exists>files' p. run_one env sample_test_io iv t files =
    (fst (Compare (tn_cmp env) t [] (tn_diff env)), snd (Compare (tn_cmp env) t [] (tn_diff env)), files', Some p)"
    by (rule run_one_ok [OF sample_alone_ok [OF assms(1,2,4)]])
  ultimately show ?thesis by auto
qed

definition sample_test_env :: test_env where
  "sample_test_env = \<lparr>tn_environ = [], tn_unjson = line_unjson, tn_cmp = sample_cmp, tn_diff = [''diff''], tn_kept = []\<rparr>"

definition sample_iv :: invocation where
  "sample_iv = \<lparr>inv_LogstashPath = ''/bin/logstash'', inv_args = [], inv_ioConfigFile = ''/t/io.conf'', inv_logDir = ''/t/log'',
     inv_logFile = ''/t/log/l'', inv_tempDir = ''/t''\<rparr>"

lemma sample_sockets_ok:
  assumes "t_InputLines t = []" and "t_InputFields t = Some []"
  shows "sockets_ok sample_test_env sample_sockets [t] [[]]"
proof -
  have "with_testcase 0 (Some []) = Ok [(''@metadata'', VMap [(''__lfv_testcase'', VString ''0'')])]"
    "is_ok (LogstashHash [(''@metadata'', VMap [(''__lfv_testcase'', VString ''0'')])])" by code_simp+
  then have "is_ok (getSocketInOutPlugins (streams_of (\<lambda>i. ''/s'') (\<lambda>i. ''/o'') 0 [t]))"
    using assms(2) by (auto simp: getSocketInOutPlugins_def stream_of_def is_ok_iff)
  then show ?thesis unfolding sockets_ok_def
    by (intro exI [of _ "\<lambda>i. ''/s''"] exI [of _ "\<lambda>i. ''/o''"])
      (simp add: sample_sockets_def sample_proc_io_def sample_ended_def unlines_def assms(1) readEvents_def)
qed

theorem modes_agree_witness:
  "\<exists>(t :: test_case_set) rs f1 f2.
    runTests sample_test_env (\<lambda>k. sample_test_io) sample_iv 0 [t] True [] = (rs, Ok True, f1) \<and>
    runParallelTests sample_test_env sample_sockets sample_iv [t] [] = (rs, Ok True, f2) \<and> length rs = 1"
proof -
  have env: "tn_unjson sample_test_env = line_unjson" by (simp add: sample_test_env_def)
  obtain t where "DiscoverTests (ao_tc_files sample_alone_io) (ao_tc_env sample_alone_io) ''/c.json'' = Ok [t]"
    and t: "t_InputLines t = []" "t_ExpectedEvents t = []" "t_InputFields t = Some []" using sample_tests .
  obtain rs f1 where seq: "runTests sample_test_env (\<lambda>k. sample_test_io) sample_iv 0 [t] True [] = (rs, Ok True, f1)"
    and len: "length rs = 1" using sample_runTests [OF t(1,3,2) env, of sample_iv "[]"] by (elim exE conjE) (rule that)
  obtain rs' r' f2 where par: "runParallelTests sample_test_env sample_sockets sample_iv [t] [] = (rs', r', f2)"
    by (rule prod_cases3)
  have one: "\<forall>i < length [t]. alone_ok sample_test_env sample_test_io ([t] ! i) ([[]] ! i)"
    using sample_alone_ok [OF t(1,3) env] by simp
  have "r' = Ok True" "rs' = rs" 
    using conjunct1 [OF modes_agree [OF one sample_sockets_ok [OF t(1,3)] seq par], THEN spec, of True] by simp_all
  with seq par len show ?thesis by (intro exI [of _ t] exI [of _ rs] exI [of _ f1] exI [of _ f2]) simp
qed

lemma sample_run: "\<exists>rs f. run_alone sample_alone_io sample_standalone [] = (rs, Ok True, f)"
proof -
  obtain t where t: "DiscoverTests (ao_tc_files sample_alone_io) (ao_tc_env sample_alone_io) ''/c.json'' = Ok [t]"
    "t_InputLines t = []" "t_ExpectedEvents t = []" "t_InputFields t = Some []" using sample_tests .
  have paths: "findExecutable (ao_stat sample_alone_io) False defaultLogstashPaths defaultLogstashPaths
      = Ok ''/opt/logstash/bin/logstash''" by code_simp
  have sel: "ao_shellwords sample_alone_io = (\<lambda>s. Ok [s])" "ao_windows sample_alone_io = False"
    "ao_NewVersion sample_alone_io = Ok" "ao_unjson sample_alone_io = line_unjson"
    "ao_tests sample_alone_io = (\<lambda>k. sample_test_io)" "al_testcasePath sample_standalone = ''/c.json''"
    "al_logstashPaths sample_standalone = []" "al_logstashVersion sample_standalone = ''7.0.0''"
    "al_diffCommand sample_standalone = ''diff''" "al_unixSockets sample_standalone = False"
    by (simp_all add: sample_alone_io_def sample_standalone_def)
  have ready: "alone_setup sample_alone_io sample_standalone
      = Ok ([''diff''], [t], ''/opt/logstash/bin/logstash'', ''7.0.0'')"
    by (simp add: alone_setup_def alone_version_def autoVersion_def sel t(1) paths Let_def)
  have "is_ok (fst (NewInvocation ((ao_inv sample_alone_io)\<lparr>iv_at_least := ao_at_least sample_alone_io ''7.0.0''\<rparr>)
      (ao_ast sample_alone_io) (ao_set_nil sample_alone_io) ''/opt/logstash/bin/logstash'' (al_logstashArgs sample_standalone)
      (al_configPaths sample_standalone) []))" by code_simp
  then obtain iv f where new: "NewInvocation ((ao_inv sample_alone_io)\<lparr>iv_at_least := ao_at_least sample_alone_io ''7.0.0''\<rparr>)
      (ao_ast sample_alone_io) (ao_set_nil sample_alone_io) ''/opt/logstash/bin/logstash'' (al_logstashArgs sample_standalone)
      (al_configPaths sample_standalone) [] = (Ok iv, f)"
    unfolding is_ok_iff by (metis prod.collapse)
  obtain rs f1 where "runTests \<lparr>tn_environ = ao_environ sample_alone_io, tn_unjson = line_unjson,
      tn_cmp = ao_cmp sample_alone_io, tn_diff = [''diff''], tn_kept = defaultKeptEnvVars @ al_keptEnvVars sample_standalone\<rparr>
      (\<lambda>k. sample_test_io) iv 0 [t] True f = (rs, Ok True, f1)"
    using sample_runTests [OF t(2,4,3)] by (meson test_env.select_convs(2))
  then show ?thesis
    by (simp add: run_alone_def ready new sel del: runTests.simps)
qed

end
