(* ===== verification/Verdict.thy ===== *)
theory Verdict
  imports Standalone
begin

text \<open>
  What the success of a run of \<open>standalone.go\<close> means: from the verdicts of \<open>Standalone\<close> back to the events that
  Logstash has written for each test case file. A predicate for each stage is carried from the
  process of one test case set, or the streams of the one process, through \<open>runTests\<close> and
  \<open>runParallelTests\<close> to \<open>Run\<close>.
\<close>

text \<open>
  The events that Logstash has written for test case set \<open>i\<close>, read without an error when it had a process of its own.
\<close>

definition own_events :: "(string \<Rightarrow> event result) \<Rightarrow> test_io \<Rightarrow> test_case_set \<Rightarrow> event list \<Rightarrow> bool" where
  "own_events unjson io t evs \<longleftrightarrow> (\<exists>name. pi_TempFile (tt_proc io) = Ok name \<and>
     readEvents unjson (en_output (tt_ended io (t_InputLines t)) name) = (evs, None))"

definition socket_events :: "(string \<Rightarrow> event result) \<Rightarrow> sockets_io \<Rightarrow> string list list \<Rightarrow> nat \<Rightarrow> event list \<Rightarrow> bool" where
  "socket_events unjson io lines i evs \<longleftrightarrow> (\<exists>dir name. si_MkdirTemp (so_stream io i) = Ok dir \<and>
     si_TempFile (so_stream io i) = Ok name \<and>
     evs = map (strip_path (path_join [dir, ''socket''])) (fst (readEvents unjson (en_output (so_ended io lines) name))))"

lemma NewProcess_output: "NewProcess io environ iv codec fs kept files = (Ok p, files') \<Longrightarrow> pi_TempFile io = Ok (pr_output p)"
  by (auto simp: NewProcess_def Let_def split: result.splits prod.splits)

lemma Start_process_output: "Start_process io p = Ok p' \<Longrightarrow> pr_output p' = pr_output p"
  by (auto simp: Start_process_def check_def split: option.splits)

lemma Wait_process_output:
  "Wait_process unjson en p = (Some result, None) \<Longrightarrow> readEvents unjson (en_output en (pr_output p)) = (res_Events result, None)"
  by (auto simp: Wait_process_def Let_def split: if_splits option.splits prod.splits)

lemma run_one_passed:
  assumes "run_one env io iv t files = (rs, Ok True, files', p)"
  shows "\<exists>evs. own_events (tn_unjson env) io t evs \<and> passed (tn_cmp env) (tn_diff env) rs t evs"
proof -
  have "wait_error x e \<noteq> Ok True" for x :: "event list process_result option" and e
    by (simp add: wait_error_def split: option.split)
  with assms obtain q f p' result where
    new: "NewProcess (tt_proc io) (tn_environ env) iv (t_Codec t) (t_InputFields t) (tn_kept env) files = (Ok q, f)"
    and start: "Start_process (tt_proc io) q = Ok p'"
    and wait: "Wait_process (tn_unjson env) (tt_ended io (t_InputLines t)) p' = (Some result, None)"
    and cmp: "Compare (tn_cmp env) t (res_Events result) (tn_diff env) = (rs, Ok True)"
    unfolding run_one_def by (auto split: result.splits prod.splits option.splits)
  have "own_events (tn_unjson env) io t (res_Events result)" unfolding own_events_def
    using NewProcess_output [OF new] Start_process_output [OF start] Wait_process_output [OF wait] by auto
  with cmp show ?thesis by (auto simp: passed_def)
qed

lemma runTests_passed:
  "runTests env io iv k ts ok files = (rs, Ok True, files') \<Longrightarrow>
   \<exists>evss. length evss = length ts \<and> (\<forall>i < length ts. own_events (tn_unjson env) (io (k + i)) (ts ! i) (evss ! i) \<and>
     passed (tn_cmp env) (tn_diff env) rs (ts ! i) (evss ! i))"
proof (induction ts arbitrary: k ok files rs files')
  case (Cons t ts)
  from Cons.prems show ?case
  proof (cases rule: runTests_cons)
    case (next_test ok1 rs1 rs2 f1 f2 p)
    from runTests_verdict [OF next_test(2)] have "ok1" by simp
    with next_test(1) have "run_one env (io k) iv t files = (rs1, Ok True, f1, p)" by simp
    from run_one_passed [OF this] obtain evs where
      one: "own_events (tn_unjson env) (io k) t evs" "passed (tn_cmp env) (tn_diff env) rs1 t evs" by blast
    from Cons.IH [OF next_test(2)] obtain evss where "length evss = length ts"
      "\<forall>i < length ts. own_events (tn_unjson env) (io (Suc k + i)) (ts ! i) (evss ! i) \<and>
        passed (tn_cmp env) (tn_diff env) rs2 (ts ! i) (evss ! i)" by blast
    with one next_test(3) show ?thesis
      by (intro exI [of _ "evs # evss"]) (auto simp: nth_Cons intro: passed_mono split: nat.splits)
  qed auto
qed simp

lemma compare_all_passed:
  "compare_all cmp diff (zip ts evss) ok = (rs, Ok True) \<Longrightarrow> length evss = length ts \<Longrightarrow>
   i < length ts \<Longrightarrow> passed cmp diff rs (ts ! i) (evss ! i)"
proof (induction ts arbitrary: ok rs evss i)
  case (Cons t ts)
  then obtain evs evss1 where evss: "evss = evs # evss1" by (cases evss) auto
  from Cons.prems(1) [unfolded evss zip_Cons_Cons] show ?case
  proof (cases rule: compare_all_cons)
    case (next_test rs1 r1 rs2)
    from compare_all_verdict [OF next_test(4)] have "r1 = Ok True" by simp
    with next_test(1,3) have one: "passed cmp diff rs t evs" by (auto simp: passed_def)
    have "passed cmp diff rs2 (ts ! j) (evss1 ! j)" if "j < length ts" for j
      using Cons.IH [OF next_test(4)] Cons.prems(2) evss that by simp
    then have "passed cmp diff rs (ts ! j) (evss1 ! j)" if "j < length ts" for j
      by (rule passed_mono [of cmp diff rs2]) (simp_all add: that next_test(3))
    with one Cons.prems(3) evss show ?thesis by (cases i) auto
  qed simp
qed simp

lemma NewTestStream_Ok:
  "NewTestStream io codec fs files = (Ok ts, files') \<Longrightarrow>
   \<exists>dir. si_MkdirTemp io = Ok dir \<and> si_TempFile io = Ok (ts_receiver ts) \<and> ts_senderPath ts = path_join [dir, ''socket'']"
  by (auto simp: NewTestStream_def split: result.splits if_splits)

text \<open>The stream of test case set \<open>i\<close>.\<close>

definition stream_at :: "sockets_io \<Rightarrow> nat \<Rightarrow> test_stream \<Rightarrow> bool" where
  "stream_at io i ts \<longleftrightarrow> (\<exists>dir. si_MkdirTemp (so_stream io i) = Ok dir \<and> si_TempFile (so_stream io i) = Ok (ts_receiver ts) \<and>
     ts_senderPath ts = path_join [dir, ''socket''])"

lemma stream_at_cong:
  assumes "map ts_senderPath tss' = map ts_senderPath tss" and "map ts_receiver tss' = map ts_receiver tss"
  shows "length tss' = length tss \<and> (\<forall>i < length tss. stream_at io i (tss ! i) \<longrightarrow> stream_at io i (tss' ! i))"
proof -
  have len: "length tss' = length tss" using assms(1) by (metis length_map)
  then have "ts_senderPath (tss' ! i) = ts_senderPath (tss ! i) \<and> ts_receiver (tss' ! i) = ts_receiver (tss ! i)"
    if "i < length tss" for i using that assms by (metis nth_map)
  with len show ?thesis by (simp add: stream_at_def)
qed

lemma new_streams_at:
  "new_streams (so_stream io) k ts tss files = (Ok tss', files') \<Longrightarrow> length tss = k \<Longrightarrow> (\<forall>i < k. stream_at io i (tss ! i)) \<Longrightarrow>
   length tss' = k + length ts \<and> (\<forall>i < length tss'. stream_at io i (tss' ! i))"
proof (induction ts arbitrary: k tss files)
  case (Cons t ts)
  from Cons.prems(1) obtain s f where s: "NewTestStream (so_stream io k) (t_Codec t) (t_InputFields t) files = (Ok s, f)"
    and rest: "new_streams (so_stream io) (Suc k) ts (tss @ [s]) f = (Ok tss', files')"
    by (auto split: result.splits prod.splits)
  have "stream_at io k s" using NewTestStream_Ok [OF s] by (simp add: stream_at_def)
  with Cons.prems(2,3) Cons.IH [OF rest] show ?case by (simp add: nth_append less_Suc_eq)
qed simp

lemma Wait_parallel_events:
  "Wait_parallel unjson en p = (Some res, None) \<Longrightarrow> res_Events res = map (\<lambda>ts. map (strip_path (ts_senderPath ts))
     (fst (readEvents unjson (en_output en (ts_receiver ts))))) (pp_streams p)"
  by (auto simp: Wait_parallel_def wait_streams_eq Let_def split: if_splits prod.splits)

lemma runParallelTests_passed:
  assumes "runParallelTests env io iv tests files = (rs, Ok True, files')"
  shows "\<exists>evss. length evss = length tests \<and> (\<forall>i < length tests.
    socket_events (tn_unjson env) io (map t_InputLines tests) i (evss ! i) \<and>
    passed (tn_cmp env) (tn_diff env) rs (tests ! i) (evss ! i))"
proof -
  have "wait_error x e \<noteq> Ok True" for x :: "event list list process_result option" and e
    by (simp add: wait_error_def split: option.split)
  with assms obtain tss f1 p f2 p' res where new: "new_streams (so_stream io) 0 tests [] files = (Ok tss, f1)"
    and pp: "NewParallelProcess (so_proc io) (tn_environ env) iv tss (tn_kept env) f1 = (Ok p, f2)"
    and start: "Start_parallel (so_proc io) p = Ok p'"
    and wait: "Wait_parallel (tn_unjson env) (so_ended io (map t_InputLines tests)) p' = (Some res, None)"
    and cmp: "compare_all (tn_cmp env) (tn_diff env) (zip tests (res_Events res)) True = (rs, Ok True)"
    unfolding runParallelTests_def by (auto simp: Let_def split: result.splits prod.splits option.splits)
  from pp obtain ins outs where "getSocketInOutPlugins tss = Ok (pp_streams p, ins, outs)"
    by (auto simp: NewParallelProcess_def Let_def split: result.splits prod.splits)
  then have keep: "map ts_senderPath (pp_streams p) = map ts_senderPath tss"
    "map ts_receiver (pp_streams p) = map ts_receiver tss"
    using socket_plugins_streams unfolding getSocketInOutPlugins_def by blast+
  have same: "pp_streams p' = pp_streams p" using start by (auto simp: Start_parallel_def check_def split: option.splits)
  have at: "length tss = length tests" "\<forall>i < length tests. stream_at io i (tss ! i)"
    using new_streams_at [OF new] by simp_all
  from stream_at_cong [OF keep, of io] at have streams: "length (pp_streams p') = length tests"
    "\<forall>i < length tests. stream_at io i (pp_streams p' ! i)"
    unfolding same by simp_all
  with Wait_parallel_events [OF wait] have "length (res_Events res) = length tests"
    "\<forall>i < length tests. socket_events (tn_unjson env) io (map t_InputLines tests) i (res_Events res ! i)"
    by (auto simp: stream_at_def socket_events_def)
  with compare_all_passed [OF cmp] show ?thesis by blast
qed

text \<open>What a run that ends with a success has done.\<close>

definition all_passed :: "('cfg, 'pl, 'at, 'v) alone_io \<Rightarrow> standalone \<Rightarrow> comparison_result list \<Rightarrow> bool" where
  "all_passed io s rs \<longleftrightarrow> (\<exists>diff tests evss. ao_shellwords io (al_diffCommand s) = Ok diff \<and>
     DiscoverTests (ao_tc_files io) (ao_tc_env io) (al_testcasePath s) = Ok tests \<and> length evss = length tests \<and>
     (\<forall>i < length tests. passed (ao_cmp io) diff rs (tests ! i) (evss ! i) \<and>
       (if al_unixSockets s then socket_events (ao_unjson io) (ao_sockets io) (map t_InputLines tests) i (evss ! i)
        else own_events (ao_unjson io) (ao_tests io i) (tests ! i) (evss ! i))))"

lemma alone_setup_Ok:
  "alone_setup io s = Ok (diff, tests, path, v) \<Longrightarrow> ao_shellwords io (al_diffCommand s) = Ok diff \<and>
   DiscoverTests (ao_tc_files io) (ao_tc_env io) (al_testcasePath s) = Ok tests"
  by (auto simp: alone_setup_def Let_def)

lemma run_alone_passed:
  assumes "run_alone io s files = (rs, Ok True, files')"
  shows "all_passed io s rs"
proof -
  from assms obtain diff tests path v where prep: "alone_setup io s = Ok (diff, tests, path, v)"
    by (auto simp: run_alone_def split: result.splits)
  let ?env = "\<lparr>tn_environ = ao_environ io, tn_unjson = ao_unjson io, tn_cmp = ao_cmp io, tn_diff = diff,
                tn_kept = defaultKeptEnvVars @ al_keptEnvVars s\<rparr>"
  from alone_setup_Ok [OF prep] have ready: "ao_shellwords io (al_diffCommand s) = Ok diff"
    "DiscoverTests (ao_tc_files io) (ao_tc_env io) (al_testcasePath s) = Ok tests" by simp_all
  from assms prep obtain iv f1 f2 where run: "if al_unixSockets s then runParallelTests ?env (ao_sockets io) iv tests f1 = (rs, Ok True, f2)
      else runTests ?env (ao_tests io) iv 0 tests True f1 = (rs, Ok True, f2)"
    by (auto simp: run_alone_def Let_def split: result.splits prod.splits if_splits)
  show ?thesis
  proof (cases "al_unixSockets s")
    case True
    with run have "runParallelTests ?env (ao_sockets io) iv tests f1 = (rs, Ok True, f2)" by simp
    from runParallelTests_passed [OF this] show ?thesis unfolding all_passed_def using ready True by auto
  next
    case False
    with run have "runTests ?env (ao_tests io) iv 0 tests True f1 = (rs, Ok True, f2)" by simp
    from runTests_passed [OF this] show ?thesis unfolding all_passed_def using ready False by auto
  qed
qed

text \<open>
  The run as a whole: on success an observer that is not silenced has seen the results and their end,
  as far as it has subscribed in time, and unless the run panics or ends the process no file is left
  below the temporary directory that was not there before.
\<close>

lemma standalone_success:
  assumes "Run_standalone io s files = (obs, Ok (), files')"
  shows "\<exists>rs. all_passed io s rs \<and> (\<forall>r \<in> set rs. r_Status r) \<and> obs = (if al_quiet s then None else Some (observed (ao_late io) rs True))"
proof -
  obtain rs r f where run: "run_alone io s files = (rs, r, f)" by (rule prod_cases3)
  with assms have r: "rbind r (\<lambda>status. if status then Ok () else Err (Errorf ''failed test cases'' [])) = Ok ()"
    and obs: "obs = (if al_quiet s then None else Some (observed (ao_late io) rs (is_ok r)))"
    by (auto simp: Run_standalone_def Let_def split: if_splits result.splits)
  from r have "r = Ok True" by (cases r) (auto split: if_splits)
  with run have run: "run_alone io s files = (rs, Ok True, f)" and ok: "is_ok r = True" by simp_all
  from run_alone_passed [OF run] run_alone_verdict [OF run] show ?thesis unfolding obs ok by blast
qed

lemma standalone_leaves_nothing:
  assumes "Run_standalone io s files = (obs, res, files')" and "res \<noteq> Panic"
    and "iv_MkdirTemp (ao_inv io) = Ok tempDir" and "al_configPaths s \<noteq> []"
    and "under tempDir p" and "mget files p = None" and "\<not> has_exited res"
  shows "mget files' p = None"
proof -
  obtain rs r f where run: "run_alone io s files = (rs, r, f)" by (rule prod_cases3)
  with assms(1,2,7) have "f = files'" "r \<noteq> Panic" "\<not> has_exited r"
    by (cases r; auto simp: Run_standalone_def Let_def split: if_splits result.splits)+
  with run_alone_files [OF run assms(3) _ assms(4)] assms(5,6) show ?thesis by (auto simp: map_simps)
qed

lemma standalone_exits:
  assumes "Run_standalone io s files = (obs, res, files')" and "has_exited res"
    and "\<forall>e \<in> system_errors (ao_sockets io). \<not> is_fatal e"
  shows "al_unixSockets s \<and> (\<exists>tests. DiscoverTests (ao_tc_files io) (ao_tc_env io) (al_testcasePath s) = Ok tests \<and>
    (\<exists>i < length tests. si_Listen (so_stream (ao_sockets io) i) \<noteq> None))"
proof -
  obtain rs r f where run: "run_alone io s files = (rs, r, f)" by (rule prod_cases3)
  with assms(1,2) have "has_exited r"
    by (cases r) (auto simp: Run_standalone_def Let_def split: if_splits result.splits)
  with run_alone_exits [OF run _ assms(3)] show ?thesis by blast
qed

end
