(* ===== verification/Commands.thy ===== *)
theory Commands
  imports Run Verdict
begin

text \<open>
  The commands of the program: \<open>internal/app/*.go\<close>, \<open>internal/app/setup/setup.go\<close> and
  \<open>internal/app/daemon/shutdown/shutdown.go\<close>. Cobra and viper, which parse the command line and the
  configuration, are outside the repository: a configuration is what viper answers for each key.
\<close>

record config =
  v_String :: "string \<Rightarrow> string"
  v_Strings :: "string \<Rightarrow> string list"
  v_Bool :: "string \<Rightarrow> bool"
  v_Duration :: "string \<Rightarrow> int"

section \<open>The daemon's commands\<close>

text \<open>\<open>run\<close> stands for \<open>Run\<close> with its environment.\<close>

definition test_run_of :: "config \<Rightarrow> test_run" where
  "test_run_of v =
     \<lparr>tr_socket = v_String v ''socket'', tr_pipeline = v_String v ''pipeline'', tr_pipelineBase = v_String v ''pipeline-base'',
      tr_logstashConfig = v_String v ''logstash-config'', tr_testcasePath = v_String v ''testcase-dir'',
      tr_pluginMock = v_String v ''plugin-mock'', tr_metadataKey = v_String v ''metadata-key'',
      tr_debug = v_Bool v ''debug'', tr_addMissingID = v_Bool v ''add-missing-id''\<rparr>"

definition runDaemonRun :: "config \<Rightarrow> (string \<Rightarrow> string result) \<Rightarrow> string result
    \<Rightarrow> (test_run \<Rightarrow> 'w \<Rightarrow> observer_state result option \<times> unit result \<times> 'w) \<Rightarrow> 'w
    \<Rightarrow> observer_state result option \<times> unit result \<times> 'w" where
  "runDaemonRun v absp getwd run w =
     (if v_String v ''pipeline'' \<noteq> [] \<and> v_String v ''logstash-config'' \<noteq> []
      then (None, Err (Errorf ''--pipeline and --logstash-config flags are mutual exclusive'' []), w)
      else (case New_run absp getwd (test_run_of v) of
              Err e \<Rightarrow> (None, Err e, w)
            | Panic \<Rightarrow> (None, Panic, w)
            | Ok t \<Rightarrow> run t w))"

text \<open>The result, and the temporary directory that the deferred \<open>Cleanup\<close> removes.\<close>

definition runDaemonStart :: "config \<Rightarrow> 'v run_io \<Rightarrow> sctl \<Rightarrow> unit result \<times> string option" where
  "runDaemonStart v io nil_sessions =
     (let keptEnvs = (if 0 < length (v_Strings v ''daemon-keep-envs'') then v_Strings v ''daemon-keep-envs''
                      else v_Strings v ''keep-envs'')
      in case Run_daemon io (New_daemon (v_String v ''socket'') (v_String v ''logstash.path'') keptEnvs
                (v_Duration v ''inflight-shutdown-timeout'') (v_Duration v ''shutdown-timeout'')
                (v_Duration v ''wait-for-state-timeout'') (v_Bool v ''no-cleanup'')
                (v_Duration v ''wait-for-late-arrivals-timeout'') nil_sessions) of
           (r, d) \<Rightarrow> (r, Cleanup d))"

text \<open>The call of the daemon, when it can be reached on its socket.\<close>

definition Run_shutdown :: "(string \<Rightarrow> gerror option) \<Rightarrow> string \<Rightarrow> daemon \<Rightarrow> unit result \<times> daemon" where
  "Run_shutdown dial socket d = (case dial socket of Some e \<Rightarrow> (Err e, d) | None \<Rightarrow> Shutdown_call d)"

definition runDaemonShutdown :: "config \<Rightarrow> (string \<Rightarrow> gerror option) \<Rightarrow> daemon \<Rightarrow> unit result \<times> daemon" where
  "runDaemonShutdown v dial d = Run_shutdown dial (v_String v ''socket'') d"

section \<open>The standalone command\<close>

definition validateStandaloneArgs :: "(string \<Rightarrow> bool) \<Rightarrow> string list \<Rightarrow> unit result" where
  "validateStandaloneArgs notExist args =
     (if length args < 1 then Err (Errorf ''required argument 'testcases' not provided, try --help'' [])
      else if length args < 2 then Err (Errorf ''required argument 'config' not provided, try --help'' [])
      else (case find notExist args of
              Some arg \<Rightarrow> Err (Errorf ''path %q does not exist, try --help'' [arg])
            | None \<Rightarrow> Ok ()))"

definition standalone_of :: "config \<Rightarrow> string \<Rightarrow> string list \<Rightarrow> standalone" where
  "standalone_of v testcases configs =
     New_standalone (v_Bool v ''quiet'') (v_String v ''diff-command'') testcases (v_Strings v ''keep-envs'')
       (v_Strings v ''logstash-paths'') (v_String v ''logstash-version'') (v_Strings v ''logstash-args'')
       (v_Bool v ''logstash-output'') configs (v_Bool v ''sockets'') (v_Duration v ''sockets-timeout'')"

definition runStandalone :: "config \<Rightarrow> ('cfg, 'pl, 'at, 'v) alone_io \<Rightarrow> string list \<Rightarrow> file_map
    \<Rightarrow> observer_state result option \<times> unit result \<times> file_map" where
  "runStandalone v io args files =
     (case args of
        [] \<Rightarrow> (None, Panic, files)
      | testcases # configs \<Rightarrow> Run_standalone io (standalone_of v testcases configs) files)"

text \<open>Cobra validates the arguments before it runs the command.\<close>

definition standalone_command :: "config \<Rightarrow> ('cfg, 'pl, 'at, 'v) alone_io \<Rightarrow> (string \<Rightarrow> bool) \<Rightarrow> string list \<Rightarrow> file_map
    \<Rightarrow> observer_state result option \<times> unit result \<times> file_map" where
  "standalone_command v io notExist args files =
     (case validateStandaloneArgs notExist args of
        Ok _ \<Rightarrow> runStandalone v io args files
      | r \<Rightarrow> (None, r, files))"

section \<open>Setting up Logstash\<close>

record setup_state =
  su_version :: string
  su_targetDir :: string
  su_oss :: bool
  su_osArch :: string
  su_archiveType :: string

text \<open>
  \<open>dl_before\<close> compares versions. \<open>dl_Get\<close> is the body of the response, whatever its status; a copy that
  fails has written a number of bytes; unarchiving may leave the target directory behind.
\<close>

record setup_io =
  dl_before :: "string \<Rightarrow> string \<Rightarrow> bool"
  dl_MkdirAll :: "gerror option"
  dl_Get :: "string \<Rightarrow> string result"
  dl_OpenFile :: "gerror option"
  dl_Copy :: "(nat \<times> gerror) option"
  dl_unarchive :: "string \<Rightarrow> bool \<times> gerror option"

definition New_setup :: "string \<Rightarrow> string \<Rightarrow> bool \<Rightarrow> string \<Rightarrow> string \<Rightarrow> setup_state" where
  "New_setup version targetDir oss osArch archiveType =
     \<lparr>su_version = version, su_targetDir = targetDir, su_oss = oss, su_osArch = osArch, su_archiveType = archiveType\<rparr>"

declare New_setup_def [simp]

definition osArch :: "string \<Rightarrow> string \<Rightarrow> string" where
  "osArch goos goarch =
     goos @ ''-'' @ (if goarch = ''amd64'' then ''x86_64'' else if goarch = ''arm64'' then ''aarch64'' else [])"

text \<open>\<open>newVersion\<close> is \<open>semver.NewVersion\<close>: a version as it prints.\<close>

definition validateSetupArgs :: "(string \<Rightarrow> string result) \<Rightarrow> string list \<Rightarrow> unit result" where
  "validateSetupArgs newVersion args =
     (if length args \<noteq> 1 then Err (Errorf ''required argument 'logstash-version' not provided, try --help'' [])
      else (case newVersion (hd args) of
              Err e \<Rightarrow> Err (Wrap ''failed to parse version string %q, correct format x.y.z, e.g. 7.12.0'' e)
            | Panic \<Rightarrow> Panic
            | Ok _ \<Rightarrow> Ok ()))"

text \<open>\<open>semver.MustParse\<close> panics where \<open>NewVersion\<close> fails.\<close>

definition setup_of :: "config \<Rightarrow> (string \<Rightarrow> string result) \<Rightarrow> string list \<Rightarrow> setup_state result" where
  "setup_of v newVersion args =
     (case args of
        [] \<Rightarrow> Panic
      | version # _ \<Rightarrow>
          (case newVersion version of
             Ok parsed \<Rightarrow> Ok (New_setup parsed (v_String v ''target-dir'') (v_Bool v ''oss'') (v_String v ''os-arch'')
               (v_String v ''archive-type''))
           | _ \<Rightarrow> Panic))"

definition oss_part :: "setup_state \<Rightarrow> string" where
  "oss_part s = (if su_oss s then ''oss-'' else [])"

definition archive_name :: "setup_io \<Rightarrow> setup_state \<Rightarrow> string" where
  "archive_name io s =
     (if dl_before io (su_version s) ''7.10.0''
      then ''logstash-'' @ oss_part s @ su_version s @ ''.'' @ su_archiveType s
      else ''logstash-'' @ oss_part s @ su_version s @ ''-'' @ su_osArch s @ ''.'' @ su_archiveType s)"

definition target_dir :: "setup_state \<Rightarrow> string" where
  "target_dir s =
     path_join [su_targetDir s, ''logstash-'' @ oss_part s @ su_version s @ ''-'' @ su_osArch s]"

definition target_file :: "setup_io \<Rightarrow> setup_state \<Rightarrow> string" where
  "target_file io s = path_join [path_join [su_targetDir s, ''/downloads''], archive_name io s]"

definition archive_url :: "string \<Rightarrow> string" where
  "archive_url filename = ''https://artifacts.elastic.co/downloads/logstash/'' @ filename"

definition download :: "setup_io \<Rightarrow> string \<Rightarrow> string \<Rightarrow> file_map \<Rightarrow> unit result \<times> file_map" where
  "download io filename targetFile files =
     (case dl_Get io (archive_url filename) of
        Err e \<Rightarrow> (Err (Wrap ''failed to download Logstash release'' e), files)
      | Panic \<Rightarrow> (Panic, files)
      | Ok body \<Rightarrow>
          (case dl_OpenFile io of
             Some e \<Rightarrow> (Err (Wrap ''failed to open target file for downloaded Logstash archive'' e), files)
           | None \<Rightarrow>
               (case dl_Copy io of
                  Some (n, e) \<Rightarrow>
                    (Err (Wrap ''failed to write target file for downloaded Logstash archive'' e),
                     mput targetFile (take n body) files)
                | None \<Rightarrow> (Ok (), mput targetFile body files))))"

definition unarchive :: "setup_io \<Rightarrow> string \<Rightarrow> string \<Rightarrow> string \<Rightarrow> file_map \<Rightarrow> unit result \<times> file_map" where
  "unarchive io filename targetFile targetDir files =
     (if \<not> (has_suffix filename ''zip'' \<or> has_suffix filename ''tar.gz'')
      then (Err (Errorf ''file suffix not supported for unarchiving'' []), files)
      else (case dl_unarchive io (case mget files targetFile of Some b \<Rightarrow> b | None \<Rightarrow> []) of
              (created, err) \<Rightarrow>
                (map_err (Wrap ''failed to unarchive downloaded Logstash archive'') (check err ()),
                 if created then mput targetDir [] files else files)))"

definition Run_setup :: "setup_io \<Rightarrow> setup_state \<Rightarrow> file_map \<Rightarrow> unit result \<times> file_map" where
  "Run_setup io s files =
     (case dl_MkdirAll io of
        Some e \<Rightarrow> (Err (Wrap ''failed to create base directory for Logstash setup'' e), files)
      | None \<Rightarrow>
          (case (if mget files (target_file io s) = None
                 then download io (archive_name io s) (target_file io s) files else (Ok (), files)) of
             (Err e, files) \<Rightarrow> (Err (Wrap ''failed to download archive for Logstash version'' e), files)
           | (Panic, files) \<Rightarrow> (Panic, files)
           | (Ok _, files) \<Rightarrow>
               if mget files (target_dir s) = None
               then unarchive io (archive_name io s) (target_file io s) (target_dir s) files
               else (Ok (), files)))"

definition runSetup :: "config \<Rightarrow> (string \<Rightarrow> string result) \<Rightarrow> setup_io \<Rightarrow> string list \<Rightarrow> file_map
    \<Rightarrow> unit result \<times> file_map" where
  "runSetup v newVersion io args files =
     (case setup_of v newVersion args of Ok s \<Rightarrow> Run_setup io s files | Err e \<Rightarrow> (Err e, files) | Panic \<Rightarrow> (Panic, files))"

section \<open>The program\<close>

definition prefixedUserError :: "string \<Rightarrow> string \<Rightarrow> string" where
  "prefixedUserError arg0 message =
     path_base arg0 @ '': '' @ message @ (if has_suffix message [CHR 0x0A] then [] else [CHR 0x0A])"

text \<open>\<open>Execute\<close>: the exit code, from what reading the configuration and the command have returned.\<close>

datatype config_read = ConfigOk | ConfigNotFound | ConfigBroken gerror

definition Execute :: "config_read \<Rightarrow> unit result \<Rightarrow> nat result" where
  "Execute cfg r =
     (case cfg of
        ConfigBroken e \<Rightarrow> Ok 1
      | _ \<Rightarrow> (case r of Ok _ \<Rightarrow> Ok 0 | Err e \<Rightarrow> Ok 1 | Panic \<Rightarrow> Panic))"

text \<open>\<open>SetLevel\<close> of the logging package: an unknown level falls back to a warning's.\<close>

definition SetLevel :: "(string \<Rightarrow> 'l result) \<Rightarrow> 'l \<Rightarrow> string \<Rightarrow> 'l" where
  "SetLevel LogLevel warning loglevel = (case LogLevel loglevel of Ok level \<Rightarrow> level | _ \<Rightarrow> warning)"

section \<open>Facts\<close>

lemma validated_args:
  "validateStandaloneArgs notExist args = Ok () \<longleftrightarrow> 2 \<le> length args \<and> (\<forall>a \<in> set args. \<not> notExist a)"
proof (cases "find notExist args")
  case None
  then have "\<not> (\<exists>a \<in> set args. notExist a)" by (auto simp: find_None_iff)
  with None show ?thesis by (auto simp: validateStandaloneArgs_def)
next
  case (Some a)
  then have "\<exists>a \<in> set args. notExist a" by (metis find_Some_iff nth_mem)
  with Some show ?thesis by (auto simp: validateStandaloneArgs_def)
qed

lemma validate_no_panic: "validateStandaloneArgs notExist args \<noteq> Panic"
  by (simp add: validateStandaloneArgs_def split: option.splits)

text \<open>With its arguments validated the command always has test cases and at least one configuration.\<close>

lemma standalone_command_cases:
  obtains e where "standalone_command v io notExist args files = (None, Err e, files)"
    "validateStandaloneArgs notExist args = Err e"
  | testcases configs where "validateStandaloneArgs notExist args = Ok ()" "args = testcases # configs" "configs \<noteq> []"
    "standalone_command v io notExist args files = Run_standalone io (standalone_of v testcases configs) files"
proof (cases "validateStandaloneArgs notExist args")
  case (Ok u)
  then obtain a b rest where args: "args = a # b # rest"
    using validated_args [of notExist args] by (cases args; cases "tl args") auto
  have "standalone_command v io notExist args files = runStandalone v io args files"
    by (simp add: standalone_command_def Ok)
  then show ?thesis by (intro that(2) [of a "b # rest"]) (simp_all add: Ok [unfolded args] args runStandalone_def)
qed (simp_all add: standalone_command_def validate_no_panic that(1))

text \<open>The comment in \<open>runSetup\<close>: a version that has been validated is parsed again without a panic.\<close>

lemma setup_version_validated:
  assumes "validateSetupArgs newVersion args = Ok ()"
  shows "\<exists>s. setup_of v newVersion args = Ok s \<and> newVersion (hd args) = Ok (su_version s)"
  using assms by (cases args) (auto simp: validateSetupArgs_def setup_of_def split: result.splits if_splits)

lemma Execute_zero: "Execute cfg r = Ok 0 \<longleftrightarrow> (\<forall>e. cfg \<noteq> ConfigBroken e) \<and> r = Ok ()"
  by (auto simp: Execute_def split: config_read.splits result.splits)

section \<open>The standalone command, from its arguments to its end\<close>

lemma standalone_command_correct:
  assumes "standalone_command v io notExist args files = (obs, r, files')"
    and "iv_MkdirTemp (ao_inv io) = Ok tempDir"
  shows "(Execute cfg r = Ok 0 \<longrightarrow> 2 \<le> length args \<and> (\<forall>a \<in> set args. \<not> notExist a) \<and>
      (\<exists>rs. all_passed io (standalone_of v (hd args) (tl args)) rs \<and> (\<forall>x \<in> set rs. r_Status x) \<and>
        obs = (if v_Bool v ''quiet'' then None else Some (observed (ao_late io) rs True)))) \<and>
    (r \<noteq> Panic \<and> \<not> has_exited r \<longrightarrow> (\<forall>p. under tempDir p \<and> mget files p = None \<longrightarrow> mget files' p = None)) \<and>
    (has_exited r \<and> (\<forall>e \<in> system_errors (ao_sockets io). \<not> is_fatal e) \<longrightarrow>
      v_Bool v ''sockets'' \<and>
      (\<exists>tests. DiscoverTests (ao_tc_files io) (ao_tc_env io) (hd args) = Ok tests \<and>
        (\<exists>i < length tests. si_Listen (so_stream (ao_sockets io) i) \<noteq> None)))"
proof (cases rule: standalone_command_cases [of v io notExist args files])
  case (1 e)
  then have "\<not> is_fatal e" by (auto simp: validateStandaloneArgs_def split: if_splits option.splits)
  with 1 assms(1) show ?thesis by (auto simp: Execute_zero)
next
  case (2 testcases configs)
  let ?s = "standalone_of v testcases configs"
  have sel: "al_quiet ?s = v_Bool v ''quiet''" "al_configPaths ?s \<noteq> []" "al_unixSockets ?s = v_Bool v ''sockets''"
    "al_testcasePath ?s = testcases" using 2(3) by (simp_all add: standalone_of_def)
  have run: "Run_standalone io ?s files = (obs, r, files')" using 2(4) assms(1) by simp
  have args: "hd args = testcases" "tl args = configs" using 2(2) by simp_all
  have success: "\<exists>rs. all_passed io ?s rs \<and> (\<forall>x \<in> set rs. r_Status x) \<and>
      obs = (if v_Bool v ''quiet'' then None else Some (observed (ao_late io) rs True))" if "r = Ok ()"
    using standalone_success [OF run [unfolded that]] unfolding sel(1) .
  from 2(1) show ?thesis unfolding args Execute_zero validated_args
    using success standalone_leaves_nothing [OF run _ assms(2) sel(2)] standalone_exits [OF run, unfolded sel(3,4)]
    by blast
qed

lemma sample_standalone_command:
  assumes "standalone_of v ''/c.json'' [''/b/x''] = sample_standalone"
  obtains f where "standalone_command v sample_alone_io (\<lambda>p. False) [''/c.json'', ''/b/x''] [] = (None, Ok (), f)"
proof -
  obtain rs f where alone: "run_alone sample_alone_io sample_standalone [] = (rs, Ok True, f)"
    using sample_run by blast
  have "standalone_command v sample_alone_io (\<lambda>p. False) [''/c.json'', ''/b/x''] [] = (None, Ok (), f)"
    using assms by (simp add: standalone_command_def validateStandaloneArgs_def runStandalone_def Run_standalone_def alone)
      (simp add: sample_standalone_def)
  then show thesis by (rule that)
qed

text \<open>
  A download that breaks off: the bytes written so far stay in the downloads directory, and since the next run
  only looks whether the file exists, it does not download again, whatever the server would
  answer, but unarchives the truncated file.
\<close>

lemma setup_truncated:
  assumes "mget files (target_file io s) = None" and "dl_MkdirAll io = None" and "dl_OpenFile io = None"
    and "dl_Get io (archive_url (archive_name io s)) = Ok body"
    and "dl_Copy io = Some (n, e)"
  shows "\<exists>err files'. Run_setup io s files = (Err err, files') \<and> mget files' (target_file io s) = Some (take n body) \<and>
    (\<forall>get copy. Run_setup (io\<lparr>dl_Get := get, dl_Copy := copy\<rparr>) s files'
      = (if mget files' (target_dir s) = None
         then unarchive io (archive_name io s) (target_file io s) (target_dir s) files' else (Ok (), files')))"
proof -
  have "target_file (io\<lparr>dl_Get := get, dl_Copy := copy\<rparr>) s = target_file io s"
    "archive_name (io\<lparr>dl_Get := get, dl_Copy := copy\<rparr>) s = archive_name io s"
    "unarchive (io\<lparr>dl_Get := get, dl_Copy := copy\<rparr>) = unarchive io" for get copy
    by (simp_all add: target_file_def archive_name_def unarchive_def fun_eq_iff)
  then show ?thesis using assms by (auto simp: Run_setup_def download_def map_simps)
qed

end
