(* ===== verification/Answers.thy ===== *)
theory Answers
  imports Run
begin

text \<open>
  The way back from a run that has passed to what the daemon has answered in it, for every client of
  \<open>run.go\<close> whose calls of \<open>ExecuteTest\<close> return what the Logstash controller has collected.
\<close>

section \<open>The tests of a run\<close>

text \<open>
  Call \<open>k\<close> of the daemon has answered test case set \<open>t\<close> with results that, processed and decoded, are
  events whose comparison has passed.
\<close>

definition answered :: "(nat \<Rightarrow> handler_env) \<Rightarrow> string run_env \<Rightarrow> test_run \<Rightarrow> nat \<Rightarrow> comparison_result list \<Rightarrow> test_case_set \<Rightarrow> bool" where
  "answered h env s k rs t \<longleftrightarrow> (\<exists>docs evs.
     postProcessResults (rn_json env) (rn_sort env) s t (fst (h_results (h k))) = Ok docs \<and>
     rmap (j_Unmarshal (rn_json env)) docs = Ok evs \<and> passed (rn_cmp env) [''diff'', ''-u''] rs t evs)"

lemma answered_mono: "answered h env s k rs t \<Longrightarrow> set rs \<subseteq> set rs' \<Longrightarrow> answered h env s k rs' t"
  unfolding answered_def using passed_mono by blast

text \<open>The processing looks at two flags only.\<close>

lemma answered_cong:
  assumes "tr_debug s' = tr_debug s" and "tr_metadataKey s' = tr_metadataKey s"
  shows "answered h env s' k rs t = answered h env s k rs t"
proof -
  have "post_process jl s' t r = post_process jl s t r" for jl :: "string json_lib" and r
    unfolding post_process_def assms ..
  then show ?thesis by (simp add: answered_def postProcessResults_def cong: rmap_cong)
qed

text \<open>
  The contract of the calls: the result of call \<open>k\<close> that executes a test is what the controller's
  \<open>GetResults\<close> has collected in it.
\<close>

locale answering_client =
  fixes cl :: "(string, 'd \<times> nat) client" and h :: "nat \<Rightarrow> handler_env"
  assumes execute_results: "cl_ExecuteTest cl sid inp ls b n (d, k) = (Ok results, d', k') \<Longrightarrow>
    results = fst (h_results (h k)) \<and> k' = Suc k"
begin

lemma run_test_answered:
  assumes "run_test cl env s sid t (d, k) = (rs, Ok True, d', k')"
  shows "answered h env s k rs t \<and> k' = Suc k"
proof -
  from assms obtain b results evs where
    call: "cl_ExecuteTest cl sid (t_InputPlugin t) (t_InputLines t) b
        (int32 (length (t_ExpectedEvents t))) (d, k) = (Ok results, d', k')"
    and post: "rbind (postProcessResults (rn_json env) (rn_sort env) s t results) (rmap (j_Unmarshal (rn_json env))) = Ok evs"
    and cmp: "Compare (rn_cmp env) t evs [''diff'', ''-u''] = (rs, Ok True)"
    unfolding run_test_def by (auto split: result.splits prod.splits)
  from execute_results [OF call] post cmp show ?thesis by (auto simp: answered_def passed_def)
qed

lemma run_tests_answered:
  "run_tests cl env s sid ts b (d, k) = (rs, Ok True, w') \<Longrightarrow>
   \<forall>i < length ts. answered h env s (k + i) rs (ts ! i)"
proof (induction ts arbitrary: b d k rs)
  case (Cons t ts)
  from Cons.prems show ?case
  proof (cases rule: run_tests_cons)
    case (next_test ok1 rs1 rs2 w1)
    obtain d1 k1 where w1: "w1 = (d1, k1)" by fastforce
    from run_tests_verdict [OF next_test(2)] have "ok1" by simp
    with next_test(1) w1 have one: "answered h env s k rs1 t" "k1 = Suc k" by (auto dest: run_test_answered)
    have "answered h env s (k + i) rs ((t # ts) ! i)" if "i < length (t # ts)" for i
    proof (cases i)
      case 0
      with one(1) next_test(3) show ?thesis by (auto intro: answered_mono)
    next
      case (Suc j)
      with that Cons.IH [OF next_test(2) [unfolded w1]] one(2) have "answered h env s (k + i) rs2 ((t # ts) ! i)" by simp
      then show ?thesis by (rule answered_mono) (simp add: next_test(3))
    qed
    then show ?thesis by blast
  qed simp
qed simp

end

lemma ExecuteTest_call_Ok: "ExecuteTest_call h se sid inp ls evs n d = (Ok results, d') \<Longrightarrow> results = fst (h_results h)"
  by (auto simp: ExecuteTest_call_def split: result.splits prod.splits)

lemma daemon_client_results:
  "cl_ExecuteTest (daemon_client h se su) sid inp ls b n (d, k) = (Ok results, d', k') \<Longrightarrow>
   results = fst (h_results (h k)) \<and> k' = Suc k"
  by (auto simp: daemon_client_def split: prod.splits dest: ExecuteTest_call_Ok)

interpretation daemon_answers: answering_client "daemon_client h se su" h
  by unfold_locales (rule daemon_client_results)

section \<open>A small example\<close>

definition quiet_handler :: handler_env where
  "quiet_handler = sample_handler\<lparr>h_unjson := (\<lambda>s. Ok []), h_results := ([], None)\<rparr>"

text \<open>In this environment a live session executes every test and is torn down.\<close>

lemma calm_execute:
  assumes "mget (sc_sessions (d_sessions d)) sid = Some s"
  shows "\<exists>d'. ExecuteTest_call quiet_handler calm_session_env sid inp ls evs n d = (Ok [], d')"
proof -
  obtain ps files' s' where "ExecuteTest calm_session_env inp ls [] n (s, sc_files (d_sessions d)) = (Ok (ps, files'), s')"
    by (simp add: ExecuteTest_def prepareFields_def createInput_def ToFile_def expand_input Let_def)
  with assms show ?thesis
    by (simp add: ExecuteTest_call_def GetSession_known quiet_handler_def sample_handler_def run_session_def Let_def)
qed

lemma calm_teardown:
  assumes "mget (sc_sessions (d_sessions d)) sid = Some s" and "0 < sc_wg (d_sessions d)"
  shows "\<exists>d'. TeardownTest quiet_handler sid d = (Ok (), d')"
  using destroy_session_known(1) [OF assms, of quiet_handler]
  by (auto simp: TeardownTest_def quiet_handler_def sample_handler_def teardown_def check_def split: prod.split)

lemma calm_compare: "t_ExpectedEvents t = [] \<Longrightarrow> \<exists>rs. Compare sample_cmp t [] diff = (rs, Ok True) \<and> rs \<noteq> []"
  by (simp add: Compare_def)

end
