(* ===== verification/Daemon_System.thy ===== *)
theory Daemon_System
  imports Daemon
begin

text \<open>
  The daemon under the calls of many clients: \<open>daemon_step\<close> is any call of \<open>daemon.go\<close>, with any environment,
  its shutdown handler, or a round of the pool's housekeeping. Each call refines steps of the
  session controller, so that what holds of those holds of the daemon; the sessions are well formed
  in every state, and a call leaves every session alone that it does not name.
\<close>

section \<open>The steps of the daemon\<close>

text \<open>The label of a step is the session id that the call names, if it names one.\<close>

inductive daemon_step :: "('cfg, 'pl, 'at) ast_lib \<Rightarrow> (nat \<Rightarrow> string) \<Rightarrow> string option \<Rightarrow> daemon \<Rightarrow> daemon \<Rightarrow> bool"
  for al :: "('cfg, 'pl, 'at) ast_lib" and gen :: "nat \<Rightarrow> string" where
  set_up: "SetupTest h woken pe se al gen b d = (r, d') \<Longrightarrow> daemon_step al gen None d d'"
| execute: "ExecuteTest_call h se sid inp ls evs n d = (q, d') \<Longrightarrow> daemon_step al gen (Some sid) d d'"
| tear_down: "TeardownTest h sid d = (u, d') \<Longrightarrow> daemon_step al gen (Some sid) d d'"
| shutdown: "Shutdown_call d = (u, d') \<Longrightarrow> daemon_step al gen None d d'"
| signal: "shutdownSignalHandler cause inflight es d = (as, exit, d') \<Longrightarrow> daemon_step al gen None d d'"
| upkeep: "housekeeping pe (sc_pool (d_sessions d)) = Ok p \<Longrightarrow>
    daemon_step al gen None d (d\<lparr>d_sessions := (d_sessions d)\<lparr>sc_pool := p\<rparr>\<rparr>)"

inductive_cases daemon_stepE: "daemon_step al gen l d d'"

inductive daemon_run :: "('cfg, 'pl, 'at) ast_lib \<Rightarrow> (nat \<Rightarrow> string) \<Rightarrow> string option list \<Rightarrow> daemon \<Rightarrow> daemon \<Rightarrow> bool"
  for al :: "('cfg, 'pl, 'at) ast_lib" and gen :: "nat \<Rightarrow> string" where
  idle: "daemon_run al gen [] d d"
| call: "daemon_run al gen ls d d1 \<Longrightarrow> daemon_step al gen l d1 d2 \<Longrightarrow> daemon_run al gen (ls @ [l]) d d2"

section \<open>Refinement of the session controller\<close>

lemma sctl_reach_trans: "sctl_reach al gen c d \<Longrightarrow> sctl_reach al gen b c \<Longrightarrow> sctl_reach al gen b d"
  by (induction rule: sctl_reach.induct) (auto intro: sctl_reach.step)

lemma sctl_reach_one: "sctl_step al gen c d \<Longrightarrow> sctl_reach al gen c d"
  by (rule sctl_reach.step [OF sctl_reach.refl])

lemma destroy_session_reach:
  "sctl_reach al gen c (d_sessions d) \<Longrightarrow> sctl_reach al gen c (d_sessions (snd (destroy_session h sid d)))"
  by (auto simp: destroy_session_def split_beta intro: sctl_reach.step sctl_step.destroy [OF prod.collapse [symmetric]])

lemma Create_reach: "Create woken pe se al gen ps fs c = (r, c') \<Longrightarrow> sctl_reach al gen c c'"
  by (rule sctl_reach_one [OF sctl_step.create])

lemma SetupTest_reach:
  "SetupTest h woken pe se al gen b d = (r, d') \<Longrightarrow> sctl_reach al gen (d_sessions d) (d_sessions d')"
  by (auto simp: SetupTest_def split: if_splits result.splits prod.splits create_outcome.splits
      intro: sctl_reach.refl Create_reach)

lemma ExecuteTest_call_reach:
  assumes "ExecuteTest_call h se sid inp ls evs n d = (r, d')"
  shows "sctl_reach al gen (d_sessions d) (d_sessions d')"
proof (cases "\<exists>s es. GetSession sid (d_sessions d) = Ok s \<and> h_unjson h evs = Ok es")
  case True
  then obtain s es where s: "GetSession sid (d_sessions d) = Ok s" "h_unjson h evs = Ok es" by blast
  obtain q c where run: "run_session se inp ls es n sid (d_sessions d) = (q, c)" by fastforce
  then have "sctl_reach al gen (d_sessions d) c" by (rule sctl_reach_one [OF sctl_step.execute])
  then have "sctl_reach al gen (d_sessions d) (d_sessions (d\<lparr>d_sessions := c\<rparr>))" by simp
  from destroy_session_reach [OF this] this show ?thesis
    using assms s run by (auto simp: ExecuteTest_call_def split: result.splits)
next
  case False
  then show ?thesis using assms destroy_session_reach [OF sctl_reach.refl, of al gen d h sid]
    by (auto simp: ExecuteTest_call_def split: result.splits intro: sctl_reach.refl)
qed

lemma daemon_step_reach:
  assumes "daemon_step al gen l d d'"
  shows "sctl_reach al gen (d_sessions d) (d_sessions d')"
  using assms
proof (cases rule: daemon_step.cases)
  case (tear_down h sid u)
  then have "d' = snd (destroy_session h sid d)"
    by (auto simp: TeardownTest_def split: prod.splits result.splits)
  then show ?thesis by (simp add: destroy_session_reach sctl_reach.refl)
next
  case shutdown
  then show ?thesis by (auto simp: Shutdown_call_def split: if_splits intro: sctl_reach.refl)
next
  case signal
  then have "d_sessions d' = WaitFinish (d_sessions d)"
    by (auto simp: shutdownSignalHandler_def Let_def split: if_splits prod.splits option.splits)
  then show ?thesis using sctl_reach_one [OF sctl_step.finish] by simp
next
  case upkeep
  then show ?thesis using sctl_reach_one [OF sctl_step.housekeeping] by simp
qed (auto intro: SetupTest_reach ExecuteTest_call_reach)

lemma daemon_run_reach: "daemon_run al gen ls d d' \<Longrightarrow> sctl_reach al gen (d_sessions d) (d_sessions d')"
  by (induction rule: daemon_run.induct) (auto intro: sctl_reach.refl sctl_reach_trans daemon_step_reach)

section \<open>Well-formed sessions\<close>

text \<open>
  The pipelines of a session: those under test, renamed and moved into the session's directory, and its
  output pipelines; each runs with one worker, in order where Logstash can.
\<close>

definition own_pipeline :: "session \<Rightarrow> pipeline \<Rightarrow> bool" where
  "own_pipeline s p \<longleftrightarrow> p_Workers p = 1 \<and> (s_ordered s \<longrightarrow> p_Ordered p = ''true'') \<and>
     ((\<exists>q c. p_ID p = ''lfv_'' @ s_id s @ ''_'' @ q \<and> p_Config p = path_join [sutConfigDir s, c]) \<or>
      (\<exists>out. p_ID p = ''lfv_output_'' @ out \<and> p_Config p = output_file s out))"

definition session_wf :: "string \<Rightarrow> bool \<Rightarrow> bool \<Rightarrow> string \<Rightarrow> session \<Rightarrow> bool" where
  "session_wf tempdir noCleanup ordered sid s \<longleftrightarrow>
     s_id s = sid \<and> s_baseDir s = tempdir \<and> s_sessionDir s = tempdir @ ''/session/'' @ sid \<and>
     s_noCleanup s = noCleanup \<and> s_ordered s = ordered \<and> (\<forall>p \<in> set (s_pipelines s). own_pipeline s p)"

definition sctl_wf :: "string \<Rightarrow> bool \<Rightarrow> bool \<Rightarrow> sctl \<Rightarrow> bool" where
  "sctl_wf tempdir noCleanup ordered c \<longleftrightarrow>
     sc_tempdir c = tempdir \<and> sc_noCleanup c = noCleanup \<and> sc_ordered c = ordered \<and>
     (\<forall>(sid, s) \<in> set (sc_sessions c). session_wf tempdir noCleanup ordered sid s)"

lemma own_adjusted: "own_pipeline s (adjust_pipeline s p)"
  by (auto simp: own_pipeline_def) (auto simp: adjust_pipeline_def set_ordered_def)

lemma own_output: "own_pipeline s (output_pipeline s out)"
  by (simp add: own_pipeline_def output_pipeline_def set_ordered_def mk_pipeline_def output_file_def)

lemma own_cong:
  "s_id t = s_id s \<Longrightarrow> s_ordered t = s_ordered s \<Longrightarrow> s_sessionDir t = s_sessionDir s \<Longrightarrow> own_pipeline t = own_pipeline s"
  by (simp add: own_pipeline_def sutConfigDir_def output_file_def lfvOutputsDir_def fun_eq_iff)

lemma setup_file_own:
  assumes "setup_file env al gen f (ps, s, files, n) = Ok (ps', s', files', n')" and "\<forall>p \<in> set ps. own_pipeline s p"
  shows "(\<forall>p \<in> set ps'. own_pipeline s' p) \<and> (\<exists>codecs. s' = s\<lparr>s_inputPluginCodecs := codecs\<rparr>)"
proof -
  from assms(1) obtain codecs outs ops fs where s': "s' = s\<lparr>s_inputPluginCodecs := codecs\<rparr>"
    and "createOutputPipelines env s' outs fs = Ok (ops, files')" and ps': "ps' = ps @ ops"
    by (auto simp: setup_file_def Let_def split_beta)
  then have "ops = map (output_pipeline s') outs" using createOutputPipelines_Ok(1) by blast
  moreover have "own_pipeline s' = own_pipeline s" by (rule own_cong) (simp_all add: s')
  moreover have "\<forall>p \<in> set ps. own_pipeline s' p" using assms(2) calculation(2) by simp
  ultimately have "\<forall>p \<in> set ps'. own_pipeline s' p" unfolding ps' using own_output [of s'] by auto
  with s' show ?thesis by blast
qed

lemma setupTest_own:
  assumes "setupTest env al gen ps fs (s, files, n) = Ok (s', files', n', calls)"
  shows "(\<forall>p \<in> set (s_pipelines s'). own_pipeline s' p) \<and>
    s_id s' = s_id s \<and> s_baseDir s' = s_baseDir s \<and> s_sessionDir s' = s_sessionDir s \<and>
    s_noCleanup s' = s_noCleanup s \<and> s_ordered s' = s_ordered s"
proof -
  obtain qs t where e: "each (setup_file env al gen) fs (map (adjust_pipeline s) ps, s, files, n)
      = Ok (qs, t, files', n')" and s': "s' = t\<lparr>s_pipelines := qs\<rparr>"
    using assms by (auto simp: setupTest_def Let_def)
  let ?P = "\<lambda>(qs, t, files', k). (\<forall>p \<in> set qs. own_pipeline t p) \<and> (\<exists>codecs. t = s\<lparr>s_inputPluginCodecs := codecs\<rparr>)"
  have "?P (qs, t, files', n')"
  proof (rule each_inv [OF e])
    show "?P (map (adjust_pipeline s) ps, s, files, n)" by (auto simp: own_adjusted intro: exI [of _ "s_inputPluginCodecs s"])
  qed (auto dest!: setup_file_own)
  moreover have "own_pipeline s' = own_pipeline t" by (rule own_cong) (simp_all add: s')
  ultimately show ?thesis by (auto simp: s')
qed

lemma ExecuteTest_own:
  "ExecuteTest env plugin ls es n (s, files) = (r, s') \<Longrightarrow> s' = s\<lparr>s_testexec := Suc (s_testexec s)\<rparr>"
  by (auto simp: ExecuteTest_def Let_def)

lemma wf_put:
  assumes "sctl_wf tempdir noCleanup ordered c" and "session_wf tempdir noCleanup ordered sid s"
    and "sc_sessions c' = mput sid s (sc_sessions c)" and "sc_tempdir c' = sc_tempdir c"
    and "sc_noCleanup c' = sc_noCleanup c" and "sc_ordered c' = sc_ordered c"
  shows "sctl_wf tempdir noCleanup ordered c'"
proof -
  have "set (mput sid s m) \<subseteq> insert (sid, s) (set m)" for m :: "(string, session) gmap"
    by (induction m) (auto simp: mput_def)
  with assms(3) have "set (sc_sessions c') \<subseteq> insert (sid, s) (set (sc_sessions c))" by simp
  with assms(1,2,4-6) show ?thesis unfolding sctl_wf_def by auto
qed

lemma wf_new: "session_wf tempdir noCleanup ordered sid (newSession tempdir h noCleanup ordered sid)"
  by (simp add: session_wf_def newSession_def)

lemma Create_wf:
  assumes "Create woken pe se al gen ps fs c = (r, c')" and wf: "sctl_wf tempdir noCleanup ordered c"
  shows "sctl_wf tempdir noCleanup ordered c'"
proof (cases "(woken \<and> sc_finished c) \<or> 1 < length (sc_sessions c) \<or> \<not> is_ok (fst (Get pe (sc_pool c)))")
  case True
  then show ?thesis using assms by (auto simp: Create_def sctl_wf_def split: if_splits prod.splits result.splits)
next
  case False
  then obtain h p where g: "Get pe (sc_pool c) = (Ok h, p)" unfolding is_ok_iff by (metis prod.collapse)
  have F: "\<not> (woken \<and> sc_finished c)" "\<not> 1 < length (sc_sessions c)" using False by blast+
  let ?sid = "gen (sc_ids c)"
  let ?s = "newSession (sc_tempdir c) h (sc_noCleanup c) (sc_ordered c) ?sid"
  let ?c = "c\<lparr>sc_pool := p, sc_ids := Suc (sc_ids c), sc_sessions := mput ?sid ?s (sc_sessions c),
    sc_wg := Suc (sc_wg c)\<rparr>"
  have attrs: "sc_tempdir c = tempdir" "sc_noCleanup c = noCleanup" "sc_ordered c = ordered"
    using wf by (simp_all add: sctl_wf_def)
  have "sctl_wf tempdir noCleanup ordered ?c"
    by (rule wf_put [OF wf wf_new [of tempdir noCleanup ordered ?sid h]]) (simp_all add: attrs)
  moreover have "sctl_wf tempdir noCleanup ordered
      (?c\<lparr>sc_sessions := mput ?sid s (sc_sessions ?c), sc_files := files, sc_ids := n\<rparr>)"
    if "setupTest se al gen ps fs (?s, sc_files ?c, sc_ids ?c) = Ok (s, files, n, calls)" for s files n calls
  proof (rule wf_put [OF calculation])
    show "session_wf tempdir noCleanup ordered ?sid s"
      using setupTest_own [OF that] by (auto simp: session_wf_def newSession_def attrs)
  qed simp_all
  ultimately show ?thesis using assms(1) F
    by (auto simp: Create_def g Let_def split: result.splits prod.splits)
qed

lemma DestroyByID_wf:
  assumes "DestroyByID tdErr rmErr sid c = (r, c')" and "sctl_wf tempdir noCleanup ordered c"
  shows "sctl_wf tempdir noCleanup ordered c'"
proof -
  have sub: "set (mdel sid m) \<subseteq> set m" for m :: "(string, session) gmap" by (auto simp: mdel_def)
  have "set (sc_sessions c') \<subseteq> set (sc_sessions c)" "sc_tempdir c' = sc_tempdir c" "sc_noCleanup c' = sc_noCleanup c"
    "sc_ordered c' = sc_ordered c"
    using assms(1) sub [THEN subsetD] by (auto simp: DestroyByID_def Let_def split: option.splits if_splits)
  with assms(2) show ?thesis unfolding sctl_wf_def by auto
qed

lemma run_session_wf:
  assumes "run_session se plugin ls es n sid c = (r, c')" and wf: "sctl_wf tempdir noCleanup ordered c"
  shows "sctl_wf tempdir noCleanup ordered c'"
proof (cases "mget (sc_sessions c) sid")
  case None
  with assms show ?thesis by (simp add: run_session_def)
next
  case (Some s)
  obtain x s' where e: "ExecuteTest se plugin ls es n (s, sc_files c) = (x, s')" by fastforce
  from Some have "(sid, s) \<in> set (sc_sessions c)" by (simp add: mget_def map_of_SomeD)
  with wf have "session_wf tempdir noCleanup ordered sid s" by (auto simp: sctl_wf_def)
  moreover have "own_pipeline s' = own_pipeline s" by (rule own_cong) (simp_all add: ExecuteTest_own [OF e])
  ultimately have "session_wf tempdir noCleanup ordered sid s'"
    by (simp add: session_wf_def ExecuteTest_own [OF e])
  then show ?thesis
    by (rule wf_put [OF wf]) (use assms(1) Some e in \<open>auto simp: run_session_def Let_def split: result.splits\<close>)
qed

lemma sctl_step_wf:
  assumes "sctl_step al gen c c'" and "sctl_wf tempdir noCleanup ordered c"
  shows "sctl_wf tempdir noCleanup ordered c'"
  using assms(1)
proof (cases rule: sctl_step.cases)
  case finish
  with assms(2) show ?thesis by (simp add: sctl_wf_def WaitFinish_def)
next
  case housekeeping
  with assms(2) show ?thesis by (simp add: sctl_wf_def)
next
  case create
  with assms(2) show ?thesis by (blast intro: Create_wf)
next
  case destroy
  with assms(2) show ?thesis by (blast intro: DestroyByID_wf)
next
  case execute
  with assms(2) show ?thesis by (blast intro: run_session_wf)
qed

lemma sctl_reach_wf:
  "sctl_reach al gen c c' \<Longrightarrow> sctl_wf tempdir noCleanup ordered c \<Longrightarrow> sctl_wf tempdir noCleanup ordered c'"
  by (induction rule: sctl_reach.induct) (auto intro: sctl_step_wf)

section \<open>Calls that do not name a session\<close>

lemma Create_others:
  assumes "Create woken pe se al gen ps fs c = (r, c')" and "mget (sc_sessions c) sid = Some s"
    and "sctl_inv gen c" and "inj gen"
  shows "mget (sc_sessions c') sid = Some s"
  using assms(1)
proof (cases rule: Create_cases)
  case (got h p t k)
  have "sid \<in> gen ` {..<sc_ids c}" using assms(2,3) unfolding sctl_inv_def by (metis mkeys_iff option.distinct(1) subsetD)
  then have "sid \<noteq> gen (sc_ids c)" using assms(4) by (auto dest: injD)
  with assms(2) got(6) show ?thesis by (simp add: map_simps)
qed (use assms(2) in simp_all)

lemma destroy_others:
  assumes "sid' \<noteq> sid"
  shows "mget (sc_sessions (d_sessions (snd (destroy_session h sid' d)))) sid = mget (sc_sessions (d_sessions d)) sid"
  using assms by (auto simp: destroy_session_def DestroyByID_def Let_def map_simps split: option.splits prod.splits)

lemma run_session_others:
  "run_session se plugin ls es n sid' c = (r, c') \<Longrightarrow> sid' \<noteq> sid \<Longrightarrow> mget (sc_sessions c') sid = mget (sc_sessions c) sid"
  by (auto simp: run_session_def Let_def map_simps split: option.splits prod.splits result.splits)

lemma ExecuteTest_call_others:
  assumes "ExecuteTest_call h se sid' inp ls evs n d = (r, d')" and "sid' \<noteq> sid"
  shows "mget (sc_sessions (d_sessions d')) sid = mget (sc_sessions (d_sessions d)) sid"
  using assms run_session_others [of se inp ls _ n sid' "d_sessions d" _ _ sid]
  by (auto simp: ExecuteTest_call_def destroy_others split: result.splits prod.splits)

lemma daemon_step_others:
  assumes "daemon_step al gen l d d'" and "l \<noteq> Some sid" and "mget (sc_sessions (d_sessions d)) sid = Some s"
    and "sctl_inv gen (d_sessions d)" and "inj gen"
  shows "mget (sc_sessions (d_sessions d')) sid = Some s"
  using assms(1)
proof (cases rule: daemon_step.cases)
  case set_up
  then show ?thesis using assms(3-5)
    by (auto simp: SetupTest_def split: if_splits result.splits prod.splits create_outcome.splits intro: Create_others)
next
  case (execute h se sid' inp ls evs n q)
  then show ?thesis using ExecuteTest_call_others [of h se sid' inp ls evs n d q d' sid] assms(2,3) by simp
next
  case (tear_down h sid' u)
  then have "d' = snd (destroy_session h sid' d)" by (auto simp: TeardownTest_def split: prod.splits result.splits)
  then show ?thesis using destroy_others [of sid' sid] tear_down assms(2,3) by simp
next
  case shutdown
  then show ?thesis using assms(3) by (auto simp: Shutdown_call_def split: if_splits)
next
  case signal
  then show ?thesis using assms(3)
    by (auto simp: shutdownSignalHandler_def Let_def WaitFinish_def split: if_splits prod.splits option.splits)
next
  case upkeep
  then show ?thesis using assms(3) by simp
qed

lemma daemon_run_inv:
  "daemon_run al gen ls d d' \<Longrightarrow> sctl_inv gen (d_sessions d) \<Longrightarrow> inj gen \<Longrightarrow> sctl_inv gen (d_sessions d')"
  using daemon_run_reach sctl_reach_inv by blast

lemma daemon_run_others:
  "daemon_run al gen ls d d' \<Longrightarrow> Some sid \<notin> set ls \<Longrightarrow> mget (sc_sessions (d_sessions d)) sid = Some s \<Longrightarrow>
   sctl_inv gen (d_sessions d) \<Longrightarrow> inj gen \<Longrightarrow> mget (sc_sessions (d_sessions d')) sid = Some s"
proof (induction rule: daemon_run.induct)
  case (call ls d d1 l d2)
  then have "mget (sc_sessions (d_sessions d1)) sid = Some s" "l \<noteq> Some sid" by auto
  with daemon_step_others [OF call.hyps(2)] daemon_run_inv [OF call.hyps(1)] call.prems show ?case by blast
qed simp

lemma Run_daemon_Ok:
  assumes "Run_daemon io d = (Ok (), d')"
  obtains tempdir v where "ru_MkdirTemp io = Ok tempdir"
    "DetectVersion (ru_run io) (ru_NewVersion io) (ru_environ io) (d_logstashPath d)
       (GetLimitedEnvironment (ru_environ io) (d_keptEnvVars d)) = Ok v"
    "d_sessions d' = new_sctl tempdir \<lparr>p_max = 2, p_available = [Some 0], p_assigned = [], p_made = 1, p_killed = []\<rparr>
       (d_noCleanup d) (ru_at_least io v ''v7.7.0'')"
  using assms by (auto simp: Run_daemon_def Let_def new_pool_def check_def split: result.splits option.splits)

section \<open>Properties\<close>

text \<open>
  C8: the type of the daemon's state. From a successful start on, after any calls of any clients, with any
  outcomes, in any order, shutdowns and housekeeping included: each session in the map is stored under
  its own id, lives in a directory of its own below the daemon's temporary directory, has the
  daemon's settings, among them the ordering exactly for a Logstash that knows it, and all its
  pipelines are its own, each with one worker and in order where Logstash can.
\<close>

theorem daemon_sessions_typed:
  assumes "Run_daemon io d0 = (Ok (), d)" and "daemon_run al gen ls d d'"
  shows "\<exists>tempdir v. ru_MkdirTemp io = Ok tempdir \<and>
    DetectVersion (ru_run io) (ru_NewVersion io) (ru_environ io) (d_logstashPath d0)
      (GetLimitedEnvironment (ru_environ io) (d_keptEnvVars d0)) = Ok v \<and>
    (\<forall>(sid, s) \<in> set (sc_sessions (d_sessions d')).
      session_wf tempdir (d_noCleanup d0) (ru_at_least io v ''v7.7.0'') sid s)"
proof -
  obtain tempdir v where v: "ru_MkdirTemp io = Ok tempdir"
    "DetectVersion (ru_run io) (ru_NewVersion io) (ru_environ io) (d_logstashPath d0)
       (GetLimitedEnvironment (ru_environ io) (d_keptEnvVars d0)) = Ok v"
    and d: "d_sessions d = new_sctl tempdir \<lparr>p_max = 2, p_available = [Some 0], p_assigned = [], p_made = 1, p_killed = []\<rparr>
      (d_noCleanup d0) (ru_at_least io v ''v7.7.0'')"
    using assms(1) by (rule Run_daemon_Ok)
  have "sctl_wf tempdir (d_noCleanup d0) (ru_at_least io v ''v7.7.0'') (d_sessions d)"
    by (simp add: d sctl_wf_def new_sctl_def)
  then have "sctl_wf tempdir (d_noCleanup d0) (ru_at_least io v ''v7.7.0'') (d_sessions d')"
    by (rule sctl_reach_wf [OF daemon_run_reach [OF assms(2)]])
  with v show ?thesis by (auto simp: sctl_wf_def)
qed

text \<open>
  C6: the calls of many clients. Any sequence of calls is, on the session controller, a sequence of its
  steps, whatever the calls return; and a session that none of them names is untouched by them: it
  is found with the very state it had.
\<close>

theorem calls_isolated:
  assumes "daemon_run al gen ls d d'"
  shows "sctl_reach al gen (d_sessions d) (d_sessions d') \<and>
    (inj gen \<and> sctl_inv gen (d_sessions d) \<and> Some sid \<notin> set ls \<and> GetSession sid (d_sessions d) = Ok s \<longrightarrow>
      sctl_inv gen (d_sessions d') \<and> GetSession sid (d_sessions d') = Ok s)"
  using daemon_run_reach [OF assms] daemon_run_others [OF assms] daemon_run_inv [OF assms]
  by (auto simp: GetSession_def split: option.splits)

text \<open>An example: a start, the set-up of a session, and the call of another client.\<close>

definition sample_start :: "string run_io" where
  "sample_start = \<lparr>ru_MkdirTemp = Ok ''/tmp'', ru_environ = [], ru_run = (\<lambda>p args env. Ok ''logstash 7.10.0''),
     ru_NewVersion = Ok, ru_at_least = (\<lambda>v w. True), ru_pool = sample_env, ru_Listen = None\<rparr>"

definition empty_daemon :: daemon where
  "empty_daemon = New_daemon ''/socket'' ''/logstash'' [] 10 3 30 False 1 sample_sctl"

lemma sample_started: "\<exists>d. Run_daemon sample_start empty_daemon = (Ok (), d) \<and> d_sessions d = sample_sctl \<and> \<not> d_shutdownSignal d"
proof -
  have "is_ok (DetectVersion (ru_run sample_start) (ru_NewVersion sample_start) (ru_environ sample_start) ''/logstash''
    (GetLimitedEnvironment (ru_environ sample_start) []))" by code_simp
  then obtain v where "DetectVersion (ru_run sample_start) (ru_NewVersion sample_start) (ru_environ sample_start) ''/logstash''
    (GetLimitedEnvironment (ru_environ sample_start) []) = Ok v" by (auto simp: is_ok_iff)
  then show ?thesis
    by (simp add: Run_daemon_def empty_daemon_def New_daemon_def Let_def)
      (simp add: sample_start_def new_pool_def sample_env_def check_def sample_sctl_def sample_pool_def)
qed

lemma sample_set_up:
  assumes "d_sessions d = sample_sctl" and "\<not> d_shutdownSignal d"
  shows "\<exists>d1 s. SetupTest sample_handler False sample_env calm_session_env sample_ast sample_gen
      (enc_entries [(''pipelines.yml'', ''body'')]) d = (Some (Ok (sample_gen 0)), d1) \<and>
    GetSession (sample_gen 0) (d_sessions d1) = Ok s \<and> sctl_inv sample_gen (d_sessions d1)"
proof -
  have "h_unzip sample_handler = sample_unzip" by (simp add: sample_handler_def)
  then have ex: "extractZip (h_unzip sample_handler) (h_unyaml sample_handler) (enc_entries [(''pipelines.yml'', ''body'')])
      = Ok ([mk_pipeline ''main'' ''main.conf'' 1], [] :: (plugin_type \<Rightarrow> sample_plugin list) config_file list)"
    unfolding extractZip_def by (simp only: sample_unzip_entries) (simp add: sample_handler_def plain_entry_def extract_entry_def)
  obtain c where c: "Create False sample_env calm_session_env sample_ast sample_gen [mk_pipeline ''main'' ''main.conf'' 1] []
      sample_sctl = (Created (Ok (sample_gen 0)), c)"
    using Create_total [of False sample_sctl, OF _ _ sample_Get, of calm_session_env "[]" sample_ast sample_gen]
    by (auto simp: sample_fields)
  then obtain s where "mget (sc_sessions c) (sample_gen 0) = Some s"
    by (cases rule: Create_cases) (auto simp: sample_fields map_simps)
  moreover have "sctl_inv sample_gen c" using Create_inv [OF c sample_inv(3,2)] .
  ultimately show ?thesis using assms c unfolding SetupTest_def ex by (simp add: GetSession_def)
qed

theorem daemon_sessions_typed_witness:
  "\<exists>d d' s. Run_daemon sample_start empty_daemon = (Ok (), d) \<and> daemon_run sample_ast sample_gen [None] d d' \<and>
    GetSession (sample_gen 0) (d_sessions d') = Ok s \<and> s_sessionDir s = ''/tmp/session/'' @ sample_gen 0"
proof -
  obtain d where d: "Run_daemon sample_start empty_daemon = (Ok (), d)" "d_sessions d = sample_sctl" "\<not> d_shutdownSignal d"
    using sample_started by blast
  obtain d1 s where su: "SetupTest sample_handler False sample_env calm_session_env sample_ast sample_gen
      (enc_entries [(''pipelines.yml'', ''body'')]) d = (Some (Ok (sample_gen 0)), d1)"
    and s: "GetSession (sample_gen 0) (d_sessions d1) = Ok s" using sample_set_up [OF d(2,3)] by blast
  have run: "daemon_run sample_ast sample_gen [None] d d1"
    using daemon_run.call [OF daemon_run.idle daemon_step.set_up [OF su]] by simp
  from s have "(sample_gen 0, s) \<in> set (sc_sessions (d_sessions d1))"
    by (auto simp: GetSession_def mget_def map_of_SomeD split: option.splits)
  with daemon_sessions_typed [OF d(1) run] have "s_sessionDir s = ''/tmp/session/'' @ sample_gen 0"
    by (auto simp: session_wf_def sample_start_def)
  with d(1) run s show ?thesis by blast
qed

theorem calls_isolated_witness:
  "\<exists>d d' s. daemon_run sample_ast sample_gen [Some ''other'', None] d d' \<and> d_shutdownSignal d' \<and>
    GetSession (sample_gen 0) (d_sessions d) = Ok s \<and> GetSession (sample_gen 0) (d_sessions d') = Ok s"
proof -
  obtain d0 :: daemon where d0: "d_sessions d0 = sample_sctl" "\<not> d_shutdownSignal d0" using sample_started by blast
  obtain d s where su: "SetupTest sample_handler False sample_env calm_session_env sample_ast sample_gen
      (enc_entries [(''pipelines.yml'', ''body'')]) d0 = (Some (Ok (sample_gen 0)), d)"
    and s: "GetSession (sample_gen 0) (d_sessions d) = Ok s" and inv: "sctl_inv sample_gen (d_sessions d)"
    using sample_set_up [OF d0] by blast
  obtain u d1 where td: "TeardownTest sample_handler ''other'' d = (u, d1)" by fastforce
  obtain w d2 where sd: "Shutdown_call d1 = (w, d2)" by fastforce
  have run: "daemon_run sample_ast sample_gen [Some ''other'', None] d d2"
    using daemon_run.call [OF daemon_run.call [OF daemon_run.idle daemon_step.tear_down [OF td]] daemon_step.shutdown [OF sd]]
    by simp
  have "Some (sample_gen 0) \<notin> set [Some ''other'', None]" by (simp add: sample_gen_def)
  with calls_isolated [OF run, of "sample_gen 0" s] s inv sample_inv(2) have "GetSession (sample_gen 0) (d_sessions d2) = Ok s"
    by blast
  moreover have "d_shutdownSignal d2" using sd by (auto simp: Shutdown_call_def split: if_splits)
  ultimately show ?thesis using run s by blast
qed

end
