(* ===== verification/Concurrent_Runs.thy ===== *)
theory Concurrent_Runs
  imports Answers Daemon_System
begin

text \<open>
  A run of the client while other clients use the daemon. Before each of the client's calls the others
  have made any calls that do not name its session, with any outcomes, or asked for a shutdown, and
  the pool's housekeeping may have run. The locale \<open>session_service\<close> holds for this client, too.
\<close>

definition shared_client :: "(nat \<Rightarrow> handler_env) \<Rightarrow> (nat \<Rightarrow> session_env) \<Rightarrow> (string \<Rightarrow> daemon \<times> nat \<Rightarrow> string result \<times> daemon \<times> nat)
    \<Rightarrow> (nat \<Rightarrow> daemon \<Rightarrow> daemon) \<Rightarrow> (string, daemon \<times> nat) client" where
  "shared_client h se su other =
     (let cl = daemon_client h se su
      in \<lparr>cl_SetupTest = (\<lambda>b (d, k). cl_SetupTest cl b (other k d, k)),
          cl_ExecuteTest = (\<lambda>sid inp ls evs n (d, k). cl_ExecuteTest cl sid inp ls evs n (other k d, k)),
          cl_TeardownTest = (\<lambda>sid (d, k). cl_TeardownTest cl sid (other k d, k))\<rparr>)"

definition harmless :: "('cfg, 'pl, 'at) ast_lib \<Rightarrow> (nat \<Rightarrow> string) \<Rightarrow> string \<Rightarrow> (nat \<Rightarrow> daemon \<Rightarrow> daemon) \<Rightarrow> bool" where
  "harmless al gen sid other \<longleftrightarrow> inj gen \<and> (\<forall>k d. \<exists>ls. daemon_run al gen ls d (other k d) \<and> Some sid \<notin> set ls)"

text \<open>The session is live, or it is gone and its id, which has been drawn already, is never used again.\<close>

definition live_in :: "(nat \<Rightarrow> string) \<Rightarrow> string \<Rightarrow> daemon \<Rightarrow> bool" where
  "live_in gen sid d \<longleftrightarrow> sctl_inv gen (d_sessions d) \<and> (\<exists>s. mget (sc_sessions (d_sessions d)) sid = Some s)"

definition gone_in :: "(nat \<Rightarrow> string) \<Rightarrow> string \<Rightarrow> daemon \<Rightarrow> bool" where
  "gone_in gen sid d \<longleftrightarrow> sctl_inv gen (d_sessions d) \<and> mget (sc_sessions (d_sessions d)) sid = None \<and>
     sid \<in> gen ` {..<sc_ids (d_sessions d)}"

lemma live_drawn:
  assumes "live_in gen sid d"
  shows "sid \<in> gen ` {..<sc_ids (d_sessions d)}" and "0 < sc_wg (d_sessions d)"
proof -
  from assms have inv: "sctl_inv gen (d_sessions d)" and "mget (sc_sessions (d_sessions d)) sid \<noteq> None"
    by (auto simp: live_in_def)
  then have "sid \<in> set (mkeys (sc_sessions (d_sessions d)))" by (simp add: mkeys_iff)
  with inv show "sid \<in> gen ` {..<sc_ids (d_sessions d)}" "0 < sc_wg (d_sessions d)"
    by (auto simp: sctl_inv_def mkeys_def)
qed

text \<open>An id that has been drawn and is not in the map stays out of it.\<close>

lemma sctl_step_gone:
  assumes "sctl_step al gen c c'" and "inj gen" and "mget (sc_sessions c) sid = None" and "sid \<in> gen ` {..<sc_ids c}"
  shows "mget (sc_sessions c') sid = None \<and> sid \<in> gen ` {..<sc_ids c'}"
  using assms(1)
proof (cases rule: sctl_step.cases)
  case (create woken pe env ps fs r)
  then show ?thesis
  proof (cases rule: Create_cases)
    case (got h p s k)
    have "sid \<noteq> gen (sc_ids c)" using assms(2,4) by (auto dest: injD)
    moreover have "gen ` {..<sc_ids c} \<subseteq> gen ` {..<sc_ids c'}" using got(4) by auto
    ultimately show ?thesis using assms(3,4) got(6) by (auto simp: map_simps)
  qed (use assms(3,4) in simp_all)
next
  case (destroy tdErr rmErr sid' r)
  then show ?thesis
    by (cases rule: DestroyByID_cases) (use assms(3,4) in \<open>auto simp: map_simps\<close>)
next
  case (execute env plugin ls es n sid' r)
  then show ?thesis using assms(3,4)
    by (cases "sid' = sid") (auto simp: run_session_def Let_def map_simps split: option.splits prod.splits result.splits)
qed (use assms(3,4) in \<open>simp_all add: WaitFinish_def\<close>)

lemma sctl_reach_gone:
  "sctl_reach al gen c c' \<Longrightarrow> inj gen \<Longrightarrow> mget (sc_sessions c) sid = None \<Longrightarrow> sid \<in> gen ` {..<sc_ids c} \<Longrightarrow>
   mget (sc_sessions c') sid = None \<and> sid \<in> gen ` {..<sc_ids c'}"
  by (induction rule: sctl_reach.induct) (auto dest: sctl_step_gone)

lemma daemon_run_gone:
  assumes "daemon_run al gen ls d d'" and "inj gen" and "gone_in gen sid d"
  shows "gone_in gen sid d'"
  using daemon_run_inv [OF assms(1) _ assms(2)] sctl_reach_gone [OF daemon_run_reach [OF assms(1)] assms(2)] assms(3)
  by (simp add: gone_in_def)

lemma other_live: "harmless al gen sid other \<Longrightarrow> live_in gen sid d \<Longrightarrow> live_in gen sid (other k d)"
  unfolding harmless_def live_in_def using daemon_run_inv daemon_run_others by metis

lemma other_gone: "harmless al gen sid other \<Longrightarrow> gone_in gen sid d \<Longrightarrow> gone_in gen sid (other k d)"
  unfolding harmless_def using daemon_run_gone by metis

text \<open>The client's own calls.\<close>

lemma execute_in:
  assumes "live_in gen sid d" and "inj gen" and "ExecuteTest_call h se sid inp ls evs n d = (r, d')"
  shows "if \<exists>e. r = Err e then gone_in gen sid d' else live_in gen sid d'"
proof -
  obtain s where s: "mget (sc_sessions (d_sessions d)) sid = Some s" using assms(1) by (auto simp: live_in_def)
  have reach: "sctl_reach al gen (d_sessions d) (d_sessions d')" for al :: "(unit, unit, unit) ast_lib"
    by (rule ExecuteTest_call_reach [OF assms(3)])
  have inv: "sctl_inv gen (d_sessions d')"
    using sctl_reach_inv [OF reach _ assms(2)] assms(1) by (auto simp: live_in_def)
  have ids: "sc_ids (d_sessions d') = sc_ids (d_sessions d)"
    using assms(3) by (auto simp: ExecuteTest_call_def destroy_session_def DestroyByID_def run_session_def Let_def
        split: result.splits prod.splits option.splits if_splits)
  from execute_call [OF s live_drawn(2) [OF assms(1)] assms(3)] inv live_drawn(1) [OF assms(1)] ids
  show ?thesis by (auto simp: live_in_def gone_in_def session_kept_def session_destroyed_def GetSession_def split: option.splits)
qed

lemma teardown_in:
  assumes "live_in gen sid d \<or> gone_in gen sid d" and "inj gen" and "TeardownTest h sid d = (r, d')"
  shows "gone_in gen sid d'" and "gone_in gen sid d \<Longrightarrow> \<exists>e. r = Err e"
proof -
  have d': "d' = snd (destroy_session h sid d)" and r: "r = map_err (Wrap ''destroy of session failed'') (fst (destroy_session h sid d))"
    using assms(3) by (auto simp: TeardownTest_def split: prod.splits result.splits)
  have "sctl_reach al gen (d_sessions d) (d_sessions d')" for al :: "(unit, unit, unit) ast_lib"
    unfolding d' by (rule destroy_session_reach [OF sctl_reach.refl])
  then have inv: "sctl_inv gen (d_sessions d')"
    using sctl_reach_inv [OF _ _ assms(2)] assms(1) by (auto simp: live_in_def gone_in_def)
  have "mget (sc_sessions (d_sessions d')) sid = None" "sc_ids (d_sessions d') = sc_ids (d_sessions d)"
    by (auto simp: d' destroy_session_def DestroyByID_def Let_def map_simps split: option.splits prod.splits)
  moreover have "sid \<in> gen ` {..<sc_ids (d_sessions d)}" using assms(1) live_drawn(1) by (auto simp: gone_in_def)
  ultimately show "gone_in gen sid d'" using inv by (simp add: gone_in_def)
  show "\<exists>e. r = Err e" if "gone_in gen sid d"
    using that by (auto simp: r gone_in_def destroy_session_def DestroyByID_def)
qed

lemma shared_client_simps [simp]:
  "cl_ExecuteTest (shared_client h se su other) sid inp ls evs n (d, k)
     = (case ExecuteTest_call (h k) (se k) sid inp ls evs n (other k d) of (r, d) \<Rightarrow> (r, d, Suc k))"
  "cl_TeardownTest (shared_client h se su other) sid (d, k)
     = (case TeardownTest (h k) sid (other k d) of (r, d) \<Rightarrow> (r, d, Suc k))"
  by (simp_all add: shared_client_def daemon_client_def Let_def)

lemma shared_service:
  assumes "harmless al gen sid other"
  shows "session_service (shared_client h se su other) sid (\<lambda>(d, k). live_in gen sid d) (\<lambda>(d, k). gone_in gen sid d)"
proof
  have inj: "inj gen" using assms by (simp add: harmless_def)
  show "if \<exists>e. r = Err e then (case w' of (d, k) \<Rightarrow> gone_in gen sid d) else (case w' of (d, k) \<Rightarrow> live_in gen sid d)"
    if "case w of (d, k) \<Rightarrow> live_in gen sid d" and "cl_ExecuteTest (shared_client h se su other) sid inp ls evs n w = (r, w')"
    for w w' r inp ls evs n
    using that execute_in [OF other_live [OF assms] inj] by (cases w; cases w') (auto split: prod.splits)
  show "case w' of (d, k) \<Rightarrow> gone_in gen sid d"
    if "case w of (d, k) \<Rightarrow> live_in gen sid d" and "cl_TeardownTest (shared_client h se su other) sid w = (tr, w')"
    for w w' tr
    using that teardown_in(1) [OF disjI1 [OF other_live [OF assms]] inj] by (cases w; cases w') (auto split: prod.splits)
  show "(case w' of (d, k) \<Rightarrow> gone_in gen sid d) \<and> (\<exists>e. tr = Err e)"
    if "case w of (d, k) \<Rightarrow> gone_in gen sid d" and "cl_TeardownTest (shared_client h se su other) sid w = (tr, w')"
    for w w' tr
    using that teardown_in [OF disjI2 [OF other_gone [OF assms]] inj] other_gone [OF assms]
    by (cases w; cases w') (auto split: prod.splits)
qed

interpretation shared_answers: answering_client "shared_client h se su other" h
  by unfold_locales (auto split: prod.splits dest: ExecuteTest_call_Ok)

section \<open>Properties\<close>

text \<open>
  C7: a run beside others. While other clients use the daemon in any way that does not name the session of
  a run, the run ends with that session gone for good, its id never used again, and the daemon's invariant
  intact, however its calls end. If it succeeds, every test case file has been answered by what
  the controller collected in the run's own call for it, the comparison of these results has
  passed, and the observer has summed up exactly the published results. The observer's goroutine
  has to subscribe before the first value is followed by another: one that is late sums up less,
  or panics, and then the process ends without the teardown.
\<close>

theorem concurrent_run_correct:
  assumes "GetSession sid (d_sessions d) = Ok s" and "sctl_inv gen (d_sessions d)" and "harmless al gen sid other"
    and "run_session_tests (shared_client h se su other) env t sid tests (d, k) = (obs, res, d', k')"
  shows "(obs \<noteq> Panic \<longrightarrow>
      (\<forall>ls d'' (al' :: ('cfg, 'pl, 'at) ast_lib). daemon_run al' gen ls d' d'' \<longrightarrow> sctl_inv gen (d_sessions d'') \<and>
        GetSession sid (d_sessions d'') = Err (no_session sid))) \<and>
    (res = Ok () \<longrightarrow> (\<exists>rs. obs = observed (rn_late env) rs True \<and> (\<forall>r \<in> set rs. r_Status r) \<and>
      (\<forall>i < length tests. answered h env t (k + i) rs (tests ! i)) \<and>
      (rn_late env = 0 \<longrightarrow> obs = observe_run rs))) \<and>
    (rn_late env = 0 \<longrightarrow> obs \<noteq> Panic) \<and> (obs = Panic \<longrightarrow> res = Panic)"
proof -
  have live: "case (d, k) of (d, k) \<Rightarrow> live_in gen sid d"
    using assms(1,2) by (auto simp: live_in_def GetSession_def split: option.splits)
  have gone: "gone_in gen sid d'" if "obs \<noteq> Panic"
    using session_service.session_over(1) [OF shared_service [OF assms(3)] live assms(4) that] by simp
  have inj: "inj gen" using assms(3) by (simp add: harmless_def)
  have over: "\<forall>ls d'' (al' :: ('cfg, 'pl, 'at) ast_lib). daemon_run al' gen ls d' d'' \<longrightarrow>
      sctl_inv gen (d_sessions d'') \<and> GetSession sid (d_sessions d'') = Err (no_session sid)"
    if "obs \<noteq> Panic"
    using daemon_run_gone [OF _ inj gone [OF that]] by (auto simp: gone_in_def GetSession_def)
  have answers: "\<exists>rs. obs = observed (rn_late env) rs True \<and> (\<forall>r \<in> set rs. r_Status r) \<and>
      (\<forall>i < length tests. answered h env t (k + i) rs (tests ! i)) \<and>
      (rn_late env = 0 \<longrightarrow> obs = observe_run rs)" if "res = Ok ()"
  proof -
    from assms(4) [unfolded that] obtain rs w1 where
      ts: "run_tests (shared_client h se su other) env t sid tests True (d, k) = (rs, Ok True, w1)"
      and obs: "obs = observed (rn_late env) rs True"
      by (rule run_session_tests_Ok)
    then have "rn_late env = 0 \<longrightarrow> obs = observe_run rs" by simp
    with obs run_tests_verdict [OF ts] shared_answers.run_tests_answered [OF ts] show ?thesis
      by (intro exI [of _ rs]) simp
  qed
  from run_session_tests_Panic [OF assms(4)] show ?thesis
    by (intro conjI impI, elim over, elim answers) simp_all
qed

text \<open>An example: another client keeps asking for the end of a session that does not exist.\<close>

definition nosy :: "nat \<Rightarrow> daemon \<Rightarrow> daemon" where
  "nosy k d = snd (TeardownTest sample_handler ''other'' d)"

lemma nosy_harmless: "harmless sample_ast sample_gen (sample_gen 0) nosy"
proof -
  have "daemon_run sample_ast sample_gen [Some ''other''] d (nosy k d)" for d k
    using daemon_run.call [OF daemon_run.idle daemon_step.tear_down [OF prod.collapse [symmetric]]] by (simp add: nosy_def)
  moreover have "Some (sample_gen 0) \<notin> set [Some ''other'']" by (simp add: sample_gen_def)
  ultimately show ?thesis unfolding harmless_def using sample_inv(2) by blast
qed

lemma nosy_run:
  assumes "live_in sample_gen (sample_gen 0) d" and "t_InputLines t = []" and "t_ExpectedEvents t = []"
  shows "\<exists>obs d' k'. run_session_tests (shared_client (\<lambda>_. quiet_handler) (\<lambda>_. calm_session_env) su nosy) sample_run_env u
      (sample_gen 0) [t] (d, k) = (obs, Ok (), d', k')"
proof -
  let ?cl = "shared_client (\<lambda>_. quiet_handler) (\<lambda>_. calm_session_env) su nosy" and ?sid = "sample_gen 0"
  note L = other_live [OF nosy_harmless]
  obtain s where "mget (sc_sessions (d_sessions (nosy k d))) ?sid = Some s" using L [OF assms(1)] by (auto simp: live_in_def)
  then obtain d1 where ex: "ExecuteTest_call quiet_handler calm_session_env ?sid (t_InputPlugin t) [] [] (int32 0) (nosy k d) = (Ok [], d1)"
    using calm_execute by blast
  with execute_in [OF L [OF assms(1)] sample_inv(2)] have live: "live_in sample_gen ?sid (nosy (Suc k) d1)"
    by (intro L) fastforce
  then obtain s1 where "mget (sc_sessions (d_sessions (nosy (Suc k) d1))) ?sid = Some s1" by (auto simp: live_in_def)
  then obtain d2 where td: "TeardownTest quiet_handler ?sid (nosy (Suc k) d1) = (Ok (), d2)"
    using calm_teardown live_drawn(2) [OF live] by blast
  obtain rs where cmp: "Compare sample_cmp t [] [''diff'', ''-u''] = (rs, Ok True)" using calm_compare [OF assms(3)] by blast
  have "run_tests ?cl sample_run_env u ?sid [t] True (d, k) = (rs, Ok True, d1, Suc k)"
    using assms(2,3) ex cmp by (simp add: run_test_def sample_run_env_def postProcessResults_def)
  moreover obtain o1 where "observed 0 rs True = Ok o1" using observed_in_time_Ok by blast
  ultimately show ?thesis using td by (simp add: run_session_tests_def end_session_def sample_run_env_def)
qed

theorem concurrent_run_correct_witness:
  "\<exists>d rs d' k'. live_in sample_gen (sample_gen 0) d \<and>
    run_session_tests (shared_client (\<lambda>_. quiet_handler) (\<lambda>_. calm_session_env) (\<lambda>b w. (Ok [], w)) nosy) sample_run_env sample_run
      (sample_gen 0) [sample_set\<lparr>t_InputLines := [], t_ExpectedEvents := []\<rparr>] (d, 0) = (observe_run rs, Ok (), d', k') \<and>
    GetSession (sample_gen 0) (d_sessions d') = Err (no_session (sample_gen 0))"
  (is "\<exists>d rs d' k'. _ \<and> run_session_tests ?cl _ _ _ [?t] _ = _ \<and> _")
proof -
  obtain d0 :: daemon where d0: "d_sessions d0 = sample_sctl" "\<not> d_shutdownSignal d0" using sample_started by blast
  obtain d :: daemon and s where s: "GetSession (sample_gen 0) (d_sessions d) = Ok s" and inv: "sctl_inv sample_gen (d_sessions d)"
    using sample_set_up [OF d0] by blast
  then have live: "live_in sample_gen (sample_gen 0) d" by (auto simp: live_in_def GetSession_def split: option.splits)
  obtain obs d' k' where run: "run_session_tests ?cl sample_run_env sample_run (sample_gen 0) [?t] (d, 0) = (obs, Ok (), d', k')"
    using nosy_run [OF live, where t = ?t and su = "\<lambda>b w. (Ok [], w)" and u = sample_run and k = 0] by fastforce
  note C = concurrent_run_correct [OF s inv nosy_harmless run]
  have late: "rn_late sample_run_env = 0" by (simp add: sample_run_env_def)
  with C have "obs \<noteq> Panic" by blast
  with C daemon_run.idle [of sample_ast sample_gen d']
  have "GetSession (sample_gen 0) (d_sessions d') = Err (no_session (sample_gen 0))" by blast
  moreover from C late obtain rs where "obs = observe_run rs" by blast
  ultimately show ?thesis using live run by blast
qed

end
