(* ===== verification/Cli.thy ===== *)
theory Cli
  imports Commands
begin

text \<open>
  The command line and the configuration: the \<open>make...Cmd\<close> functions and the set-up of viper in
  \<open>internal/app/*.go\<close>. A command is built together with the calls on viper that building it makes;
  each flag is declared and then bound to a key, so a table lists the keys with their flags. The
  texts that help prints for a flag are left out. Viper and cobra are packages outside the
  repository: viper is the record \<open>viper\<close>, whose documented behaviour is \<open>viper_ok\<close>.
\<close>

section \<open>Settings and flags\<close>

text \<open>A duration counts nanoseconds.\<close>

datatype setting =
  is_SString: SString string | is_SStrings: SStrings "string list" | is_SBool: SBool bool | is_SDuration: SDuration int

definition seconds :: "int \<Rightarrow> setting" where
  "seconds n = SDuration (n * 1000000000)"

definition milliseconds :: "int \<Rightarrow> setting" where
  "milliseconds n = SDuration (n * 1000000)"

text \<open>A flag belongs to a command: two commands may have flags of one name.\<close>

record flag =
  fl_command :: string
  fl_name :: string
  fl_short :: string
  fl_default :: setting

definition mk_flag :: "string \<Rightarrow> string \<Rightarrow> string \<Rightarrow> setting \<Rightarrow> flag" where
  "mk_flag cmd name short d = \<lparr>fl_command = cmd, fl_name = name, fl_short = short, fl_default = d\<rparr>"

datatype viper_call =
    SetLogger
  | SetConfigName string
  | AddConfigPath string
  | SetDefault string setting
  | BindPFlag string flag

definition bind_all :: "(string \<times> flag) list \<Rightarrow> viper_call list" where
  "bind_all table = map (\<lambda>(key, f). BindPFlag key f) table"

section \<open>The commands\<close>

datatype validator = ValidateStandaloneArgs | ValidateSetupArgs

datatype handler = RunHelp | RunStandalone | RunDaemonStart | RunDaemonShutdown | RunDaemonRun | RunSetup

datatype command =
  Command (cmd_Use: string) (cmd_Short: string) (cmd_Args: "validator option") (cmd_Run: "handler option")
    (cmd_Flags: "flag list") (cmd_PersistentFlags: "flag list") (cmd_Commands: "command list")

type_synonym made = "command \<times> viper_call list"

definition standalone_flags :: "(string \<times> flag) list" where
  "standalone_flags = (let flag = mk_flag ''standalone'' in
    [(''diff-command'', flag ''diff-command'' [] (SString ''diff -u'')),
     (''keep-envs'', flag ''keep-env'' [] (SStrings [])),
     (''logstash-args'', flag ''logstash-arg'' [] (SStrings [])),
     (''logstash-output'', flag ''logstash-output'' [] (SBool False)),
     (''logstash-paths'', flag ''logstash-path'' [] (SStrings [])),
     (''logstash-version'', flag ''logstash-version'' [] (SString ''auto'')),
     (''sockets'', flag ''sockets'' [] (SBool False)),
     (''sockets-timeout'', flag ''sockets-timeout'' [] (seconds 60)),
     (''quiet'', flag ''quiet'' [] (SBool False))])"

definition makeStandaloneCmd :: made where
  "makeStandaloneCmd =
     (Command ''standalone [<flags>] <testcases> <config>...'' ''Run logstash-filter-verifier in standalone mode''
        (Some ValidateStandaloneArgs) (Some RunStandalone) (map snd standalone_flags) [] [],
      bind_all standalone_flags)"

definition daemon_start_flags :: "(string \<times> flag) list" where
  "daemon_start_flags = (let flag = mk_flag ''start'' in
    [(''logstash.path'', flag ''logstash-path'' [] (SString ''/usr/share/logstash/bin/logstash'')),
     (''inflight-shutdown-timeout'', flag ''inflight-shutdown-timeout'' [] (seconds 10)),
     (''shutdown-timeout'', flag ''shutdown-timeout'' [] (seconds 3)),
     (''wait-for-state-timeout'', flag ''wait-for-state-timeout'' [] (seconds 30)),
     (''no-cleanup'', flag ''no-cleanup'' [] (SBool False)),
     (''wait-for-late-arrivals-timeout'', flag ''wait-for-late-arrivals-timeout'' [] (milliseconds 50)),
     (''daemon-keep-envs'', flag ''keep-env'' [] (SStrings []))])"

definition makeDaemonStartCmd :: made where
  "makeDaemonStartCmd =
     (Command ''start'' ''Start logstash-filter-verifier daemon'' None (Some RunDaemonStart)
        (map snd daemon_start_flags) [] [],
      bind_all daemon_start_flags)"

definition makeDaemonShutdownCmd :: made where
  "makeDaemonShutdownCmd =
     (Command ''shutdown'' ''Shutdown logstash-filter-verifier daemon'' None (Some RunDaemonShutdown) [] [] [], [])"

definition daemon_run_flags :: "(string \<times> flag) list" where
  "daemon_run_flags = (let flag = mk_flag ''run'' in
    [(''pipeline'', flag ''pipeline'' ''p'' (SString [])),
     (''pipeline-base'', flag ''pipeline-base'' [] (SString [])),
     (''logstash-config'', flag ''logstash-config'' [] (SString [])),
     (''testcase-dir'', flag ''testcase-dir'' ''t'' (SString [])),
     (''plugin-mock'', flag ''plugin-mock'' [] (SString [])),
     (''debug'', flag ''debug'' [] (SBool False)),
     (''metadata-key'', flag ''metadata-key'' [] (SString ''@metadata'')),
     (''add-missing-id'', flag ''add-missing-id'' [] (SBool False))])"

definition makeDaemonRunCmd :: made where
  "makeDaemonRunCmd =
     (Command ''run'' ''Run test suite with logstash-filter-verifier daemon'' None (Some RunDaemonRun)
        (map snd daemon_run_flags) [] [],
      bind_all daemon_run_flags)"

definition daemon_flags :: "(string \<times> flag) list" where
  "daemon_flags = [(''socket'', mk_flag ''daemon'' ''socket'' ''s'' (SString []))]"

definition makeDaemonCmd :: made where
  "makeDaemonCmd =
     (let (start, calls1) = makeDaemonStartCmd; (shutdown, calls2) = makeDaemonShutdownCmd;
          (run, calls3) = makeDaemonRunCmd
      in (Command ''daemon'' ''Control logstash-filter-verifier daemon mode'' None None
            [] (map snd daemon_flags) [start, shutdown, run],
          bind_all daemon_flags @ calls1 @ calls2 @ calls3))"

text \<open>\<open>arch\<close> is the result of \<open>osArch\<close>.\<close>

definition setup_flags :: "string \<Rightarrow> (string \<times> flag) list" where
  "setup_flags arch = (let flag = mk_flag ''setup'' in
    [(''target-dir'', flag ''target-dir'' ''t'' (SString ''./3rdparty'')),
     (''oss'', flag ''oss'' [] (SBool False)),
     (''os-arch'', flag ''os-arch'' [] (SString arch)),
     (''archive-type'', flag ''archive-type'' [] (SString ''tar.gz''))])"

definition makeSetupCmd :: "string \<Rightarrow> made" where
  "makeSetupCmd arch =
     (Command ''setup [<flags>] <logstash-version>''
        ''Setup the given version of Logstash for usage with logstash-filter-verifier''
        (Some ValidateSetupArgs) (Some RunSetup) (map snd (setup_flags arch)) [] [],
      bind_all (setup_flags arch))"

definition root_flags :: "(string \<times> flag) list" where
  "root_flags = [(''loglevel'', mk_flag ''logstash-filter-verifier'' ''loglevel'' [] (SString ''INFO''))]"

text \<open>The flags for help and for the version are cobra's own.\<close>

definition makeRootCmd :: "string \<Rightarrow> made" where
  "makeRootCmd arch =
     (let (standalone, calls1) = makeStandaloneCmd; (daemon, calls2) = makeDaemonCmd;
          (setup, calls3) = makeSetupCmd arch
      in (Command ''logstash-filter-verifier'' [] None (Some RunHelp) [] (map snd root_flags)
            [standalone, daemon, setup],
          bind_all root_flags @ calls1 @ calls2 @ calls3))"

section \<open>The configuration\<close>

text \<open>The calls of \<open>Execute\<close> before it reads the configuration file.\<close>

definition config_calls :: "string result \<Rightarrow> viper_call list" where
  "config_calls userConfigDir =
     [SetLogger, SetConfigName ''logstash-filter-verifier'', AddConfigPath ''.'']
     @ (case userConfigDir of
          Ok configDir \<Rightarrow> [AddConfigPath (path_join [configDir, ''logstash-filter-verifier''])] | _ \<Rightarrow> [])
     @ [AddConfigPath ''/etc/logstash-filter-verifier/'',
        SetDefault ''loglevel'' (SString ''INFO''),
        SetDefault ''socket'' (SString ''/tmp/logstash-filter-verifier.sock''),
        SetDefault ''logstash.path'' (SString ''/usr/share/logstash/bin/logstash''),
        SetDefault ''inflight-shutdown-timeout'' (seconds 10),
        SetDefault ''shutdown-timeout'' (seconds 3),
        SetDefault ''wait-for-state-timeout'' (seconds 30)]"

text \<open>All calls that have been made when a command runs.\<close>

definition program_calls :: "string result \<Rightarrow> string \<Rightarrow> viper_call list" where
  "program_calls userConfigDir arch = config_calls userConfigDir @ snd (makeRootCmd arch)"

text \<open>
  Viper's answer for a key depends on the calls made, on the flags given on the command line and
  on the configuration file. The other functions convert a value to the type that is asked for.
\<close>

type_synonym given_flags = "flag \<Rightarrow> setting option"
type_synonym config_file_values = "string \<Rightarrow> setting option"

record viper =
  vp_Get :: "viper_call list \<Rightarrow> given_flags \<Rightarrow> config_file_values \<Rightarrow> string \<Rightarrow> setting option"
  vp_String :: "setting option \<Rightarrow> string"
  vp_Strings :: "setting option \<Rightarrow> string list"
  vp_Bool :: "setting option \<Rightarrow> bool"
  vp_Duration :: "setting option \<Rightarrow> int"

definition config_of :: "viper \<Rightarrow> viper_call list \<Rightarrow> given_flags \<Rightarrow> config_file_values \<Rightarrow> config" where
  "config_of vp calls given_flags vals =
     (let get = vp_Get vp calls given_flags vals
      in \<lparr>v_String = (\<lambda>k. vp_String vp (get k)), v_Strings = (\<lambda>k. vp_Strings vp (get k)),
          v_Bool = (\<lambda>k. vp_Bool vp (get k)), v_Duration = (\<lambda>k. vp_Duration vp (get k))\<rparr>)"

section \<open>Viper's documented behaviour\<close>

fun bound_flag :: "viper_call list \<Rightarrow> string \<Rightarrow> flag option" where
  "bound_flag [] k = None"
| "bound_flag (c # cs) k =
     (case bound_flag cs k of
        Some f \<Rightarrow> Some f
      | None \<Rightarrow> (case c of BindPFlag k' f \<Rightarrow> if k' = k then Some f else None | _ \<Rightarrow> None))"

fun default_value :: "viper_call list \<Rightarrow> string \<Rightarrow> setting option" where
  "default_value [] k = None"
| "default_value (c # cs) k =
     (case default_value cs k of
        Some s \<Rightarrow> Some s
      | None \<Rightarrow> (case c of SetDefault k' s \<Rightarrow> if k' = k then Some s else None | _ \<Rightarrow> None))"

definition or_else :: "'a option \<Rightarrow> 'a option \<Rightarrow> 'a option" where
  "or_else x y = (case x of None \<Rightarrow> y | Some _ \<Rightarrow> x)"

text \<open>
  The order in which the sources are asked: a flag that was given, the configuration file, a
  default, the default of the flag. The last call for a key counts.
\<close>

definition precedence :: "viper_call list \<Rightarrow> given_flags \<Rightarrow> config_file_values \<Rightarrow> string \<Rightarrow> setting option" where
  "precedence calls given_flags vals k =
     or_else (Option.bind (bound_flag calls k) given_flags)
       (or_else (vals k) (or_else (default_value calls k) (map_option fl_default (bound_flag calls k))))"

definition viper_ok :: "viper \<Rightarrow> bool" where
  "viper_ok vp \<longleftrightarrow>
     (\<forall>calls given_flags vals k. k \<noteq> ''logger'' \<longrightarrow>
        vp_Get vp calls given_flags vals k = precedence calls given_flags vals k) \<and>
     (\<forall>s. vp_String vp (Some (SString s)) = s) \<and> (\<forall>ss. vp_Strings vp (Some (SStrings ss)) = ss) \<and>
     (\<forall>b. vp_Bool vp (Some (SBool b)) = b) \<and> (\<forall>n. vp_Duration vp (Some (SDuration n)) = n)"

section \<open>Facts\<close>

text \<open>All keys with the flags that are bound to them.\<close>

definition bindings :: "string \<Rightarrow> (string \<times> flag) list" where
  "bindings arch = root_flags @ standalone_flags @ daemon_flags @ daemon_start_flags @ daemon_run_flags @ setup_flags arch"

lemmas flag_tables = root_flags_def standalone_flags_def daemon_flags_def daemon_start_flags_def
  daemon_run_flags_def setup_flags_def

text \<open>What a flag yields that is neither given nor set in the configuration file.\<close>

definition fallback :: "flag \<Rightarrow> setting" where
  "fallback f = (if fl_name f = ''socket'' then SString ''/tmp/logstash-filter-verifier.sock'' else fl_default f)"

definition resolve :: "given_flags \<Rightarrow> config_file_values \<Rightarrow> string \<Rightarrow> flag \<Rightarrow> setting" where
  "resolve given_flags vals k f =
     (case given_flags f of Some s \<Rightarrow> s | None \<Rightarrow> (case vals k of Some s \<Rightarrow> s | None \<Rightarrow> fallback f))"

lemma or_else_simps [simp]: "or_else None y = y" "or_else (Some z) y = Some z" "or_else x None = x"
  by (simp_all add: or_else_def split: option.splits)

lemma bound_flag_append: "bound_flag (xs @ ys) k = or_else (bound_flag ys k) (bound_flag xs k)"
  by (induction xs) (simp_all add: or_else_def split: option.splits)

lemma bound_flag_table: "distinct (map fst t) \<Longrightarrow> bound_flag (bind_all t) k = map_of t k"
proof (induction t)
  case (Cons p t)
  obtain k' f where p: "p = (k', f)" by (cases p)
  have "map_of t k = None" if "k' = k" using Cons.prems that p by (simp add: map_of_eq_None_iff)
  then show ?case using Cons by (auto simp: bind_all_def p split: option.splits)
qed (simp add: bind_all_def)

lemma default_value_append: "default_value (xs @ ys) k = or_else (default_value ys k) (default_value xs k)"
  by (induction xs) (simp_all add: or_else_def split: option.splits)

lemma default_value_table: "default_value (bind_all t) k = None"
  by (induction t) (auto simp: bind_all_def)

lemma distinct_keys: "distinct (map fst (bindings arch))"
  by (simp add: bindings_def flag_tables Let_def)

lemma root_calls: "snd (makeRootCmd arch) = bind_all (bindings arch)"
  by (simp add: makeRootCmd_def makeStandaloneCmd_def makeDaemonCmd_def makeDaemonStartCmd_def makeDaemonShutdownCmd_def
      makeDaemonRunCmd_def makeSetupCmd_def bindings_def bind_all_def)

lemma bound_flag_program: "bound_flag (program_calls dir arch) k = map_of (bindings arch) k"
proof -
  have "bound_flag (config_calls dir) k = None" by (simp add: config_calls_def split: result.splits)
  then show ?thesis
    by (simp add: program_calls_def root_calls bound_flag_append bound_flag_table distinct_keys)
qed

lemma default_value_program: "default_value (program_calls dir arch) k = default_value (config_calls dir) k"
  by (simp add: program_calls_def root_calls default_value_append default_value_table)

text \<open>The defaults that are set agree with those of the flags, but for the socket's.\<close>

lemma default_value_config: "default_value (config_calls dir) = default_value (config_calls (Ok []))"
  by (rule ext) (simp add: config_calls_def default_value_append split: result.splits)

lemma defaults_checked:
  "\<forall>(k, f) \<in> set (bindings arch). or_else (default_value (config_calls (Ok [])) k) (Some (fl_default f)) = Some (fallback f)"
  unfolding bindings_def flag_tables Let_def
  by (simp add: config_calls_def mk_flag_def fallback_def seconds_def milliseconds_def)

lemma default_agrees:
  "(k, f) \<in> set (bindings arch) \<Longrightarrow>
   or_else (default_value (config_calls dir) k) (Some (fl_default f)) = Some (fallback f)"
  using defaults_checked [of arch] unfolding default_value_config [of dir] by blast

lemma binding_resolved:
  assumes "viper_ok vp" and "(k, f) \<in> set (bindings arch)"
  shows "vp_Get vp (program_calls dir arch) given_flags vals k = Some (resolve given_flags vals k f)"
proof -
  have k: "map_of (bindings arch) k = Some f" using assms(2) distinct_keys by simp
  have "k \<noteq> ''logger''" using assms(2) unfolding bindings_def flag_tables Let_def by auto
  then have "vp_Get vp (program_calls dir arch) given_flags vals k = precedence (program_calls dir arch) given_flags vals k"
    using assms(1) by (simp add: viper_ok_def)
  also have "\<dots> = or_else (given_flags f) (or_else (vals k) (Some (fallback f)))"
    using default_agrees [OF assms(2), of dir]
    by (simp add: precedence_def bound_flag_program k default_value_program)
  finally show ?thesis by (simp add: resolve_def or_else_def split: option.splits)
qed

section \<open>What the commands read\<close>

text \<open>A configuration that answers, for every key with a flag, the setting \<open>st\<close>, by the getter of the flag's type.\<close>

definition holds_settings :: "config \<Rightarrow> (string \<Rightarrow> flag \<Rightarrow> setting) \<Rightarrow> string \<Rightarrow> bool" where
  "holds_settings v st arch \<longleftrightarrow> (\<forall>(k, f) \<in> set (bindings arch).
     st k f = (case fl_default f of SString _ \<Rightarrow> SString (v_String v k) | SStrings _ \<Rightarrow> SStrings (v_Strings v k)
       | SBool _ \<Rightarrow> SBool (v_Bool v k) | SDuration _ \<Rightarrow> SDuration (v_Duration v k)))"

definition declares :: "string \<Rightarrow> (setting \<Rightarrow> bool) \<Rightarrow> string \<Rightarrow> bool" where
  "declares arch type k \<longleftrightarrow> (\<exists>f. (k, f) \<in> set (bindings arch) \<and> type (fl_default f))"

lemma declares_checked:
  "list_all (declares arch is_SString) [''diff-command'', ''logstash-version'', ''socket'', ''logstash.path'', ''pipeline'',
     ''pipeline-base'', ''logstash-config'', ''testcase-dir'', ''plugin-mock'', ''metadata-key'', ''target-dir'', ''os-arch'',
     ''archive-type'', ''loglevel'']"
  "list_all (declares arch is_SStrings) [''keep-envs'', ''logstash-args'', ''logstash-paths'', ''daemon-keep-envs'']"
  "list_all (declares arch is_SBool)
     [''logstash-output'', ''sockets'', ''quiet'', ''no-cleanup'', ''debug'', ''add-missing-id'', ''oss'']"
  "list_all (declares arch is_SDuration) [''sockets-timeout'', ''inflight-shutdown-timeout'', ''shutdown-timeout'',
     ''wait-for-state-timeout'', ''wait-for-late-arrivals-timeout'']"
  unfolding declares_def bindings_def flag_tables Let_def
  by (simp_all add: mk_flag_def seconds_def milliseconds_def conj_disj_distribR ex_disj_distrib)

lemmas declared_keys = declares_checked [simplified]

lemma config_of_holds:
  assumes "viper_ok vp" and "holds_settings v (resolve given_flags vals) arch"
    and c: "c = config_of vp (program_calls dir arch) given_flags vals"
  shows "declares arch is_SString k \<Longrightarrow> v_String c k = v_String v k"
    and "declares arch is_SStrings k \<Longrightarrow> v_Strings c k = v_Strings v k"
    and "declares arch is_SBool k \<Longrightarrow> v_Bool c k = v_Bool v k"
    and "declares arch is_SDuration k \<Longrightarrow> v_Duration c k = v_Duration v k"
proof -
  have get: "v_String c k = vp_String vp (Some s) \<and> v_Strings c k = vp_Strings vp (Some s) \<and>
      v_Bool c k = vp_Bool vp (Some s) \<and> v_Duration c k = vp_Duration vp (Some s)"
    if "(k, f) \<in> set (bindings arch)" "resolve given_flags vals k f = s" for k f s
    using binding_resolved [OF assms(1) that(1), of dir given_flags vals] that(2) by (simp add: c config_of_def Let_def)
  have st: "resolve given_flags vals k f =
      (case fl_default f of SString _ \<Rightarrow> SString (v_String v k) | SStrings _ \<Rightarrow> SStrings (v_Strings v k)
       | SBool _ \<Rightarrow> SBool (v_Bool v k) | SDuration _ \<Rightarrow> SDuration (v_Duration v k))"
    if "(k, f) \<in> set (bindings arch)" for k f
    using assms(2) that unfolding holds_settings_def by blast
  note conv = assms(1) [unfolded viper_ok_def]
  show "declares arch is_SString k \<Longrightarrow> v_String c k = v_String v k"
    "declares arch is_SStrings k \<Longrightarrow> v_Strings c k = v_Strings v k"
    "declares arch is_SBool k \<Longrightarrow> v_Bool c k = v_Bool v k"
    "declares arch is_SDuration k \<Longrightarrow> v_Duration c k = v_Duration v k"
    unfolding declares_def using get [OF _ st] conv by (auto split: setting.splits simp: is_SString_def is_SStrings_def is_SBool_def is_SDuration_def)
qed

text \<open>Settings of the flags' types are held by viper's own configuration.\<close>

definition same_type :: "setting \<Rightarrow> setting \<Rightarrow> bool" where
  "same_type s t \<longleftrightarrow> is_SString s = is_SString t \<and> is_SStrings s = is_SStrings t \<and>
     is_SBool s = is_SBool t \<and> is_SDuration s = is_SDuration t"

lemma config_of_settings:
  assumes "viper_ok vp" and "\<forall>(k, f) \<in> set (bindings arch). same_type (resolve given_flags vals k f) (fl_default f)"
  shows "holds_settings (config_of vp (program_calls dir arch) given_flags vals) (resolve given_flags vals) arch"
  unfolding holds_settings_def
proof (intro ballI, clarify)
  let ?c = "config_of vp (program_calls dir arch) given_flags vals"
  fix k f assume m: "(k, f) \<in> set (bindings arch)"
  note get = binding_resolved [OF assms(1) m, of dir given_flags vals]
  have "same_type (resolve given_flags vals k f) (fl_default f)" using assms(2) m by blast
  moreover have "v_String ?c k = vp_String vp (Some (resolve given_flags vals k f))"
    "v_Strings ?c k = vp_Strings vp (Some (resolve given_flags vals k f))"
    "v_Bool ?c k = vp_Bool vp (Some (resolve given_flags vals k f))"
    "v_Duration ?c k = vp_Duration vp (Some (resolve given_flags vals k f))"
    by (simp_all add: config_of_def get Let_def)
  ultimately show "resolve given_flags vals k f =
      (case fl_default f of SString _ \<Rightarrow> SString (v_String ?c k) | SStrings _ \<Rightarrow> SStrings (v_Strings ?c k)
       | SBool _ \<Rightarrow> SBool (v_Bool ?c k) | SDuration _ \<Rightarrow> SDuration (v_Duration ?c k))"
    using assms(1)
    by (cases "resolve given_flags vals k f"; cases "fl_default f") (simp_all add: same_type_def viper_ok_def)
qed

text \<open>The settings decide what a command runs with.\<close>

lemma commands_decided:
  assumes "viper_ok vp" and "holds_settings v (resolve given_flags vals) arch"
    and "c = config_of vp (program_calls dir arch) given_flags vals"
  shows "standalone_of c = standalone_of v"
    and "runStandalone c = runStandalone v"
    and "test_run_of c = test_run_of v"
    and "runDaemonRun c = runDaemonRun v"
    and "runDaemonStart c = runDaemonStart v"
    and "runDaemonShutdown c = runDaemonShutdown v"
    and "setup_of c = setup_of v"
    and "runSetup c = runSetup v"
proof -
  note get = config_of_holds [OF assms]
  show s: "standalone_of c = standalone_of v" by (intro ext) (simp add: standalone_of_def get declared_keys)
  show "runStandalone c = runStandalone v" by (intro ext) (simp add: runStandalone_def s split: list.split)
  show t: "test_run_of c = test_run_of v" by (simp add: test_run_of_def get declared_keys)
  show "runDaemonRun c = runDaemonRun v" by (intro ext) (simp add: runDaemonRun_def t get declared_keys)
  show "runDaemonStart c = runDaemonStart v" by (intro ext) (simp add: runDaemonStart_def get declared_keys)
  show "runDaemonShutdown c = runDaemonShutdown v" by (intro ext) (simp add: runDaemonShutdown_def get declared_keys)
  show u: "setup_of c = setup_of v" by (intro ext) (simp add: setup_of_def get declared_keys split: list.split result.split)
  show "runSetup c = runSetup v" by (intro ext) (simp add: runSetup_def u)
qed

section \<open>Properties\<close>

text \<open>
  C25: the settings. The flags of all commands are bound to distinct keys, also where two
  commands have a flag of one name, so a flag that is given reaches its own key only. For every key of a
  flag the program finds a value: the flag's when it is given, else the configuration file's, else the
  flag's default, which no other default contradicts, but for the socket, whose flag has an empty
  one. And these settings decide what each command runs with: it reads no key that has no flag,
  and each key by the getter of its flag's type.
\<close>

theorem settings_resolved:
  assumes "viper_ok vp"
  shows "distinct (map fst (bindings arch)) \<and>
    (\<forall>(k, f) \<in> set (bindings arch).
       vp_Get vp (program_calls dir arch) given_flags vals k = Some (resolve given_flags vals k f)) \<and>
    (\<forall>v. holds_settings v (resolve given_flags vals) arch \<longrightarrow>
       (let c = config_of vp (program_calls dir arch) given_flags vals in
        standalone_of c = standalone_of v \<and> test_run_of c = test_run_of v \<and>
        runDaemonStart c = runDaemonStart v \<and> runDaemonShutdown c = runDaemonShutdown v \<and> setup_of c = setup_of v))"
  using distinct_keys binding_resolved [OF assms] commands_decided [OF assms _ HOL.refl] by (auto simp: Let_def)

definition sample_viper :: viper where
  "sample_viper = \<lparr>vp_Get = precedence,
     vp_String = (\<lambda>s. case s of Some (SString x) \<Rightarrow> x | _ \<Rightarrow> []),
     vp_Strings = (\<lambda>s. case s of Some (SStrings x) \<Rightarrow> x | _ \<Rightarrow> []),
     vp_Bool = (\<lambda>s. case s of Some (SBool x) \<Rightarrow> x | _ \<Rightarrow> False),
     vp_Duration = (\<lambda>s. case s of Some (SDuration x) \<Rightarrow> x | _ \<Rightarrow> 0)\<rparr>"

lemma sample_viper_ok: "viper_ok sample_viper"
  by (simp add: viper_ok_def sample_viper_def)

text \<open>The daemon's \<open>--keep-env\<close> beside a list of variables in the configuration file.\<close>

theorem settings_resolved_witness:
  "let given_flags = (\<lambda>f. if fl_command f = ''start'' \<and> fl_name f = ''keep-env'' then Some (SStrings [''A'']) else None);
       vals = (\<lambda>k. if k = ''keep-envs'' then Some (SStrings [''B'']) else None);
       get = vp_Get sample_viper (program_calls (Ok ''/home'') ''linux-x86_64'') given_flags vals
   in get ''daemon-keep-envs'' = Some (SStrings [''A'']) \<and> get ''keep-envs'' = Some (SStrings [''B'']) \<and>
      get ''socket'' = Some (SString ''/tmp/logstash-filter-verifier.sock'')"
proof -
  let ?g = "\<lambda>f. if fl_command f = ''start'' \<and> fl_name f = ''keep-env'' then Some (SStrings [''A'']) else None"
  let ?v = "\<lambda>k. if k = ''keep-envs'' then Some (SStrings [''B'']) else None"
  let ?b = "bindings ''linux-x86_64''"
  have S: "(k, f) \<in> set ?b \<Longrightarrow> vp_Get sample_viper (program_calls (Ok ''/home'') ''linux-x86_64'') ?g ?v k = Some (resolve ?g ?v k f)"
    for k f using settings_resolved [OF sample_viper_ok, of "''linux-x86_64''" "Ok ''/home''" ?g ?v] by blast
  have "(''daemon-keep-envs'', mk_flag ''start'' ''keep-env'' [] (SStrings [])) \<in> set ?b"
    "(''keep-envs'', mk_flag ''standalone'' ''keep-env'' [] (SStrings [])) \<in> set ?b"
    "(''socket'', mk_flag ''daemon'' ''socket'' ''s'' (SString [])) \<in> set ?b"
    by (simp_all add: bindings_def flag_tables Let_def)
  note S [OF this(1)] S [OF this(2)] S [OF this(3)]
  then show ?thesis by (simp add: Let_def resolve_def mk_flag_def fallback_def)
qed

end
