(* ===== verification/Program.thy ===== *)
theory Program
  imports Cli Daemon_System
begin

text \<open>
  The whole program, \<open>src/main.go\<close> and \<open>Execute\<close> in \<open>internal/app/app.go\<close>: the configuration is read,
  the tree of commands is built, and the command that cobra finds on the command line is run with
  the settings that viper resolves. What the commands find outside the program is a record, what they
  change is the world.
\<close>

section \<open>The world and the environment\<close>

text \<open>
  What cobra makes of the arguments: a mistake, a request for a text (help or the version), or a
  command with the flags that were given and the arguments that are left. \<open>pw_stderr\<close> is what
  \<open>Execute\<close> itself prints.
\<close>

datatype parsed = Misused gerror | TextOnly | Invoke command given_flags "string list"

record 'w world =
  pw_files :: file_map
  pw_daemon :: daemon
  pw_client :: 'w
  pw_level :: "string option"
  pw_cleaned :: "string option"
  pw_stderr :: string

record ('cfg, 'pl, 'at, 'v, 'w) program_env =
  pe_arg0 :: string
  pe_text :: "gerror \<Rightarrow> string"
  pe_os :: string
  pe_arch :: string
  pe_UserConfigDir :: "string result"
  pe_viper :: viper
  pe_ReadInConfig :: "viper_call list \<Rightarrow> config_read"
  pe_file :: config_file_values
  pe_parse :: "command \<Rightarrow> string list \<Rightarrow> parsed"
  pe_LogLevel :: "string \<Rightarrow> string result"
  pe_notExist :: "string \<Rightarrow> bool"
  pe_alone :: "('cfg, 'pl, 'at, 'v) alone_io"
  pe_newVersion :: "string \<Rightarrow> string result"
  pe_setup :: setup_io
  pe_start :: "'v run_io"
  pe_nil_sessions :: sctl
  pe_dial :: "string \<Rightarrow> gerror option"
  pe_abs :: "string \<Rightarrow> string result"
  pe_getwd :: "string result"
  pe_run :: "test_run \<Rightarrow> 'w \<Rightarrow> observer_state result option \<times> unit result \<times> 'w"

type_synonym 'w outcome = "observer_state result option \<times> unit result \<times> 'w world"

section \<open>Running a command\<close>

definition validate_args :: "('cfg, 'pl, 'at, 'v, 'w) program_env \<Rightarrow> validator option \<Rightarrow> string list \<Rightarrow> unit result" where
  "validate_args env va args =
     (case va of
        None \<Rightarrow> Ok ()
      | Some ValidateStandaloneArgs \<Rightarrow> validateStandaloneArgs (pe_notExist env) args
      | Some ValidateSetupArgs \<Rightarrow> validateSetupArgs (pe_newVersion env) args)"

definition run_handler :: "('cfg, 'pl, 'at, 'v, 'w) program_env \<Rightarrow> handler \<Rightarrow> config \<Rightarrow> string list
    \<Rightarrow> 'w world \<Rightarrow> 'w outcome" where
  "run_handler env h v args w =
     (case h of
        RunHelp \<Rightarrow> (None, Ok (), w)
      | RunStandalone \<Rightarrow>
          (let (obs, r, files) = runStandalone v (pe_alone env) args (pw_files w) in (obs, r, w\<lparr>pw_files := files\<rparr>))
      | RunDaemonStart \<Rightarrow>
          (let (r, cleaned) = runDaemonStart v (pe_start env) (pe_nil_sessions env) in (None, r, w\<lparr>pw_cleaned := cleaned\<rparr>))
      | RunDaemonShutdown \<Rightarrow>
          (let (r, d) = runDaemonShutdown v (pe_dial env) (pw_daemon w) in (None, r, w\<lparr>pw_daemon := d\<rparr>))
      | RunDaemonRun \<Rightarrow>
          (let (obs, r, c) = runDaemonRun v (pe_abs env) (pe_getwd env) (pe_run env) (pw_client w)
           in (obs, r, w\<lparr>pw_client := c\<rparr>))
      | RunSetup \<Rightarrow>
          (let (r, files) = runSetup v (pe_newVersion env) (pe_setup env) args (pw_files w)
           in (None, r, w\<lparr>pw_files := files\<rparr>)))"

text \<open>
  \<open>rootCmd.Execute\<close>: cobra validates the arguments, runs the root's \<open>PersistentPreRun\<close>, which sets the
  log level, and then the command; a command without a function of its own prints its help.
\<close>

definition run_command :: "('cfg, 'pl, 'at, 'v, 'w) program_env \<Rightarrow> config \<Rightarrow> command \<Rightarrow> string list
    \<Rightarrow> 'w world \<Rightarrow> 'w outcome" where
  "run_command env v c args w =
     (case cmd_Run c of
        None \<Rightarrow> (None, Ok (), w)
      | Some h \<Rightarrow>
          (case validate_args env (cmd_Args c) args of
             Ok _ \<Rightarrow> run_handler env h v args
                 (w\<lparr>pw_level := Some (SetLevel (pe_LogLevel env) ''WARNING'' (v_String v ''loglevel''))\<rparr>)
           | r \<Rightarrow> (None, r, w)))"

definition execute_root :: "('cfg, 'pl, 'at, 'v, 'w) program_env \<Rightarrow> config_file_values \<Rightarrow> string list
    \<Rightarrow> 'w world \<Rightarrow> 'w outcome" where
  "execute_root env vals args w =
     (let (root, calls) = makeRootCmd (osArch (pe_os env) (pe_arch env))
      in case pe_parse env root args of
           Misused e \<Rightarrow> (None, Err e, w)
         | TextOnly \<Rightarrow> (None, Ok (), w)
         | Invoke c given_flags rest \<Rightarrow>
             run_command env (config_of (pe_viper env) (config_calls (pe_UserConfigDir env) @ calls) given_flags vals) c rest w)"

text \<open>
  Without a configuration file there are no values from one. When the process has ended by
  \<open>log.Fatalf\<close>, also with the exit code 1, \<open>Execute\<close> prints nothing more.
\<close>

definition Execute_program :: "('cfg, 'pl, 'at, 'v, 'w) program_env \<Rightarrow> string list \<Rightarrow> 'w world
    \<Rightarrow> observer_state result option \<times> nat result \<times> 'w world" where
  "Execute_program env args w =
     (let cfg = pe_ReadInConfig env (config_calls (pe_UserConfigDir env))
      in case cfg of
           ConfigBroken e \<Rightarrow> (None, Execute cfg (Err e), w)
         | _ \<Rightarrow>
             (let (obs, r, w) = execute_root env (if cfg = ConfigOk then pe_file env else (\<lambda>k. None)) args w
              in (obs, Execute cfg r,
                  case r of
                    Err e \<Rightarrow> if is_fatal e then w
                      else w\<lparr>pw_stderr := pw_stderr w @ prefixedUserError (pe_arg0 env) (''error: '' @ pe_text env e)\<rparr>
                  | _ \<Rightarrow> w)))"

section \<open>Facts\<close>

text \<open>A command with the commands below it.\<close>

fun commands_of :: "command \<Rightarrow> command list" where
  "commands_of (Command u s a r fl pf cs) = Command u s a r fl pf cs # concat (map commands_of cs)"

definition root_command :: "('cfg, 'pl, 'at, 'v, 'w) program_env \<Rightarrow> command" where
  "root_command env = fst (makeRootCmd (osArch (pe_os env) (pe_arch env)))"

definition file_values :: "('cfg, 'pl, 'at, 'v, 'w) program_env \<Rightarrow> config_file_values" where
  "file_values env = (if pe_ReadInConfig env (config_calls (pe_UserConfigDir env)) = ConfigOk then pe_file env else (\<lambda>k. None))"

lemma standalone_validated:
  "c \<in> set (commands_of (fst (makeRootCmd arch))) \<Longrightarrow> cmd_Run c = Some RunStandalone \<Longrightarrow>
   cmd_Args c = Some ValidateStandaloneArgs"
  by (auto simp: makeRootCmd_def makeStandaloneCmd_def makeDaemonCmd_def makeDaemonStartCmd_def
      makeDaemonShutdownCmd_def makeDaemonRunCmd_def makeSetupCmd_def)

text \<open>The outcomes of the program.\<close>

lemma program_cases:
  assumes "Execute_program env args w = (obs, code, w')"
  obtains (broken) e where "pe_ReadInConfig env (config_calls (pe_UserConfigDir env)) = ConfigBroken e"
      "obs = None" "code = Ok 1" "w' = w"
  | (success) w1 where "execute_root env (file_values env) args w = (obs, Ok (), w1)" "code = Ok 0" "w' = w1"
  | (failed) e w1 where "execute_root env (file_values env) args w = (obs, Err e, w1)" "code = Ok 1"
      "w' = (if is_fatal e then w1
             else w1\<lparr>pw_stderr := pw_stderr w1 @ prefixedUserError (pe_arg0 env) (''error: '' @ pe_text env e)\<rparr>)"
  | (panic) w1 where "execute_root env (file_values env) args w = (obs, Panic, w1)" "code = Panic" "w' = w1"
proof (cases "\<exists>e. pe_ReadInConfig env (config_calls (pe_UserConfigDir env)) = ConfigBroken e")
  case True
  with assms broken show thesis by (auto simp: Execute_program_def Execute_def Let_def)
next
  case False
  obtain r w1 where run: "execute_root env (file_values env) args w = (obs, r, w1)"
    and code: "code = Execute ConfigOk r"
    and w': "w' = (case r of
       Err e \<Rightarrow> if is_fatal e then w1
         else w1\<lparr>pw_stderr := pw_stderr w1 @ prefixedUserError (pe_arg0 env) (''error: '' @ pe_text env e)\<rparr>
     | _ \<Rightarrow> w1)"
    using assms False
    by (cases "pe_ReadInConfig env (config_calls (pe_UserConfigDir env))")
      (auto simp: Execute_program_def Execute_def file_values_def Let_def split: prod.splits)
  show thesis
    using run code w' that(2-4) by (cases r) (auto simp: Execute_def)
qed

lemma prefixedUserError_ends: "prefixedUserError arg0 m \<noteq> [] \<and> last (prefixedUserError arg0 m) = CHR 0x0A"
  by (cases m rule: rev_cases) (auto simp: prefixedUserError_def has_suffix_def)

lemma execute_invoked:
  assumes "pe_parse env (root_command env) args = Invoke c given_flags rest"
  shows "execute_root env vals args w = run_command env
    (config_of (pe_viper env) (program_calls (pe_UserConfigDir env) (osArch (pe_os env) (pe_arch env))) given_flags vals)
    c rest w"
  using assms by (simp add: execute_root_def root_command_def program_calls_def split_beta)

lemma execute_standalone:
  assumes "viper_ok (pe_viper env)"
    and "pe_parse env (root_command env) args = Invoke c given_flags rest"
    and "c \<in> set (commands_of (root_command env))" and "cmd_Run c = Some RunStandalone"
    and "holds_settings v (resolve given_flags vals) (osArch (pe_os env) (pe_arch env))"
  shows "\<exists>level. execute_root env vals args w =
    (let (obs, r, files) = standalone_command v (pe_alone env) (pe_notExist env) rest (pw_files w)
     in (obs, r, if validateStandaloneArgs (pe_notExist env) rest = Ok ()
                 then w\<lparr>pw_level := level, pw_files := files\<rparr> else w))"
proof -
  let ?arch = "osArch (pe_os env) (pe_arch env)"
  let ?calls = "program_calls (pe_UserConfigDir env) ?arch"
  let ?c = "config_of (pe_viper env) ?calls given_flags vals"
  have same: "runStandalone ?c = runStandalone v" by (rule commands_decided(2) [OF assms(1,5) HOL.refl])
  have "cmd_Args c = Some ValidateStandaloneArgs"
    using standalone_validated assms(3,4) unfolding root_command_def by blast
  then show ?thesis
    using execute_invoked [OF assms(2), of vals w] validate_no_panic [of "pe_notExist env" rest] assms(4)
    by (cases "validateStandaloneArgs (pe_notExist env) rest")
      (auto simp: run_command_def validate_args_def run_handler_def standalone_command_def same Let_def split: prod.splits)
qed

section \<open>Properties\<close>

text \<open>
  C4: the program, run for the standalone command. When it ends with the exit code zero, its arguments were existing paths, the
  test cases and at least one configuration; every test case file that was discovered has been
  run with the settings that the flags, the configuration file and the defaults give, and the
  comparison of the events that Logstash wrote for it has passed, with its results among those published; an
  observer that is not silenced and has subscribed in time has summed up exactly the published
  results; and \<open>Execute\<close> has printed no error. Otherwise, short of a panic, the configuration file
  was broken, or an error was printed on a line, or the program was to use sockets and could not
  listen on the one of some test case file, which ends the process at once. In every case but this
  last one nothing new is left below its temporary directory. A process that a signal kills is not
  considered; an error of the operating system is not taken for the end of the process.
\<close>

theorem program_standalone_correct:
  assumes run: "Execute_program env args w = (obs, code, w')"
    and viper: "viper_ok (pe_viper env)"
    and parse: "pe_parse env (root_command env) args = Invoke c given_flags rest"
    and cmd: "c \<in> set (commands_of (root_command env))" "cmd_Run c = Some RunStandalone"
    and v: "holds_settings v (resolve given_flags (file_values env)) (osArch (pe_os env) (pe_arch env))"
    and temp: "iv_MkdirTemp (ao_inv (pe_alone env)) = Ok tempDir"
    and system: "\<forall>e \<in> system_errors (ao_sockets (pe_alone env)). \<not> is_fatal e"
  shows "(code = Ok 0 \<longrightarrow> 2 \<le> length rest \<and> (\<forall>a \<in> set rest. \<not> pe_notExist env a) \<and>
      (\<exists>rs. all_passed (pe_alone env) (standalone_of v (hd rest) (tl rest)) rs \<and> (\<forall>x \<in> set rs. r_Status x) \<and>
        (v_Bool v ''quiet'' \<longrightarrow> obs = None) \<and>
        (\<not> v_Bool v ''quiet'' \<and> ao_late (pe_alone env) = 0 \<longrightarrow> obs = Some (observe_run rs))) \<and>
      pw_stderr w' = pw_stderr w) \<and>
    (code \<noteq> Panic \<longrightarrow>
      ((\<forall>p. under tempDir p \<and> mget (pw_files w) p = None \<longrightarrow> mget (pw_files w') p = None) \<and>
       (code = Ok 0 \<or> (\<exists>e. pe_ReadInConfig env (config_calls (pe_UserConfigDir env)) = ConfigBroken e) \<or>
         (\<exists>m. pw_stderr w' = pw_stderr w @ m \<and> m \<noteq> [] \<and> last m = CHR 0x0A))) \<or>
      (code = Ok 1 \<and> v_Bool v ''sockets'' \<and>
       (\<exists>tests. DiscoverTests (ao_tc_files (pe_alone env)) (ao_tc_env (pe_alone env)) (hd rest) = Ok tests \<and>
         (\<exists>i < length tests. si_Listen (so_stream (ao_sockets (pe_alone env)) i) \<noteq> None))))"
proof -
  obtain o1 r files where sc: "standalone_command v (pe_alone env) (pe_notExist env) rest (pw_files w) = (o1, r, files)"
    by (rule prod_cases3)
  obtain level where ex: "execute_root env (file_values env) args w =
      (o1, r, if validateStandaloneArgs (pe_notExist env) rest = Ok ()
              then w\<lparr>pw_level := level, pw_files := files\<rparr> else w)"
    using execute_standalone [OF viper parse cmd v, of w] unfolding sc by auto
  note facts = standalone_command_correct [OF sc temp, of ConfigOk, unfolded Execute_zero]
  from run show ?thesis
  proof (cases rule: program_cases)
    case (broken e)
    then show ?thesis by simp
  next
    case (success w1)
    with ex have "obs = o1" "r = Ok ()" "pw_stderr w1 = pw_stderr w" "pw_files w1 \<in> {files, pw_files w}"
      by (auto split: if_splits)
    with success facts show ?thesis by auto
  next
    case (failed e w1)
    with ex have r: "r = Err e" "pw_stderr w1 = pw_stderr w" "pw_files w1 \<in> {files, pw_files w}"
      by (auto split: if_splits)
    show ?thesis
    proof (cases "is_fatal e")
      case True
      with failed r facts system show ?thesis by auto
    next
      case False
      with failed r facts prefixedUserError_ends show ?thesis by auto
    qed
  next
    case (panic w1)
    then show ?thesis by simp
  qed
qed

section \<open>A small example\<close>

definition sample_given :: given_flags where
  "sample_given f =
     (if fl_command f = ''standalone'' then
        (if fl_name f = ''quiet'' then Some (SBool True)
         else if fl_name f = ''diff-command'' then Some (SString ''diff'')
         else if fl_name f = ''logstash-version'' then Some (SString ''7.0.0'') else None)
      else None)"

definition sample_program_with :: "(command \<Rightarrow> string list \<Rightarrow> parsed)
    \<Rightarrow> (test_run \<Rightarrow> 'w \<Rightarrow> observer_state result option \<times> unit result \<times> 'w)
    \<Rightarrow> (plugin_type \<Rightarrow> sample_plugin list, sample_plugin, string \<times> string, string, 'w) program_env" where
  "sample_program_with parser run = \<lparr>pe_arg0 = ''lfv'', pe_text = (\<lambda>e. ''failed''), pe_os = ''linux'', pe_arch = ''amd64'',
     pe_UserConfigDir = Ok ''/home'', pe_viper = sample_viper, pe_ReadInConfig = (\<lambda>calls. ConfigNotFound), pe_file = (\<lambda>k. None),
     pe_parse = parser, pe_LogLevel = Ok,
     pe_notExist = (\<lambda>p. False), pe_alone = sample_alone_io, pe_newVersion = Ok,
     pe_setup = \<lparr>dl_before = (\<lambda>a b. False), dl_MkdirAll = None, dl_Get = (\<lambda>u. Ok []), dl_OpenFile = None, dl_Copy = None,
       dl_unarchive = (\<lambda>b. (True, None))\<rparr>,
     pe_start = sample_start, pe_nil_sessions = sample_sctl, pe_dial = (\<lambda>s. None), pe_abs = Ok, pe_getwd = Ok ''/'',
     pe_run = run\<rparr>"

definition sample_program :: "(plugin_type \<Rightarrow> sample_plugin list, sample_plugin, string \<times> string, string, unit) program_env" where
  "sample_program = sample_program_with (\<lambda>root args. Invoke (hd (cmd_Commands root)) sample_given args) (\<lambda>t w. (None, Ok (), w))"

definition sample_world :: "'w \<Rightarrow> 'w world" where
  "sample_world c = \<lparr>pw_files = [], pw_daemon = empty_daemon, pw_client = c, pw_level = None, pw_cleaned = None, pw_stderr = []\<rparr>"

lemma sample_program_with_fields [simp]:
  "pe_viper (sample_program_with parser run) = sample_viper" "pe_parse (sample_program_with parser run) = parser"
  "pe_run (sample_program_with parser run) = run" "osArch (pe_os (sample_program_with parser run)) (pe_arch (sample_program_with parser run)) = ''linux-x86_64''"
  "file_values (sample_program_with parser run) = (\<lambda>k. None)" "pe_alone (sample_program_with parser run) = sample_alone_io"
  "pe_notExist (sample_program_with parser run) = (\<lambda>p. False)" "pe_abs (sample_program_with parser run) = Ok"
  "pe_getwd (sample_program_with parser run) = Ok ''/''"
  by (simp_all add: sample_program_with_def osArch_def file_values_def)

lemma sample_program_executed:
  "execute_root (sample_program_with parser run) (\<lambda>k. None) args w = (obs, Ok (), w') \<Longrightarrow>
   Execute_program (sample_program_with parser run) args w = (obs, Ok 0, w')"
  by (simp add: Execute_program_def sample_program_with_def Execute_def)

definition sample_settings :: "given_flags \<Rightarrow> config" where
  "sample_settings given_flags =
     config_of sample_viper (program_calls (Ok ''/home'') ''linux-x86_64'') given_flags (\<lambda>k. None)"

lemma sample_settings_held:
  "\<forall>(k, f) \<in> set (bindings ''linux-x86_64''). same_type (resolve given_flags (\<lambda>k. None) k f) (fl_default f) \<Longrightarrow>
   holds_settings (sample_settings given_flags) (resolve given_flags (\<lambda>k. None)) ''linux-x86_64''"
  unfolding sample_settings_def by (rule config_of_settings [OF sample_viper_ok])

lemma sample_given_typed:
  "\<forall>(k, f) \<in> set (bindings ''linux-x86_64''). same_type (resolve sample_given (\<lambda>k. None) k f) (fl_default f)"
  unfolding bindings_def flag_tables Let_def
  by (simp add: mk_flag_def resolve_def sample_given_def fallback_def same_type_def seconds_def milliseconds_def)

lemma sample_settings_standalone:
  "standalone_of (sample_settings sample_given) ''/c.json'' [''/b/x''] = sample_standalone" "v_Bool (sample_settings sample_given) ''quiet''"
  unfolding sample_settings_def config_of_def Let_def standalone_of_def config.select_convs sample_viper_def viper.select_convs
    precedence_def bound_flag_program default_value_program bindings_def flag_tables
  by (simp_all add: config_calls_def mk_flag_def sample_given_def sample_standalone_def seconds_def)

theorem program_standalone_correct_witness:
  "\<exists>w'. Execute_program sample_program [''/c.json'', ''/b/x''] (sample_world ()) = (None, Ok 0, w') \<and>
    mget (pw_files w') ''/t/pipeline.d/x'' = None \<and> pw_stderr w' = [] \<and>
    (\<exists>rs. all_passed sample_alone_io sample_standalone rs)"
proof -
  let ?env = sample_program and ?args = "[''/c.json'', ''/b/x'']" and ?v = "sample_settings sample_given"
  note env = sample_program_def
  obtain c where parse: "pe_parse ?env (root_command ?env) ?args = Invoke c sample_given ?args"
    and c: "c \<in> set (commands_of (root_command ?env))" "cmd_Run c = Some RunStandalone"
    by (simp add: env root_command_def makeRootCmd_def makeStandaloneCmd_def split_beta)
  have viper: "viper_ok (pe_viper ?env)" by (simp add: env sample_viper_ok)
  have v: "holds_settings ?v (resolve sample_given (file_values ?env)) (osArch (pe_os ?env) (pe_arch ?env))"
    using sample_settings_held [OF sample_given_typed] by (simp add: env)
  obtain f where sc: "standalone_command ?v sample_alone_io (\<lambda>p. False) ?args [] = (None, Ok (), f)"
    using sample_standalone_command [OF sample_settings_standalone(1)] .
  have fields: "pe_alone ?env = sample_alone_io" "pe_notExist ?env = (\<lambda>p. False)" "pw_files (sample_world ()) = []"
    "pw_stderr (sample_world ()) = []" by (simp_all add: env sample_world_def)
  obtain w' where "execute_root ?env (file_values ?env) ?args (sample_world ()) = (None, Ok (), w')"
    using execute_standalone [OF viper parse c v, of "sample_world ()"] unfolding fields sc by auto
  then have run: "Execute_program ?env ?args (sample_world ()) = (None, Ok 0, w')"
    unfolding env by (intro sample_program_executed) simp
  have temp: "iv_MkdirTemp (ao_inv (pe_alone ?env)) = Ok ''/t''" by (simp add: fields sample_alone_io_def sample_inv_io_def)
  have system: "\<forall>e \<in> system_errors (ao_sockets (pe_alone ?env)). \<not> is_fatal e"
    by (simp add: fields system_errors_def sample_alone_io_def sample_sockets_def sample_proc_io_def)
  have sockets: "\<not> v_Bool ?v ''sockets''"
    using arg_cong [OF sample_settings_standalone(1), of al_unixSockets]
    by (simp add: standalone_of_def sample_standalone_def)
  have "under ''/t'' ''/t/pipeline.d/x''" by (simp add: under_def has_prefix_def)
  then show ?thesis
    using program_standalone_correct [OF run viper parse c v temp system] run sample_settings_standalone
    by (auto simp: fields sockets)
qed

end
