(* ===== verification/Daemon_Mode.thy ===== *)
theory Daemon_Mode
  imports Commands Answers
begin

text \<open>
  The daemon mode as a whole: the command of \<open>daemon_run.go\<close> with the client of \<open>run.go\<close> over the calls of
  \<open>daemon.go\<close>, one client at a time. The environment of each call, which is what Logstash, the
  files and the pool do, is selected by the number of calls so far.
\<close>

text \<open>The call of \<open>SetupTest\<close>. When it has to wait for another session to end, \<open>wake\<close> is the rest of the call.\<close>

definition setup_call :: "(nat \<Rightarrow> handler_env) \<Rightarrow> (nat \<Rightarrow> pool_env) \<Rightarrow> (nat \<Rightarrow> session_env) \<Rightarrow> ('cfg, 'pl, 'at) ast_lib
    \<Rightarrow> (nat \<Rightarrow> string) \<Rightarrow> (daemon \<times> nat \<Rightarrow> string result \<times> daemon \<times> nat) \<Rightarrow> string \<Rightarrow> daemon \<times> nat
    \<Rightarrow> string result \<times> daemon \<times> nat" where
  "setup_call h pe se al gen wake b = (\<lambda>(d, k).
     case SetupTest (h k) False (pe k) (se k) al gen b d of
       (None, d) \<Rightarrow> wake (d, k)
     | (Some r, d) \<Rightarrow> (r, d, Suc k))"

section \<open>The session of a run\<close>

lemma Create_Ok:
  assumes "Create woken pe env al gen ps fs c = (Created (Ok sid), c')"
  obtains s where "sid = gen (sc_ids c)" "sc_sessions c' = mput sid s (sc_sessions c)" "sc_wg c' = Suc (sc_wg c)"
  using assms by (cases rule: Create_cases) auto

lemma Create_waits: "Create False pe env al gen ps fs c = (Waiting, c') \<Longrightarrow> 1 < length (sc_sessions c)"
  by (cases rule: Create_cases [of False pe env al gen ps fs c Waiting c'])
    (auto simp: Create_def Let_def split: if_splits prod.splits result.splits)

lemma setup_call_Ok:
  assumes "setup_call h pe se al gen wake b (d, k) = (Ok sid, d', k')"
    and "length (sc_sessions (d_sessions d)) \<le> 1"
  obtains s where "sid = gen (sc_ids (d_sessions d))" "sc_sessions (d_sessions d') = mput sid s (sc_sessions (d_sessions d))"
    "sc_wg (d_sessions d') = Suc (sc_wg (d_sessions d))" "k' = Suc k"
proof -
  obtain q d1 where q: "SetupTest (h k) False (pe k) (se k) al gen b d = (q, d1)" by fastforce
  have "q \<noteq> None"
    using q assms(2) by (auto simp: SetupTest_def dest: Create_waits split: if_splits result.splits prod.splits create_outcome.splits)
  with q assms(1) have "SetupTest (h k) False (pe k) (se k) al gen b d = (Some (Ok sid), d')" and k: "k' = Suc k"
    by (auto simp: setup_call_def)
  then obtain ps fs c where "Create False (pe k) (se k) al gen ps fs (d_sessions d) = (Created (Ok sid), c)" "d' = d\<lparr>d_sessions := c\<rparr>"
    by (auto simp: SetupTest_def split: if_splits result.splits prod.splits create_outcome.splits)
  with k that show thesis by (auto elim!: Create_Ok)
qed

lemma setup_call_fresh:
  assumes "sctl_inv gen (d_sessions d)" and "inj gen"
  shows "mget (sc_sessions (d_sessions d)) (gen (sc_ids (d_sessions d))) = None"
proof -
  have "gen (sc_ids (d_sessions d)) \<notin> gen ` {..<sc_ids (d_sessions d)}" using assms(2) by (auto dest: injD)
  then show ?thesis using assms(1) unfolding sctl_inv_def by (auto simp: mkeys_iff)
qed

section \<open>The command\<close>

lemma Run_archive_cases:
  assumes "Run_archive cl env s archive tests dialErr w = (obs, r, w')"
  obtains (failed) "obs = None" "\<not> is_ok r"
  | (session) b inputs ts sid w1 o1 where "archive = Ok (b, inputs)" "tests = Ok ts" "first_unknown_input ts inputs = None"
      "cl_SetupTest cl b w = (Ok sid, w1)" "obs = Some o1" "run_session_tests cl env s sid ts w1 = (o1, r, w')"
  using assms unfolding Run_archive_def check_def
  by (auto split: result.splits prod.splits option.splits)

lemma New_run_flags:
  "New_run absp getwd s = Ok t \<Longrightarrow> tr_debug t = tr_debug s \<and> tr_metadataKey t = tr_metadataKey s \<and>
     tr_testcasePath t = tr_testcasePath s"
  by (auto simp: New_run_def)

lemma Run_cases:
  assumes "Run cl env rf s w = (obs, r, w')"
  obtains (failed) "obs = None" "\<not> is_ok r"
  | (session) t b inputs ts sid w1 o1 where "tr_debug t = tr_debug s" "tr_metadataKey t = tr_metadataKey s"
      "DiscoverTests (rf_tc_files rf) (rf_tc_env rf) (tr_testcasePath s) = Ok ts" "first_unknown_input ts inputs = None"
      "cl_SetupTest cl b w = (Ok sid, w1)" "obs = Some o1" "run_session_tests cl env t sid ts w1 = (o1, r, w')"
proof -
  let ?prep = "if tr_logstashConfig s \<noteq> []
      then rbind (createImplicitPipeline (rf_implicit rf) s []) (\<lambda>(pipelineFile, files).
             Ok (s\<lparr>tr_pipeline := pipelineFile, tr_pipelineBase := []\<rparr>, files))
      else Ok (s, [])"
  show thesis
  proof (cases ?prep)
    case (Ok q)
    then obtain t files where q: "q = (t, files)"
      and t: "tr_debug t = tr_debug s" "tr_metadataKey t = tr_metadataKey s" "tr_testcasePath t = tr_testcasePath s"
      by (auto split: if_splits)
    from assms have "Run_archive cl env t (build_archive rf t files)
        (DiscoverTests (rf_tc_files rf) (rf_tc_env rf) (tr_testcasePath t)) (rf_dial rf) w = (obs, r, w')"
      unfolding Run_def Ok q by simp
    then show thesis
      by (cases rule: Run_archive_cases) (use t failed session in auto)
  qed (use assms failed in \<open>auto simp: Run_def\<close>)
qed

text \<open>
  The command of the daemon mode. When the program ends with the exit code zero, at most one of the flags for a
  pipeline and for a configuration was given, every test case file that was discovered has been
  answered by the daemon with results that, processed and decoded, have passed their comparison,
  and the observer has summed up exactly the published results, all of which have passed.
  However the command ends once its session was set up, with a panic of the main goroutine too, the
  daemon then has the very sessions that it had before, unless the observer's goroutine has
  panicked; it cannot when it subscribes in time.
\<close>

lemma daemon_command_correct:
  fixes al :: "('cfg, 'pl, 'at) ast_lib" and rf :: "('c, 'p, 'a) run_files"
  assumes "runDaemonRun v absp getwd (Run (daemon_client h se (setup_call h pe se al gen wake)) env rf) (d, k)
      = (obs, r, d', k')"
    and "sctl_inv gen (d_sessions d)" and "inj gen" and "length (sc_sessions (d_sessions d)) \<le> 1"
  shows "(Execute cfg r = Ok 0 \<longrightarrow> (v_String v ''pipeline'' = [] \<or> v_String v ''logstash-config'' = []) \<and>
      (\<exists>tests rs. DiscoverTests (rf_tc_files rf) (rf_tc_env rf) (v_String v ''testcase-dir'') = Ok tests \<and>
        obs = Some (observed (rn_late env) rs True) \<and> (\<forall>x \<in> set rs. r_Status x) \<and>
        (\<forall>i < length tests. answered h env (test_run_of v) (Suc k + i) rs (tests ! i)))) \<and>
    (obs = Some Panic \<longrightarrow> r = Panic \<and> rn_late env \<noteq> 0) \<and>
    (obs \<noteq> None \<and> obs \<noteq> Some Panic \<longrightarrow> (\<forall>sid. GetSession sid (d_sessions d') = GetSession sid (d_sessions d)) \<and>
      sc_wg (d_sessions d') = sc_wg (d_sessions d))"
proof (cases "\<exists>t. New_run absp getwd (test_run_of v) = Ok t \<and> (v_String v ''pipeline'' = [] \<or> v_String v ''logstash-config'' = [])")
  case True
  let ?cl = "daemon_client h se (setup_call h pe se al gen wake)"
  from True obtain t where new: "New_run absp getwd (test_run_of v) = Ok t"
    and flags: "v_String v ''pipeline'' = [] \<or> v_String v ''logstash-config'' = []" by blast
  then have "Run ?cl env rf t (d, k) = (obs, r, d', k')" using assms(1) by (auto simp: runDaemonRun_def)
  then show ?thesis
  proof (cases rule: Run_cases)
    case failed
    then show ?thesis by (auto simp: Execute_zero)
  next
    case (session u b inputs ts sid w1 o1)
    obtain d1 k1 where w1: "w1 = (d1, k1)" by fastforce
    from session(5) have "setup_call h pe se al gen wake b (d, k) = (Ok sid, d1, k1)" by (simp add: daemon_client_def w1)
    then obtain s where sid: "sid = gen (sc_ids (d_sessions d))" and s: "sc_sessions (d_sessions d1) = mput sid s (sc_sessions (d_sessions d))"
      and wg: "sc_wg (d_sessions d1) = Suc (sc_wg (d_sessions d))" and k1: "k1 = Suc k"
      using assms(4) by (rule setup_call_Ok)
    have fresh: "mget (sc_sessions (d_sessions d)) sid = None" using setup_call_fresh [OF assms(2,3)] sid by simp
    have "mget (sc_sessions (d_sessions d1)) sid = Some s" "0 < sc_wg (d_sessions d1)" using s wg by (simp_all add: map_simps)
    note over = run_ends_session [OF this session(7) [unfolded w1]]
    have "GetSession sid' (d_sessions d') = GetSession sid' (d_sessions d)" if "o1 \<noteq> Panic" for sid'
      using over [OF that] fresh s by (cases "sid' = sid") (auto simp: GetSession_def map_simps)
    moreover have "sc_wg (d_sessions d') = sc_wg (d_sessions d)" if "o1 \<noteq> Panic" using over [OF that] wg by simp
    moreover have "o1 = Panic \<longrightarrow> r = Panic \<and> rn_late env \<noteq> 0"
      using run_session_tests_Panic [OF session(7)] by blast
    moreover have "\<exists>rs. obs = Some (observed (rn_late env) rs True) \<and> (\<forall>x \<in> set rs. r_Status x) \<and>
        (\<forall>i < length ts. answered h env (test_run_of v) (Suc k + i) rs (ts ! i))" if r: "r = Ok ()"
    proof -
      from session(7) [unfolded w1 r] obtain rs w2 where ts: "run_tests ?cl env u sid ts True (d1, k1) = (rs, Ok True, w2)"
        and o1: "o1 = observed (rn_late env) rs True" by (rule run_session_tests_Ok)
      have "answered h env u i rs t' = answered h env (test_run_of v) i rs t'" for i t'
        by (rule answered_cong) (use session(1,2) New_run_flags [OF new] in simp_all)
      with daemon_answers.run_tests_answered [OF ts] run_tests_verdict [OF ts] o1 session(6) k1 show ?thesis by auto
    qed
    ultimately show ?thesis using session(3,6) New_run_flags [OF new] flags
      by (auto simp: Execute_zero test_run_of_def)
  qed
qed (use assms(1) in \<open>auto simp: runDaemonRun_def Execute_zero split: if_splits result.splits\<close>)

section \<open>A small example\<close>

definition sample_flags :: config where
  "sample_flags = \<lparr>v_String = (\<lambda>k. if k = ''pipeline'' then ''/b/pipelines.yml'' else if k = ''pipeline-base'' then ''/b''
       else if k = ''testcase-dir'' then ''/t.json'' else []), v_Strings = (\<lambda>k. []), v_Bool = (\<lambda>k. False), v_Duration = (\<lambda>k. 0)\<rparr>"

definition sample_rf :: "(plugin_type \<Rightarrow> sample_plugin list, sample_plugin, string \<times> string) run_files" where
  "sample_rf = \<lparr>rf_implicit = \<lparr>im_IsDir = (\<lambda>p. Ok False), im_MkdirTemp = Ok ''/i'', im_Marshal = (\<lambda>p. Ok []), im_write = (\<lambda>p. None)\<rparr>,
     rf_zip = (\<lambda>files. sample_zip_env), rf_unyaml = (\<lambda>b. Ok [mk_pipeline ''main'' ''main.conf'' 1]), rf_ast = sample_parsed,
     rf_first_filter = (\<lambda>c. None), rf_read_mocks = (\<lambda>p. Ok []),
     rf_tc_files = \<lparr>tf_abs = Ok, tf_open = (\<lambda>p. None), tf_read = (\<lambda>p. Ok []), tf_isdir = (\<lambda>p. Ok False), tf_readdir = (\<lambda>p. Ok [])\<rparr>,
     rf_tc_env = sample_tc_env\<lparr>te_unjson := (\<lambda>_ _. Ok (default_set\<lparr>t_InputPlugin := ''in''\<rparr>))\<rparr>, rf_dial = None\<rparr>"

definition idle_daemon :: daemon where
  "idle_daemon = New_daemon ''/socket'' ''/logstash'' [] 10 3 30 False 1 sample_sctl"


definition sample_bytes :: string where
  "sample_bytes = enc_entries [(''pipelines.yml'', ''body''), (''/main.conf'', ''body'')]"

abbreviation sample_conf :: "(plugin_type \<Rightarrow> sample_plugin list) config_file" where
  "sample_conf \<equiv> \<lparr>f_Name = ''/main.conf'', f_Body = ''body'', f_config = None\<rparr>"

lemma sample_flags_run: "New_run Ok (Ok ''/'') (test_run_of sample_flags) = Ok (test_run_of sample_flags)"
  "v_String sample_flags ''logstash-config'' = []" "tr_logstashConfig (test_run_of sample_flags) = []"
  "tr_testcasePath (test_run_of sample_flags) = ''/t.json''" "rf_dial sample_rf = None"
  by (code_simp, simp_all add: sample_flags_def test_run_of_def sample_rf_def)

lemma sample_build: "\<exists>inputs. build_archive sample_rf (test_run_of sample_flags) [] = Ok (sample_bytes, inputs) \<and> mget inputs ''in'' \<noteq> None"
proof -
  have "case build_archive sample_rf (test_run_of sample_flags) [] of Ok (b, inputs) \<Rightarrow>
      b = sample_bytes \<and> mget inputs ''in'' \<noteq> None | _ \<Rightarrow> False" by code_simp
  then show ?thesis by (auto split: result.splits)
qed

lemma sample_case:
  obtains t where "DiscoverTests (rf_tc_files sample_rf) (rf_tc_env sample_rf) ''/t.json'' = Ok [t]"
    "t_InputPlugin t = ''in''" "t_InputLines t = []" "t_ExpectedEvents t = []"
proof -
  have "case DiscoverTests (rf_tc_files sample_rf) (rf_tc_env sample_rf) ''/t.json'' of
      Ok ts \<Rightarrow> length ts = 1 \<and> t_InputPlugin (hd ts) = ''in'' \<and> t_InputLines (hd ts) = [] \<and> t_ExpectedEvents (hd ts) = []
    | _ \<Rightarrow> False" by code_simp
  then show thesis using that by (auto simp: length_Suc_conv split: result.splits)
qed

lemma sample_created:
  obtains c where "Create False sample_env calm_session_env sample_parsed sample_gen [mk_pipeline ''main'' ''main.conf'' 1]
      [sample_conf] sample_sctl = (Created (Ok (sample_gen 0)), c)"
proof -
  have "case Create False sample_env calm_session_env sample_parsed sample_gen [mk_pipeline ''main'' ''main.conf'' 1]
      [sample_conf] sample_sctl of (Created (Ok sid), c) \<Rightarrow> sid = sample_gen 0 | _ \<Rightarrow> False" by code_simp
  then show thesis using that by (auto split: prod.splits create_outcome.splits result.splits)
qed

lemma sample_extract: "extractZip (h_unzip quiet_handler) (h_unyaml quiet_handler) sample_bytes
    = Ok ([mk_pipeline ''main'' ''main.conf'' 1], [sample_conf])"
proof -
  have "h_unzip quiet_handler = sample_unzip" by (simp add: quiet_handler_def sample_handler_def)
  then show ?thesis unfolding extractZip_def sample_bytes_def
    by (simp only: sample_unzip_entries) (simp add: quiet_handler_def sample_handler_def plain_entry_def extract_entry_def)
qed

text \<open>The run of the one test case in a new session.\<close>

lemma sample_session:
  assumes "mget (sc_sessions (d_sessions d)) sid = Some s" and "0 < sc_wg (d_sessions d)"
    and "t_InputLines t = []" and "t_ExpectedEvents t = []"
  shows "\<exists>obs d' k'. run_session_tests (daemon_client (\<lambda>_. quiet_handler) (\<lambda>_. calm_session_env) su) sample_run_env u sid [t] (d, k)
    = (obs, Ok (), d', k')"
proof -
  obtain d1 where ex: "ExecuteTest_call quiet_handler calm_session_env sid (t_InputPlugin t) [] [] (int32 0) d = (Ok [], d1)"
    using calm_execute [OF assms(1)] by blast
  from execute_call [OF assms(1,2) ex] obtain s1 where "mget (sc_sessions (d_sessions d1)) sid = Some s1" "0 < sc_wg (d_sessions d1)"
    using assms(2) by (auto simp: session_kept_def)
  then obtain d2 where td: "TeardownTest quiet_handler sid d1 = (Ok (), d2)" using calm_teardown by blast
  obtain rs where cmp: "Compare sample_cmp t [] [''diff'', ''-u''] = (rs, Ok True)"
    using assms(4) by (auto simp: Compare_def)
  have "run_tests (daemon_client (\<lambda>_. quiet_handler) (\<lambda>_. calm_session_env) su) sample_run_env u sid [t] True (d, k)
      = (rs, Ok True, d1, Suc k)"
    using assms(3,4) ex cmp by (simp add: run_test_def daemon_client_def sample_run_env_def postProcessResults_def)
  moreover obtain o1 where "observed 0 rs True = Ok o1" using observed_in_time_Ok by blast
  ultimately show ?thesis using td
    by (simp add: run_session_tests_def end_session_def daemon_client_def sample_run_env_def)
qed

text \<open>The whole command, with settings that select this run.\<close>

lemma sample_daemon_command:
  assumes "test_run_of v = test_run_of sample_flags"
  obtains obs d' k' where "runDaemonRun v Ok (Ok ''/'') (Run (daemon_client (\<lambda>_. quiet_handler) (\<lambda>_. calm_session_env)
      (setup_call (\<lambda>_. quiet_handler) (\<lambda>_. sample_env) (\<lambda>_. calm_session_env) sample_parsed sample_gen (\<lambda>w. (Panic, w))))
      sample_run_env sample_rf) (idle_daemon, 0) = (Some obs, Ok (), d', k')"
proof -
  let ?su = "setup_call (\<lambda>_. quiet_handler) (\<lambda>_. sample_env) (\<lambda>_. calm_session_env) sample_parsed sample_gen (\<lambda>w. (Panic, w))"
  let ?cl = "daemon_client (\<lambda>_. quiet_handler) (\<lambda>_. calm_session_env) ?su" and ?t = "test_run_of sample_flags"
  let ?env = sample_run_env and ?rf = sample_rf
  obtain t where t: "DiscoverTests (rf_tc_files ?rf) (rf_tc_env ?rf) ''/t.json'' = Ok [t]"
    "t_InputPlugin t = ''in''" "t_InputLines t = []" "t_ExpectedEvents t = []" using sample_case .
  obtain inputs where b: "build_archive ?rf ?t [] = Ok (sample_bytes, inputs)" "mget inputs ''in'' \<noteq> None"
    using sample_build by blast
  obtain c where c: "Create False sample_env calm_session_env sample_parsed sample_gen [mk_pipeline ''main'' ''main.conf'' 1]
      [sample_conf] sample_sctl = (Created (Ok (sample_gen 0)), c)" using sample_created .
  let ?d = "idle_daemon\<lparr>d_sessions := c\<rparr>"
  have su: "?su sample_bytes (idle_daemon, 0) = (Ok (sample_gen 0), ?d, Suc 0)"
    using c by (simp add: setup_call_def SetupTest_def sample_extract idle_daemon_def New_daemon_def)
  obtain s where "sc_sessions c = mput (sample_gen 0) s (sc_sessions sample_sctl)" "sc_wg c = Suc (sc_wg sample_sctl)"
    using c by (rule Create_Ok)
  then have s: "mget (sc_sessions (d_sessions ?d)) (sample_gen 0) = Some s" "0 < sc_wg (d_sessions ?d)"
    by (simp_all add: map_simps)
  obtain obs d' k' where run: "run_session_tests ?cl ?env ?t (sample_gen 0) [t] (?d, Suc 0) = (obs, Ok (), d', k')"
    using sample_session [OF s t(3,4)] by blast
  have "Run_archive ?cl ?env ?t (build_archive ?rf ?t []) (DiscoverTests (rf_tc_files ?rf) (rf_tc_env ?rf) ''/t.json'')
      (rf_dial ?rf) (idle_daemon, 0) = (Some obs, Ok (), d', k')"
    using run su b(2) t(2) unfolding Run_archive_def b(1) t(1)
    by (simp add: first_unknown_input_def sample_flags_run check_def) (simp add: daemon_client_def)
  then have "Run ?cl ?env ?rf ?t (idle_daemon, 0) = (Some obs, Ok (), d', k')" by (simp add: Run_def sample_flags_run)
  moreover have "v_String v ''logstash-config'' = []"
    using arg_cong [OF assms, of tr_logstashConfig] sample_flags_run(3) by (simp add: test_run_of_def)
  ultimately have "runDaemonRun v Ok (Ok ''/'') (Run ?cl ?env ?rf) (idle_daemon, 0) = (Some obs, Ok (), d', k')"
    by (simp add: runDaemonRun_def assms sample_flags_run(1))
  then show thesis by (rule that)
qed

lemma sample_idle: "sctl_inv sample_gen (d_sessions idle_daemon)" "length (sc_sessions (d_sessions idle_daemon)) \<le> 1"
    "sc_wg (d_sessions idle_daemon) = 0"
  using sample_inv(3) by (simp_all add: idle_daemon_def New_daemon_def sample_fields)

end
