(* ===== verification/Daemon_Program.thy ===== *)
theory Daemon_Program
  imports Program Daemon_Mode
begin

text \<open>
  The program run for the daemon mode's command: \<open>Execute\<close> and \<open>runDaemonRun\<close> over the client of
  Daemon_Mode, from the arguments of the command line to the exit code and to the state of the daemon.
\<close>

section \<open>Facts\<close>

lemma daemon_run_args:
  "c \<in> set (commands_of (fst (makeRootCmd arch))) \<Longrightarrow> cmd_Run c = Some RunDaemonRun \<Longrightarrow> cmd_Args c = None"
  by (auto simp: makeRootCmd_def makeStandaloneCmd_def makeDaemonCmd_def makeDaemonStartCmd_def
      makeDaemonShutdownCmd_def makeDaemonRunCmd_def makeSetupCmd_def)

lemma execute_daemon_run:
  assumes "viper_ok (pe_viper env)"
    and "pe_parse env (root_command env) args = Invoke c given_flags rest"
    and "c \<in> set (commands_of (root_command env))" and "cmd_Run c = Some RunDaemonRun"
    and "holds_settings v (resolve given_flags vals) (osArch (pe_os env) (pe_arch env))"
  shows "\<exists>level. execute_root env vals args w =
    (let (obs, r, cl) = runDaemonRun v (pe_abs env) (pe_getwd env) (pe_run env) (pw_client w)
     in (obs, r, w\<lparr>pw_level := level, pw_client := cl\<rparr>))"
proof -
  let ?c = "config_of (pe_viper env) (program_calls (pe_UserConfigDir env) (osArch (pe_os env) (pe_arch env))) given_flags vals"
  have same: "runDaemonRun ?c = runDaemonRun v" by (rule commands_decided(4) [OF assms(1,5) HOL.refl])
  have "cmd_Args c = None" using daemon_run_args assms(3,4) unfolding root_command_def by blast
  with execute_invoked [OF assms(2), of vals w] assms(4) show ?thesis
    by (auto simp: run_command_def validate_args_def run_handler_def same Let_def split: prod.splits)
qed

section \<open>Properties\<close>

text \<open>
  C3: the program, run for the command of the daemon mode. When it ends with the exit code zero, at most one of
  the settings for a pipeline and for a configuration was made, by flag or by file; every test
  case file that was discovered has been answered by the daemon with results that, processed and decoded, have
  passed their comparison, all published results have passed, an observer that has subscribed in
  time has summed up exactly them, and \<open>Execute\<close> has printed no error. However the program ends by
  itself once its session was set up, with a panic of its main goroutine too, the daemon then has
  the very sessions that it had before. The exception is a panic of the observer's goroutine, which
  ends the process with a panic and without the teardown; it needs a late subscription. This is for
  a daemon that no other client uses meanwhile and that has at most one session before, so that
  the set-up does not wait, and for a process that no signal kills.
\<close>

theorem program_daemon_correct:
  fixes al :: "('cfg, 'pl, 'at) ast_lib" and rf :: "('c, 'p, 'a) run_files"
  assumes run: "Execute_program env args w = (obs, code, w')"
    and viper: "viper_ok (pe_viper env)"
    and parse: "pe_parse env (root_command env) args = Invoke c given_flags rest"
    and cmd: "c \<in> set (commands_of (root_command env))" "cmd_Run c = Some RunDaemonRun"
    and v: "holds_settings v (resolve given_flags (file_values env)) (osArch (pe_os env) (pe_arch env))"
    and client: "pe_run env = Run (daemon_client h se (setup_call h pe se al gen wake)) cenv rf"
    and worlds: "pw_client w = (d, k)" "pw_client w' = (d', k')"
    and daemon: "sctl_inv gen (d_sessions d)" "inj gen" "length (sc_sessions (d_sessions d)) \<le> 1"
  shows "(code = Ok 0 \<longrightarrow> (v_String v ''pipeline'' = [] \<or> v_String v ''logstash-config'' = []) \<and>
      (\<exists>tests rs. DiscoverTests (rf_tc_files rf) (rf_tc_env rf) (v_String v ''testcase-dir'') = Ok tests \<and>
        obs = Some (observed (rn_late cenv) rs True) \<and> (rn_late cenv = 0 \<longrightarrow> obs = Some (observe_run rs)) \<and>
        (\<forall>x \<in> set rs. r_Status x) \<and>
        (\<forall>i < length tests. answered h cenv (test_run_of v) (Suc k + i) rs (tests ! i))) \<and>
      pw_stderr w' = pw_stderr w) \<and>
    (obs = Some Panic \<longrightarrow> code = Panic \<and> rn_late cenv \<noteq> 0) \<and>
    (obs \<noteq> None \<and> obs \<noteq> Some Panic \<longrightarrow> (\<forall>sid. GetSession sid (d_sessions d') = GetSession sid (d_sessions d)) \<and>
      sc_wg (d_sessions d') = sc_wg (d_sessions d))"
proof -
  obtain o1 r d1 k1 where dr: "runDaemonRun v (pe_abs env) (pe_getwd env) (pe_run env) (d, k) = (o1, r, d1, k1)"
    by (metis prod_cases4)
  obtain level where ex: "execute_root env (file_values env) args w =
      (o1, r, w\<lparr>pw_level := level, pw_client := (d1, k1)\<rparr>)"
    using execute_daemon_run [OF viper parse cmd v, of w] unfolding worlds(1) dr by auto
  note facts = daemon_command_correct [OF dr [unfolded client] daemon, of ConfigOk, unfolded Execute_zero]
  from run show ?thesis
  proof (cases rule: program_cases)
    case (broken e)
    then show ?thesis by simp
  next
    case (success w1)
    with ex have "obs = o1" "r = Ok ()" "pw_stderr w' = pw_stderr w" "(d', k') = (d1, k1)" using worlds(2) by auto
    with facts show ?thesis by auto
  next
    case (failed e w1)
    with ex have "obs = o1" "r = Err e" "(d', k') = (d1, k1)"
      using worlds(2) by (auto split: if_splits)
    with facts failed show ?thesis by auto
  next
    case (panic w1)
    with ex have "obs = o1" "(d', k') = (d1, k1)" using worlds(2) by auto
    with facts panic show ?thesis by auto
  qed
qed

section \<open>A small example\<close>

definition sample_run_given :: given_flags where
  "sample_run_given f = (if fl_command f \<in> {''run'', ''daemon''} then
     map_of [(''pipeline'', SString ''/b/pipelines.yml''), (''pipeline-base'', SString ''/b''), (''testcase-dir'', SString ''/t.json''),
       (''metadata-key'', SString []), (''socket'', SString [])] (fl_name f) else None)"

definition sample_daemon_program ::
    "(plugin_type \<Rightarrow> sample_plugin list, sample_plugin, string \<times> string, string, daemon \<times> nat) program_env" where
  "sample_daemon_program = sample_program_with
     (\<lambda>root args. Invoke (cmd_Commands (cmd_Commands root ! 1) ! 2) sample_run_given [])
     (Run (daemon_client (\<lambda>_. quiet_handler) (\<lambda>_. calm_session_env)
        (setup_call (\<lambda>_. quiet_handler) (\<lambda>_. sample_env) (\<lambda>_. calm_session_env) sample_parsed sample_gen (\<lambda>w. (Panic, w))))
        sample_run_env sample_rf)"

lemma sample_run_given_typed:
  "\<forall>(k, f) \<in> set (bindings ''linux-x86_64''). same_type (resolve sample_run_given (\<lambda>k. None) k f) (fl_default f)"
  unfolding bindings_def flag_tables Let_def
  by (simp add: mk_flag_def resolve_def sample_run_given_def fallback_def same_type_def seconds_def milliseconds_def)

lemma sample_run_settings: "test_run_of (sample_settings sample_run_given) = test_run_of sample_flags"
  unfolding sample_settings_def config_of_def Let_def test_run_of_def config.select_convs sample_viper_def viper.select_convs
    precedence_def bound_flag_program default_value_program bindings_def flag_tables sample_flags_def
  by (simp add: config_calls_def mk_flag_def sample_run_given_def)

theorem program_daemon_correct_witness:
  "\<exists>rs w'. Execute_program sample_daemon_program [''daemon'', ''run''] (sample_world (idle_daemon, 0)) = (Some (observe_run rs), Ok 0, w') \<and>
    rs \<noteq> [] \<and> sc_wg (d_sessions (fst (pw_client w'))) = 0"
proof -
  let ?env = sample_daemon_program and ?args = "[''daemon'', ''run'']" and ?v = "sample_settings sample_run_given"
  let ?w = "sample_world (idle_daemon, 0)"
  note env = sample_daemon_program_def
  obtain c where parse: "pe_parse ?env (root_command ?env) ?args = Invoke c sample_run_given []"
    and c: "c \<in> set (commands_of (root_command ?env))" "cmd_Run c = Some RunDaemonRun"
    by (simp add: env root_command_def makeRootCmd_def makeDaemonCmd_def makeDaemonStartCmd_def
        makeDaemonShutdownCmd_def makeDaemonRunCmd_def split_beta)
  have viper: "viper_ok (pe_viper ?env)" by (simp add: env sample_viper_ok)
  have v: "holds_settings ?v (resolve sample_run_given (file_values ?env)) (osArch (pe_os ?env) (pe_arch ?env))"
    using sample_settings_held [OF sample_run_given_typed] by (simp add: env)
  have client: "pe_run ?env = Run (daemon_client (\<lambda>_. quiet_handler) (\<lambda>_. calm_session_env)
      (setup_call (\<lambda>_. quiet_handler) (\<lambda>_. sample_env) (\<lambda>_. calm_session_env) sample_parsed sample_gen (\<lambda>w. (Panic, w))))
      sample_run_env sample_rf" by (simp add: env)
  obtain obs d' k' where dr: "runDaemonRun ?v (pe_abs ?env) (pe_getwd ?env) (pe_run ?env) (idle_daemon, 0) = (Some obs, Ok (), d', k')"
    using sample_daemon_command [OF sample_run_settings] unfolding client by (auto simp: env)
  obtain level where "execute_root ?env (file_values ?env) ?args ?w =
      (Some obs, Ok (), ?w\<lparr>pw_level := level, pw_client := (d', k')\<rparr>)"
    using execute_daemon_run [OF viper parse c v, of ?w] dr by (auto simp: sample_world_def)
  then have run: "Execute_program ?env ?args ?w = (Some obs, Ok 0, ?w\<lparr>pw_level := level, pw_client := (d', k')\<rparr>)"
    unfolding env by (intro sample_program_executed) simp
  have worlds: "pw_client ?w = (idle_daemon, 0)" "pw_client (?w\<lparr>pw_level := level, pw_client := (d', k')\<rparr>) = (d', k')"
    by (simp_all add: sample_world_def)
  obtain t where t: "DiscoverTests (rf_tc_files sample_rf) (rf_tc_env sample_rf) ''/t.json'' = Ok [t]"
    "t_ExpectedEvents t = []" using sample_case .
  note C = program_daemon_correct [OF run viper parse c v client worlds sample_idle(1) sample_inv(2) sample_idle(2)]
  have "v_String ?v ''testcase-dir'' = ''/t.json''"
    using arg_cong [OF sample_run_settings, of tr_testcasePath] sample_flags_run(4) by (simp add: test_run_of_def)
  moreover have late: "rn_late sample_run_env = 0" by (simp add: sample_run_env_def)
  ultimately obtain rs where rs: "obs = observe_run rs"
    "answered (\<lambda>_. quiet_handler) sample_run_env (test_run_of ?v) (Suc 0) rs t" using C t(1) by auto
  moreover have "rs \<noteq> []"
    using rs(2) t(2) by (auto simp: answered_def passed_def Compare_def split: if_splits result.splits)
  ultimately show ?thesis using C run late sample_idle(3) by auto
qed

end
