(* ===== verification/Spec2Isabelle.thy ===== *)
theory Spec2Isabelle
  imports Prelude Field_Set Bracket_Fields Wait_For_State Instance_Log Session_Controller Daemon Run Commands Concurrent_Runs Daemon_Program
begin

text \<open>
  Logstash Filter Verifier (LFV): a verification development of the program under \<open>src/\<close>.

  The program. LFV runs test cases against Logstash pipelines and compares the events that come
  out with those that the author of the test expects. In daemon mode (\<open>internal/app/daemon\<close>,
  \<open>internal/daemon\<close>) a long-lived daemon owns a pool of Logstash processes. A client (\<open>run.go\<close>) packs
  the pipelines into an archive, opens a session, executes one test after the other and tears the
  session down. For a session the daemon rewrites the configuration files: each input becomes a
  pipeline input with an address of its own, each output a pipeline output to a generated output
  pipeline that prints the events. For a test it adds an input pipeline that generates the input
  lines. A controller per Logstash process follows the process through its log and standard
  output and a state machine decides when the results of a test are complete. In standalone mode
  (\<open>internal/app/standalone\<close>, \<open>internal/logstash\<close>) one Logstash process is started for each test case
  file, or one for all of them. Both modes read test cases and compare events with
  \<open>internal/testcase\<close>, and print through \<open>internal/observer\<close>.

  How code becomes definitions. A Go error or panic is a value of the type \<open>result\<close> of Prelude, a
  struct a record, a map an association list with distinct keys (\<open>gmap\<close>), a byte string a
  \<open>string\<close>, a template or written file an entry of a \<open>file_map\<close>. A method that mutates its receiver
  returns it updated. A method that holds a mutex for its whole body is one atomic step; the
  controller's methods, which do not, are step relations over program points. What the operating
  system, Logstash, gRPC, timers and packages outside the repository do is a parameter: a field of
  an environment record, or a sequence of events over which a theorem quantifies. Logging is
  omitted.

  The theories, in the order of their dependence.
  \<^item> \<open>Prelude\<close>: results, Go maps with their laws (locale \<open>keyed_table\<close>), iteration that can fail
    (\<open>each\<close>, \<open>rmap\<close>), deletion from a slice that does not keep the order. \<open>Go_Strings\<close>, \<open>Go_Path\<close>: the functions
    of \<open>strings\<close>, \<open>strconv\<close>, \<open>sort\<close> and \<open>path/filepath\<close> that the program calls.
  \<^item> \<open>Field_Values\<close>, \<open>Field_Set\<close> (\<open>internal/logstash/fieldset.go\<close>): decoded JSON and YAML values; the
    Logstash hash literal of a field set, independent of the order in which Go visits the map,
    and the error that \<open>IsValid\<close> reports.
  \<^item> \<open>Bracket_Fields\<close> (\<open>internal/testcase/helper.go\<close>): keys in bracket notation, expanding a map of such keys
    (equivalent to a specification by leaves and paths), removing a field from an event.
  \<^item> \<open>State_Machine\<close> (\<open>controller/statemachine.go\<close>): states, transition table, \<open>executeCommand\<close>, one
    iteration of the wait for a state. A failed machine never recovers (locale \<open>failing_machine\<close>); a test
    ends only by its completion. \<open>Wait_For_State\<close>: the wait as a step system of the waiter, its timer, the
    goroutine that wakes the waiters up, the context and the other threads: when it returns, what
    takes it to its return once the timer has fired, and the wake-up that a waiter can miss.
  \<^item> \<open>Event_Store\<close> (\<open>events.go\<close>, \<open>pipelines.go\<close>): collected events and the readiness of pipelines (locale
    \<open>event_collector\<close>).
  \<^item> \<open>Go_Template\<close> (\<open>template.go\<close>), \<open>Pipeline_Type\<close> (\<open>pipeline.go\<close>, the type and the nested keys).
  \<^item> \<open>Logstash_Controller\<close> (\<open>controller.go\<close>, \<open>files.go\<close>): a thread is a program point \<open>pc\<close>, \<open>ctl_step\<close> one atomic
    step of it, \<open>run_thread\<close> a call executed alone and \<open>ctl_reach\<close> every interleaving. A whole test cycle
    returns the collected events; collecting refines an abstract collector under every
    interleaving; an unhealthy controller stays so; the race of the set-up with a late message.
  \<^item> \<open>Instance_Log\<close> (\<open>instance.go\<close>, \<open>processors.go\<close>): starting the process with all error paths, the three
    readers as lists of calls on the controller, the scanner's limit of 64 KiB. How Ruby prints the
    names of pipelines that Logstash logs is a parameter, relied on for plain names only.
  \<^item> \<open>Session_Pool\<close>, \<open>Controller_Pool\<close> (\<open>session/pool.go\<close>, \<open>pool/pool.go\<close>): the lease contract as the locale
    \<open>lease_pool\<close> and the pool, its interpretation.
  \<^item> \<open>Logstash_Config\<close> (\<open>logstashconfig/file.go\<close>, \<open>pluginmock.go\<close>): replacing inputs and outputs, validation, adding
    ids, applying mocks over the parser's syntax tree, which is the parameter \<open>ast_lib\<close> with the laws
    \<open>ast_ok\<close>.
  \<^item> \<open>Test_Case\<close> (\<open>testcase.go\<close>, \<open>discover.go\<close>): reading test case sets, converting them, comparing events.
  \<^item> \<open>Session\<close> (\<open>session/session.go\<close>, \<open>files.go\<close>): the pipelines of a set-up and of a test, their files
    and the set-up's request to the controller.
  \<^item> \<open>Session_Controller\<close> (\<open>session/controller.go\<close>): creating and destroying sessions, as a client of the lease
    contract: no two live sessions ever share a Logstash process.
  \<^item> \<open>Pipeline_Archive\<close> (\<open>pipeline.go\<close>), \<open>Limited_Env\<close> (\<open>env.go\<close>, \<open>detectversion.go\<close>).
  \<^item> \<open>Daemon\<close> (\<open>app/daemon/daemon.go\<close>): start, calls and shutdown. What the client packs is what the daemon
    unpacks; an error of a test destroys its session; the shutdown ends.
  \<^item> \<open>Observer\<close> (\<open>observer/summary.go\<close>), \<open>Run\<close> (\<open>app/daemon/run/run.go\<close>): the summary; the client, with the locale
    \<open>session_service\<close> for what it relies on, interpreted by the daemon's calls.
  \<^item> \<open>Invocation\<close> (\<open>invocation.go\<close>, \<open>pipelineconfigdir.go\<close>, \<open>copyfile.go\<close>): the temporary directory of a standalone
    run, its configuration files without their inputs and outputs (that a section set to nil is empty is
    a law of the parser's tree), the arguments. \<open>Process\<close>
    (\<open>process.go\<close>, \<open>parallel_process.go\<close>, \<open>eventreader.go\<close>, \<open>result.go\<close>): the processes, the routing of events through
    sockets, reading events. \<open>Standalone\<close> (\<open>standalone.go\<close>): the run; the two ways of running the tests
    agree. \<open>Verdict\<close>: what a successful run means, back to the events of each test case file.
  \<^item> \<open>Commands\<close> (\<open>internal/app/*.go\<close>, \<open>app/setup/setup.go\<close>, \<open>app/daemon/shutdown/shutdown.go\<close>): from the settings to the runs, the
    validation of arguments, the exit code, and the download of Logstash releases. \<open>Cli\<close>: the tree of commands, their flags with
    keys and defaults, and what each command reads of them, for any viper that keeps its documented precedence. \<open>Program\<close>,
    \<open>Daemon_Program\<close> (\<open>app.go\<close>): the whole program from the command line to the exit code, for each of the two modes. \<open>Daemon_Mode\<close>: the command of the
    client over the calls of the daemon, end to end. \<open>Daemon_System\<close>: the daemon under the calls of many clients:
    each call refines steps of the session controller, the sessions stay well formed, and a call
    leaves alone every session that it does not name. \<open>Answers\<close>, \<open>Concurrent_Runs\<close>: a run of the client beside any
    other clients (locale \<open>answering_client\<close>, and \<open>session_service\<close> for this client, too).

  Bounds and fuel. \<open>run_thread\<close> takes a number of steps: the controller's methods need at most six,
  and a thread that has finished is left alone by further ones, so the theorems about a call
  executed alone use six. The wait for a state is a run of actions, one for each
  step of a participant, without a bound; the shutdown's loop is recursive over the
  events that it receives, and the theorem states for which sequences it returns. \<open>expand\<close> and the splitting functions of \<open>Go_Strings\<close> recurse with a termination measure, on the
  length of the rest. Integers are mathematical ones where the code's \<open>int\<close> counts events or
  plugins; the conversion to \<open>int32\<close> of the client is written out.

  What is simplified. Path patterns, the parser, the zip format, YAML and JSON are parameters with
  the laws that a theorem uses among its hypotheses, and each such theorem has a witness that
  instantiates them. Quoting with \<^verbatim>\<open>%q\<close> keeps bytes from 128 on. Maps that Go visits in a random order
  are visited in the order of their list; theorems about results quantify over the order. The
  file system is the map of written files; an operation that fails in the operating system is a
  field of an environment. Timers are events. The number of values that are published before the
  observer's goroutine subscribes is a field of the environment (\<open>rn_late\<close>, \<open>ao_late\<close>), and so is what
  the process still gets done when that goroutine panics. An exit by \<open>log.Fatalf\<close> is the error
  \<open>Fatal\<close>: no deferred call runs after it. Signals that kill the client or the standalone run are
  not considered.

  Not modelled. What is printed on the way: help texts, logging, progress. \<open>main.go\<close> only passes on the exit code of \<open>Execute\<close>.
  The generated gRPC and mock code, the profiler, and the helpers of the tests (\<open>file\<close> among them). The generator of
  random ids (\<open>idgen\<close>) is a parameter, one library call. Nothing of this decides an outcome of a test.
\<close>

end
